(* ===== verification/Prelude.thy ===== *)
theory Prelude
  imports Main "HOL-Library.Word"
begin

text \<open>
  The vocabulary shared by every component of the model: bytes and machine words, faults of the
  C++ code as values, checked reads of buffers, the pieces of \<open>std::string\<close> the sources use
  (\<open>substr\<close>, \<open>find\<close>, \<open>assign\<close>, indexing), decimal printing, network byte order and
  \<open>size_t\<close> subtraction.
\<close>

unbundle bit_operations_syntax

subsection \<open>Bytes, words and faults\<close>

type_synonym byte = "8 word"
type_synonym u16 = "16 word"
type_synonym u32 = "32 word"
type_synonym u64 = "64 word"
type_synonym bytes = "byte list"

text \<open>
  What can go wrong inside a C++ function besides returning \<open>false\<close>: a read outside the buffer or
  an access through a pointer to a freed object (undefined behaviour), or an exception.
\<close>

datatype fault = Oob | Length_error | Out_of_range | Invalid_argument | Runtime_error | Bad_cast | Dangling

type_synonym 'a res = "fault + 'a"

definition rbind :: "'a res \<Rightarrow> ('a \<Rightarrow> 'b res) \<Rightarrow> 'b res" where
  "rbind m f = (case m of Inl e \<Rightarrow> Inl e | Inr x \<Rightarrow> f x)"

definition no_fault :: "'a res \<Rightarrow> bool" where
  "no_fault r = (case r of Inl _ \<Rightarrow> False | Inr _ \<Rightarrow> True)"

subsection \<open>Reading buffers\<close>

text \<open>\<open>p[i]\<close> for a \<open>const char*\<close> that points into a buffer: no check in C++, a fault here.\<close>

definition rd8 :: "bytes \<Rightarrow> nat \<Rightarrow> byte res" where
  "rd8 b i = (if i < length b then Inr (b ! i) else Inl Oob)"

text \<open>\<open>s[i]\<close> for a \<open>std::string\<close>: index \<open>size()\<close> is the terminating NUL.\<close>

definition str_at :: "bytes \<Rightarrow> nat \<Rightarrow> byte res" where
  "str_at s i = (if i < length s then Inr (s ! i) else if i = length s then Inr 0 else Inl Oob)"

text \<open>
  \<open>std::string(p + off, n)\<close> and \<open>assign(p + off, n)\<close>: \<open>std::length_error\<close> when \<open>n\<close> exceeds
  \<open>max_size()\<close>, otherwise \<open>n\<close> bytes are read.
\<close>

definition string_max_size :: nat where
  "string_max_size = 2 ^ 63 - 1"

definition rdn :: "bytes \<Rightarrow> nat \<Rightarrow> nat \<Rightarrow> bytes res" where
  "rdn b off n =
     (if n > string_max_size then Inl Length_error
      else if off + n \<le> length b then Inr (take n (drop off b))
      else Inl Oob)"

text \<open>\<open>s.substr(pos, n)\<close> and \<open>s.substr(pos)\<close>.\<close>

definition substr :: "bytes \<Rightarrow> nat \<Rightarrow> nat \<Rightarrow> bytes res" where
  "substr s pos n = (if pos > length s then Inl Out_of_range else Inr (take n (drop pos s)))"

definition substr_from :: "bytes \<Rightarrow> nat \<Rightarrow> bytes res" where
  "substr_from s pos = (if pos > length s then Inl Out_of_range else Inr (drop pos s))"

text \<open>\<open>s.find(pat)\<close>: the first position, \<open>None\<close> for \<open>npos\<close>.\<close>

fun find_str :: "bytes \<Rightarrow> bytes \<Rightarrow> nat option" where
  "find_str pat [] = (if pat = [] then Some 0 else None)"
| "find_str pat (x # xs) =
     (if take (length pat) (x # xs) = pat then Some 0 else map_option Suc (find_str pat xs))"

text \<open>\<open>size_t\<close> subtraction on a 64-bit host, for operands below \<open>2 ^ 64\<close>.\<close>

definition sz_sub :: "nat \<Rightarrow> nat \<Rightarrow> nat" where
  "sz_sub a b = (if b \<le> a then a - b else a + 2 ^ 64 - b)"

subsection \<open>Text\<close>

text \<open>An ASCII literal of the sources as bytes; \<open>std::to_string\<close> of an unsigned value.\<close>

definition ascii :: "string \<Rightarrow> bytes" where
  "ascii s = map of_char s"

definition crlf :: bytes where
  "crlf = [13, 10]"

fun to_dec :: "nat \<Rightarrow> bytes" where
  "to_dec n = (if n < 10 then [48 + of_nat n] else to_dec (n div 10) @ [48 + of_nat (n mod 10)])"

declare to_dec.simps [simp del]

text \<open>\<open>%02x\<close> of one byte.\<close>

definition hex_digit :: "nat \<Rightarrow> byte" where
  "hex_digit n = (if n < 10 then 48 + of_nat n else 87 + of_nat n)"

definition hex2 :: "byte \<Rightarrow> bytes" where
  "hex2 b = [hex_digit (unat b div 16), hex_digit (unat b mod 16)]"

subsection \<open>Byte order\<close>

definition hi8 :: "u16 \<Rightarrow> byte" where
  "hi8 w = ucast (drop_bit 8 w)"

definition lo8 :: "u16 \<Rightarrow> byte" where
  "lo8 w = ucast (w AND 0xFF)"

definition be16 :: "byte \<Rightarrow> byte \<Rightarrow> u16" where
  "be16 a b = push_bit 8 (ucast a) OR ucast b"

text \<open>\<open>htons\<close>, \<open>htonl\<close> and their inverses on a little-endian host swap the bytes.\<close>

definition htons :: "u16 \<Rightarrow> u16" where
  "htons w = push_bit 8 w OR drop_bit 8 w"

definition htonl :: "u32 \<Rightarrow> u32" where
  "htonl w = push_bit 24 (ucast (ucast w :: byte)) OR
             push_bit 16 (ucast (ucast (drop_bit 8 w) :: byte)) OR
             push_bit 8 (ucast (ucast (drop_bit 16 w) :: byte)) OR
             ucast (ucast (drop_bit 24 w) :: byte)"

subsection \<open>Lemmas\<close>

named_theorems parse_simps \<open>unfolding of checked reads\<close>

lemma rbind_simps [simp]: "rbind (Inr x) f = f x" "rbind (Inl e) f = Inl e"
  by (simp_all add: rbind_def)

lemma rbind_eq_Inr: "rbind m f = Inr y \<longleftrightarrow> (\<exists>x. m = Inr x \<and> f x = Inr y)"
  by (cases m) auto

lemma rbind_if [simp]: "rbind (if c then m else m') f = (if c then rbind m f else rbind m' f)"
  by simp

lemma no_fault_simps [simp]: "no_fault (Inr x)" "\<not> no_fault (Inl e)"
  by (simp_all add: no_fault_def)

lemma no_fault_rbind:
  "no_fault (rbind m f) \<longleftrightarrow> (\<exists>x. m = Inr x \<and> no_fault (f x))"
  by (cases m) auto

lemma no_fault_iff: "no_fault r \<longleftrightarrow> (\<exists>x. r = Inr x)"
  by (cases r) auto

lemma rd8_in [simp]: "i < length b \<Longrightarrow> rd8 b i = Inr (b ! i)"
  by (simp add: rd8_def)

lemma str_at_in [simp]: "i < length b \<Longrightarrow> str_at b i = Inr (b ! i)"
  by (simp add: str_at_def)

lemma rdn_in [simp]:
  "off + n \<le> length b \<Longrightarrow> n \<le> string_max_size \<Longrightarrow> rdn b off n = Inr (take n (drop off b))"
  by (simp add: rdn_def)

lemma substr_in [simp]: "pos \<le> length s \<Longrightarrow> substr s pos n = Inr (take n (drop pos s))"
  by (simp add: substr_def)

lemma substr_from_in [simp]: "pos \<le> length s \<Longrightarrow> substr_from s pos = Inr (drop pos s)"
  by (simp add: substr_from_def)

lemma small_le_string_max [simp]: "n \<le> 2 ^ 62 \<Longrightarrow> n \<le> string_max_size"
  by (simp add: string_max_size_def)

lemma sz_sub_le [simp]: "b \<le> a \<Longrightarrow> sz_sub a b = a - b"
  by (simp add: sz_sub_def)

lemma sz_sub_wrap [simp]: "sz_sub n (Suc n) = 2 ^ 64 - 1"
  by (simp add: sz_sub_def)

lemma length_crlf [simp]: "length crlf = 2"
  by (simp add: crlf_def)

lemma drop_pair: "i + 1 < length b \<Longrightarrow> drop i b = b ! i # b ! (i + 1) # drop (i + 2) b"
  by (simp add: Cons_nth_drop_Suc)

lemma drop_four:
  "i + 3 < length b \<Longrightarrow>
   drop i b = b ! i # b ! (i + 1) # b ! (i + 2) # b ! (i + 3) # drop (i + 4) b"
  using drop_pair [of i b] drop_pair [of "i + 2" b] by (simp add: eval_nat_numeral)

lemma split_four: "4 \<le> length b \<Longrightarrow> b = [b ! 0, b ! 1, b ! 2, b ! 3] @ drop 4 b"
  using drop_four [of 0 b] by (simp add: numeral_2_eq_2)

lemma drop_Cons_add [simp]: "drop (numeral v + n) (x # xs) = drop (pred_numeral v + n) xs"
  by (simp add: numeral_eq_Suc)

lemma le_length_ne: "0 < n \<Longrightarrow> n \<le> length b \<Longrightarrow> b \<noteq> []"
  by auto

lemma byte_bit_high [simp]: "8 \<le> n \<Longrightarrow> \<not> bit (b :: byte) n"
  by (auto dest: bit_imp_le_length)

lemma u16_of_nat: "l = of_nat k \<Longrightarrow> k < 2 ^ 16 \<Longrightarrow> unat (l :: u16) = k"
  by (simp add: unat_of_nat)

lemma byte_of_nat: "l = of_nat k \<Longrightarrow> k < 256 \<Longrightarrow> unat (l :: byte) = k"
  by (simp add: unat_of_nat)

lemma lo8_ucast: "lo8 w = ucast w"
proof -
  have "w AND 0xFF = take_bit 8 w"
    by (simp add: take_bit_eq_mask mask_eq_exp_minus_1)
  then show ?thesis
    unfolding lo8_def by (auto intro: bit_word_eqI simp: bit_simps)
qed

lemma be16_hi8_lo8 [simp]: "be16 (hi8 w) (lo8 w) = w"
  by (rule bit_word_eqI) (auto simp: be16_def hi8_def lo8_ucast bit_simps)

lemma hi8_be16 [simp]: "hi8 (be16 a b) = a"
  by (rule bit_word_eqI) (auto simp: be16_def hi8_def bit_simps dest: bit_imp_le_length)

lemma lo8_be16 [simp]: "lo8 (be16 a b) = b"
  by (rule bit_word_eqI) (auto simp: be16_def lo8_ucast bit_simps)

lemma htons_htons [simp]: "htons (htons w) = w"
  by (rule bit_word_eqI) (auto simp: htons_def bit_simps)

lemma take_frame_split:
  assumes "5 + al \<le> t" and "2 \<le> al" and "t \<le> length b"
  shows "take t b = [b ! 0, b ! 1, b ! 2, b ! 3, b ! 4] @ take (al - 2) (drop 5 b) @
    [b ! (5 + (al - 2)), b ! (5 + (al - 2) + 1)] @ take (t - 5 - al) (drop (5 + al) b)"
proof -
  have t: "t = 5 + ((al - 2) + (2 + (t - 5 - al)))"
    using assms by linarith
  have ne: "b \<noteq> []"
    using assms by auto
  have "take 5 b = [b ! 0, b ! 1, b ! 2, b ! 3, b ! 4]"
    using assms ne by (simp add: take_Suc_conv_app_nth eval_nat_numeral)
  moreover have "take 2 (drop (5 + (al - 2)) b) = [b ! (5 + (al - 2)), b ! (5 + (al - 2) + 1)]"
    using assms drop_pair [of "5 + (al - 2)" b] by simp
  moreover have "2 + (5 + (al - 2)) = 5 + al"
    using assms by linarith
  ultimately show ?thesis
    by (subst t, simp only: take_add drop_drop) (simp add: ac_simps)
qed


subsection \<open>Searching and splitting\<close>

lemma find_str_Some_split:
  "find_str pat s = Some i \<Longrightarrow> i + length pat \<le> length s \<and> s = take i s @ pat @ drop (i + length pat) s"
proof (induction pat s arbitrary: i rule: find_str.induct)
  case (2 pat x xs)
  show ?case
  proof (cases "take (length pat) (x # xs) = pat")
    case True
    then have "i = 0"
      using 2(2) by simp
    moreover have "length pat \<le> length (x # xs)"
      using arg_cong [OF True, of length] by (simp add: min_def split: if_splits)
    ultimately show ?thesis
      using True append_take_drop_id [of "length pat" "x # xs"] by simp
  next
    case False
    then show ?thesis
      using 2 by (auto simp: False)
  qed
qed (simp split: if_splits)

lemma find_str_crlf_append:
  "find_str crlf s = None \<Longrightarrow> find_str crlf (s @ crlf @ t) = Some (length s)"
proof (induction s)
  case Nil
  then show ?case
    by (simp add: crlf_def)
next
  case (Cons x s)
  have ten: "(13 :: byte) \<noteq> 10"
    by simp
  from Cons have "find_str crlf s = None" and "take 2 (x # s) \<noteq> crlf"
    by (auto split: if_splits)
  moreover have "take 2 (x # s @ crlf @ t) \<noteq> crlf"
    using calculation(2) ten by (cases s) (auto simp: crlf_def numeral_2_eq_2)
  ultimately show ?case
    using Cons.IH by simp
qed

lemma find_str_crlf_take: "find_str crlf s = Some i \<Longrightarrow> find_str crlf (take i s) = None"
proof (induction s arbitrary: i)
  case Nil
  then show ?case
    by (simp add: crlf_def)
next
  case (Cons x s)
  show ?case
  proof (cases i)
    case (Suc j)
    then have j: "find_str crlf s = Some j" and n: "take 2 (x # s) \<noteq> crlf"
      using Cons.prems by (auto split: if_splits)
    have "take 2 (x # take j s) \<noteq> crlf"
      using n by (cases j; cases s) (auto simp: crlf_def numeral_2_eq_2)
    then show ?thesis
      using Cons.IH [OF j] Suc by simp
  qed (simp add: crlf_def)
qed

text \<open>Decimal text has neither separators nor control characters, and determines its number.\<close>

lemma to_dec_ne [simp]: "to_dec n \<noteq> []" "[] \<noteq> to_dec n"
  by (subst to_dec.simps, simp)+

lemma to_dec_digits: "c \<in> set (to_dec n) \<Longrightarrow> 48 \<le> c \<and> c \<le> 57"
proof (induction n rule: to_dec.induct)
  case (1 n)
  have d: "48 \<le> (48 + of_nat m :: byte) \<and> (48 + of_nat m :: byte) \<le> 57" if "m < 10" for m
    using that by (auto simp: word_le_nat_alt unat_word_ariths unat_of_nat)
  show ?case
    using 1 d by (subst (asm) to_dec.simps) (auto split: if_splits)
qed

lemma digit_inj: "m < 10 \<Longrightarrow> n < 10 \<Longrightarrow> (48 + of_nat m :: byte) = 48 + of_nat n \<Longrightarrow> m = n"
  by (auto dest!: arg_cong [of _ _ unat] simp: unat_word_ariths unat_of_nat)

lemma to_dec_inj: "to_dec m = to_dec n \<Longrightarrow> m = n"
proof (induction m arbitrary: n rule: to_dec.induct)
  case (1 m)
  show ?case
  proof (cases "m < 10")
    case True
    then show ?thesis
      using 1(2) by (cases "n < 10") (auto simp: to_dec.simps [of m] to_dec.simps [of n] dest: digit_inj)
  next
    case False
    then have "\<not> n < 10"
      using 1(2) by (auto simp: to_dec.simps [of m] to_dec.simps [of n])
    then have "to_dec (m div 10) = to_dec (n div 10)" and
      "(48 + of_nat (m mod 10) :: byte) = 48 + of_nat (n mod 10)"
      using 1(2) False by (simp_all add: to_dec.simps [of m] to_dec.simps [of n])
    then have "m div 10 = n div 10" and "m mod 10 = n mod 10"
      using 1(1) [OF False] digit_inj [of "m mod 10" "n mod 10"] by auto
    then show ?thesis
      by (metis div_mult_mod_eq)
  qed
qed

lemma append_sep_inj:
  "x \<notin> set a \<Longrightarrow> x \<notin> set b \<Longrightarrow> a @ x # s = b @ x # t \<longleftrightarrow> a = b \<and> s = t"
proof (induction a arbitrary: b)
  case Nil
  then show ?case by (cases b) auto
next
  case (Cons y a)
  then show ?case by (cases b) auto
qed

text \<open>A \<open>host:port\<close> text determines both, even when the host contains colons.\<close>

lemma key_text_inj:
  "h @ ascii '':'' @ to_dec (unat (p :: u16)) = h' @ ascii '':'' @ to_dec (unat p') \<longleftrightarrow> h = h' \<and> p = p'"
proof
  assume k: "h @ ascii '':'' @ to_dec (unat p) = h' @ ascii '':'' @ to_dec (unat p')"
  have "rev (to_dec (unat p)) @ 58 # rev h = rev (to_dec (unat p')) @ 58 # rev h'"
    using arg_cong [OF k, of rev] by (simp add: ascii_def)
  moreover have "58 \<notin> set (rev (to_dec n))" for n
    using to_dec_digits [of 58 n] by auto
  ultimately have "rev (to_dec (unat p)) = rev (to_dec (unat p')) \<and> rev h = rev h'"
    using append_sep_inj [of 58 "rev (to_dec (unat p))" "rev (to_dec (unat p'))"] by blast
  then show "h = h' \<and> p = p'"
    using to_dec_inj [of "unat p" "unat p'"] by (auto simp: word_unat_eq_iff)
qed simp

end
