(* ===== verification/Endpoint.thy ===== *)
theory Endpoint
  imports Prelude
begin

text \<open>
  The values of \<open>boost::asio::ip::address\<close> and \<open>boost::asio::ip::udp::endpoint\<close> (and
  \<open>tcp::endpoint\<close>) as the sources use them: an IPv4 or IPv6 address as its bytes in network order,
  with a port. Only the data is represented; sockets and resolvers are inputs of the handlers.
\<close>

datatype ip_addr = Ip4 byte byte byte byte | Ip6 bytes

record endpoint =
  ep_addr :: ip_addr
  ep_port :: u16

definition default_endpoint :: endpoint where
  "default_endpoint = \<lparr>ep_addr = Ip4 0 0 0 0, ep_port = 0\<rparr>"

fun is_v4 :: "ip_addr \<Rightarrow> bool" where
  "is_v4 (Ip4 _ _ _ _) = True"
| "is_v4 (Ip6 _) = False"

fun addr_bytes :: "ip_addr \<Rightarrow> bytes" where
  "addr_bytes (Ip4 a b c d) = [a, b, c, d]"
| "addr_bytes (Ip6 bs) = bs"

fun is_unspecified :: "ip_addr \<Rightarrow> bool" where
  "is_unspecified (Ip4 a b c d) = (a = 0 \<and> b = 0 \<and> c = 0 \<and> d = 0)"
| "is_unspecified (Ip6 bs) = list_all (\<lambda>b. b = 0) bs"

text \<open>An IPv6 address has sixteen bytes; IPv4 is right by construction.\<close>

fun wf_addr :: "ip_addr \<Rightarrow> bool" where
  "wf_addr (Ip4 _ _ _ _) = True"
| "wf_addr (Ip6 bs) = (length bs = 16)"

definition wf_ep :: "endpoint \<Rightarrow> bool" where
  "wf_ep ep = wf_addr (ep_addr ep)"

text \<open>\<open>address_v4(bytes)\<close> and \<open>address_v6(bytes)\<close> filled by \<open>memcpy\<close> from a string.\<close>

definition v4_of_bytes :: "bytes \<Rightarrow> ip_addr res" where
  "v4_of_bytes s =
     rbind (rd8 s 0) (\<lambda>a. rbind (rd8 s 1) (\<lambda>b. rbind (rd8 s 2) (\<lambda>c. rbind (rd8 s 3) (\<lambda>d.
       Inr (Ip4 a b c d)))))"

definition v6_of_bytes :: "bytes \<Rightarrow> ip_addr res" where
  "v6_of_bytes s = rbind (rdn s 0 16) (\<lambda>bs. Inr (Ip6 bs))"

text \<open>\<open>address_v4(uint32_t)\<close>: the most significant byte is the first.\<close>

definition v4_of_uint :: "u32 \<Rightarrow> ip_addr" where
  "v4_of_uint w =
     Ip4 (ucast (drop_bit 24 w)) (ucast (drop_bit 16 w)) (ucast (drop_bit 8 w)) (ucast w)"

definition v4_to_uint :: "ip_addr \<Rightarrow> u32" where
  "v4_to_uint a = (case a of
     Ip4 a b c d \<Rightarrow> push_bit 24 (ucast a) OR push_bit 16 (ucast b) OR push_bit 8 (ucast c) OR ucast d
   | Ip6 _ \<Rightarrow> 0)"

lemma length_addr_bytes: "wf_addr a \<Longrightarrow> length (addr_bytes a) = (if is_v4 a then 4 else 16)"
  by (cases a) auto

lemma v4_of_bytes_4 [simp]: "v4_of_bytes [a, b, c, d] = Inr (Ip4 a b c d)"
  by (simp add: v4_of_bytes_def)

lemma v6_of_bytes_16 [simp]: "length bs = 16 \<Longrightarrow> v6_of_bytes bs = Inr (Ip6 bs)"
  by (simp add: v6_of_bytes_def)

lemma v4_of_to_uint: "v4_of_uint (v4_to_uint (Ip4 a b c d)) = Ip4 a b c d"
  unfolding v4_of_uint_def v4_to_uint_def
  by (auto intro!: bit_word_eqI simp: bit_simps)

lemma addr_bytes_inj:
  "wf_addr a \<Longrightarrow> wf_addr b \<Longrightarrow> addr_bytes a = addr_bytes b \<Longrightarrow> a = b"
  by (cases a; cases b) auto

end
