(* ===== verification/UdpFrame.thy ===== *)
theory UdpFrame
  imports Endpoint
begin

text \<open>
  \<^verbatim>\<open>Protocol/UdpFrame.{h,cpp}\<close>: the frame that carries one UDP datagram over the DTLS channel
  between client and server,
  \<^verbatim>\<open>MAGIC(2) TOTAL_LEN(2) ATYP(1) ADDR PORT(2) PAYLOAD\<close>. The parser is a method that
  fills its object and returns \<open>bool\<close>; here it returns the flag, the updated object and the
  \<open>frame_len\<close> out-parameter, or the fault the C++ code runs into.
\<close>

subsection \<open>Model\<close>

definition ADDR_IPV4 :: byte where "ADDR_IPV4 = 0x01"
definition ADDR_DOMAIN :: byte where "ADDR_DOMAIN = 0x03"
definition ADDR_IPV6 :: byte where "ADDR_IPV6 = 0x06"

definition MAGIC :: u16 where "MAGIC = 0x0D0A"
definition HEADER_SIZE :: nat where "HEADER_SIZE = 4"

record udp_frame =
  uf_addr_type :: byte
  uf_address :: bytes
  uf_port :: u16
  uf_payload :: bytes

definition new_udp_frame :: udp_frame where
  "new_udp_frame = \<lparr>uf_addr_type = ADDR_IPV4, uf_address = [], uf_port = 0, uf_payload = []\<rparr>"

definition put_u16_be :: "bytes \<Rightarrow> u16 \<Rightarrow> bytes" where
  "put_u16_be dst v = dst @ [hi8 v] @ [lo8 v]"

definition get_u16_be :: "bytes \<Rightarrow> nat \<Rightarrow> u16 res" where
  "get_u16_be b p = rbind (rd8 b p) (\<lambda>x. rbind (rd8 b (p + 1)) (\<lambda>y. Inr (be16 x y)))"

text \<open>
  The \<open>switch\<close> on the address type. \<open>None\<close> is the early \<open>return false\<close>; otherwise the updated
  object, the pointer offset, \<open>remaining\<close> and \<open>addr_len\<close> at the end of the case. The domain case
  advances \<open>p\<close> and \<open>remaining\<close> past the length byte and counts that byte in \<open>addr_len\<close> again.
\<close>

definition uf_parse_addr ::
    "udp_frame \<Rightarrow> bytes \<Rightarrow> nat \<Rightarrow> nat \<Rightarrow> (udp_frame \<times> nat \<times> nat \<times> nat) option res" where
  "uf_parse_addr f b p remaining =
     (if uf_addr_type f = ADDR_IPV4 then
        (if remaining < 4 + 2 then Inr None
         else rbind (rdn b p 4) (\<lambda>a. rbind (get_u16_be b (p + 4)) (\<lambda>pt.
           Inr (Some (f\<lparr>uf_address := a, uf_port := pt\<rparr>, p, remaining, 4 + 2)))))
      else if uf_addr_type f = ADDR_DOMAIN then
        (if remaining < 1 then Inr None
         else rbind (rd8 b p) (\<lambda>l. let dlen = unat l; p = p + 1; remaining = remaining - 1 in
           if remaining < dlen + 2 then Inr None
           else rbind (rdn b p dlen) (\<lambda>a. rbind (get_u16_be b (p + dlen)) (\<lambda>pt.
             Inr (Some (f\<lparr>uf_address := a, uf_port := pt\<rparr>, p, remaining, 1 + dlen + 2))))))
      else if uf_addr_type f = ADDR_IPV6 then
        (if remaining < 16 + 2 then Inr None
         else rbind (rdn b p 16) (\<lambda>a. rbind (get_u16_be b (p + 16)) (\<lambda>pt.
           Inr (Some (f\<lparr>uf_address := a, uf_port := pt\<rparr>, p, remaining, 16 + 2)))))
      else Inr None)"

definition uf_parse :: "udp_frame \<Rightarrow> bytes \<Rightarrow> nat \<Rightarrow> (bool \<times> udp_frame \<times> nat) res" where
  "uf_parse f b frame_len =
     (if length b < HEADER_SIZE then Inr (False, f, frame_len)
      else rbind (get_u16_be b 0) (\<lambda>magic.
        if magic \<noteq> MAGIC then Inr (False, f, frame_len)
        else rbind (get_u16_be b 2) (\<lambda>tl. let total_len = unat tl in
          if total_len < HEADER_SIZE \<or> length b < total_len then Inr (False, f, frame_len)
          else let p = HEADER_SIZE; remaining = total_len - HEADER_SIZE in
            if remaining < 1 then Inr (False, f, frame_len)
            else rbind (rd8 b p) (\<lambda>aty.
              let f = f\<lparr>uf_addr_type := aty\<rparr>; p = p + 1; remaining = remaining - 1 in
              rbind (uf_parse_addr f b p remaining) (\<lambda>r. case r of
                None \<Rightarrow> Inr (False, f, frame_len)
              | Some (f, p, remaining, addr_len) \<Rightarrow>
                  let p = p + addr_len; remaining = sz_sub remaining addr_len in
                  if remaining = 0 then Inr (True, f\<lparr>uf_payload := []\<rparr>, total_len)
                  else rbind (rdn b p remaining) (\<lambda>pl.
                    Inr (True, f\<lparr>uf_payload := pl\<rparr>, total_len)))))))"

definition uf_addr_part :: "endpoint \<Rightarrow> bytes" where
  "uf_addr_part ep =
     (if is_v4 (ep_addr ep) then
        [ADDR_IPV4] @ addr_bytes (ep_addr ep) @ [hi8 (ep_port ep)] @ [lo8 (ep_port ep)]
      else
        [ADDR_IPV6] @ addr_bytes (ep_addr ep) @ [hi8 (ep_port ep)] @ [lo8 (ep_port ep)])"

text \<open>\<open>uint16_t total_len\<close> keeps the low sixteen bits of the sum.\<close>

definition uf_generate_ep :: "endpoint \<Rightarrow> bytes \<Rightarrow> bytes" where
  "uf_generate_ep ep payload =
     (let addr_part = uf_addr_part ep;
          total_len = of_nat (HEADER_SIZE + length addr_part + length payload) :: u16
      in put_u16_be (put_u16_be [] MAGIC) total_len @ addr_part @ payload)"

definition uf_generate_domain :: "bytes \<Rightarrow> u16 \<Rightarrow> bytes \<Rightarrow> bytes" where
  "uf_generate_domain domain port payload =
     (let total_len = of_nat (HEADER_SIZE + 1 + 1 + length domain + 2 + length payload) :: u16;
          frame = put_u16_be (put_u16_be [] MAGIC) total_len;
          frame = frame @ [ADDR_DOMAIN];
          frame = frame @ [of_nat (length domain)];
          frame = frame @ domain;
          frame = put_u16_be frame port
      in frame @ payload)"

definition uf_addr_str :: "udp_frame \<Rightarrow> bytes res" where
  "uf_addr_str f =
     (if uf_addr_type f = ADDR_IPV4 then
        rbind (rd8 (uf_address f) 0) (\<lambda>a. rbind (rd8 (uf_address f) 1) (\<lambda>b.
        rbind (rd8 (uf_address f) 2) (\<lambda>c. rbind (rd8 (uf_address f) 3) (\<lambda>d.
          Inr (to_dec (unat a) @ ascii ''.'' @ to_dec (unat b) @ ascii ''.'' @
               to_dec (unat c) @ ascii ''.'' @ to_dec (unat d) @
               ascii '':'' @ to_dec (unat (uf_port f)))))))
      else if uf_addr_type f = ADDR_DOMAIN then
        Inr (uf_address f @ ascii '':'' @ to_dec (unat (uf_port f)))
      else if uf_addr_type f = ADDR_IPV6 then
        Inr (ascii ''[IPv6]:'' @ to_dec (unat (uf_port f)))
      else Inr (ascii ''unknown''))"

subsection \<open>Shape of generated frames\<close>

lemmas uf_consts = ADDR_IPV4_def ADDR_DOMAIN_def ADDR_IPV6_def HEADER_SIZE_def

lemma MAGIC_bytes [simp]: "hi8 MAGIC = 13" "lo8 MAGIC = 10"
  by (simp_all add: MAGIC_def hi8_def lo8_def)

lemma MAGIC_eq_be16: "be16 13 10 = MAGIC"
  using be16_hi8_lo8 [of MAGIC] by simp

text \<open>What the parser does on a header with an honest length field, address part left open.\<close>

lemma uf_parse_header:
  assumes "length body + 5 < 2 ^ 16" and "l = of_nat (length body + 5)"
  shows "uf_parse f ([13, 10, hi8 l, lo8 l, t] @ body @ rest) n =
    (let g = f\<lparr>uf_addr_type := t\<rparr>; b = [13, 10, hi8 l, lo8 l, t] @ body @ rest in
     rbind (uf_parse_addr g b 5 (length body)) (\<lambda>r. case r of
       None \<Rightarrow> Inr (False, g, n)
     | Some (g, p, remaining, addr_len) \<Rightarrow>
         if sz_sub remaining addr_len = 0 then Inr (True, g\<lparr>uf_payload := []\<rparr>, length body + 5)
         else rbind (rdn b (p + addr_len) (sz_sub remaining addr_len)) (\<lambda>pl.
           Inr (True, g\<lparr>uf_payload := pl\<rparr>, length body + 5))))"
proof -
  have l: "unat l = length body + 5"
    using u16_of_nat [OF assms(2,1)] .
  show ?thesis
    by (simp add: uf_parse_def get_u16_be_def HEADER_SIZE_def MAGIC_eq_be16 l Let_def
        cong: option.case_cong prod.case_cong if_cong)
qed

lemma uf_generate_ep_shape:
  "uf_generate_ep ep payload =
     (let l = of_nat (length (addr_bytes (ep_addr ep)) + 2 + length payload + 5) :: u16 in
      [13, 10, hi8 l, lo8 l, if is_v4 (ep_addr ep) then ADDR_IPV4 else ADDR_IPV6] @
      (addr_bytes (ep_addr ep) @ [hi8 (ep_port ep), lo8 (ep_port ep)] @ payload))"
  by (simp add: uf_generate_ep_def uf_addr_part_def put_u16_be_def HEADER_SIZE_def Let_def
      algebra_simps)

lemma uf_generate_domain_shape:
  "uf_generate_domain d port payload =
     (let l = of_nat (length (of_nat (length d) # d @ [hi8 port, lo8 port] @ payload) + 5) :: u16 in
      [13, 10, hi8 l, lo8 l, ADDR_DOMAIN] @
      ((of_nat (length d)) # d @ [hi8 port, lo8 port] @ payload))"
  by (simp add: uf_generate_domain_def put_u16_be_def HEADER_SIZE_def Let_def algebra_simps)

subsection \<open>Round trip and its failure for domains\<close>

text \<open>Parsing a generated endpoint frame with anything after it.\<close>

lemma uf_parse_generated_ep:
  assumes "wf_ep ep" and "length (uf_generate_ep ep payload) < 2 ^ 16"
  shows "uf_parse f (uf_generate_ep ep payload @ rest) n =
    Inr (True, \<lparr>uf_addr_type = (if is_v4 (ep_addr ep) then ADDR_IPV4 else ADDR_IPV6),
                uf_address = addr_bytes (ep_addr ep), uf_port = ep_port ep,
                uf_payload = payload\<rparr>,
         length (uf_generate_ep ep payload))"
proof -
  let ?body = "addr_bytes (ep_addr ep) @ [hi8 (ep_port ep), lo8 (ep_port ep)] @ payload"
  let ?l = "of_nat (length ?body + 5) :: u16"
  let ?t = "if is_v4 (ep_addr ep) then ADDR_IPV4 else ADDR_IPV6"
  have gen: "uf_generate_ep ep payload = [13, 10, hi8 ?l, lo8 ?l, ?t] @ ?body"
    by (simp add: uf_generate_ep_shape Let_def add.assoc)
  have len: "length ?body + 5 < 2 ^ 16"
    using assms(2) unfolding gen by simp
  have alen: "length (addr_bytes (ep_addr ep)) = (if is_v4 (ep_addr ep) then 4 else 16)"
    using assms(1) by (simp add: wf_ep_def length_addr_bytes)
  show ?thesis
    unfolding gen append_assoc
    apply (subst append_assoc [symmetric, of _ _ rest])
    using uf_parse_header [OF len refl, of f ?t rest n] alen len
    by (cases "is_v4 (ep_addr ep)")
      (simp_all add: uf_parse_addr_def uf_consts get_u16_be_def nth_append Let_def)
qed

text \<open>C23: a frame generated for an IP endpoint parses back to the same address bytes, port and
  payload, whatever follows it in the buffer, as long as its length fits the 16-bit length field.\<close>

theorem uf_roundtrip_endpoint:
  assumes "wf_ep ep" and "length (uf_generate_ep ep payload) < 2 ^ 16"
  shows "uf_parse f (uf_generate_ep ep payload @ rest) n =
    Inr (True, \<lparr>uf_addr_type = (if is_v4 (ep_addr ep) then ADDR_IPV4 else ADDR_IPV6),
                uf_address = addr_bytes (ep_addr ep), uf_port = ep_port ep,
                uf_payload = payload\<rparr>,
         length (uf_generate_ep ep payload))"
  using assms by (rule uf_parse_generated_ep)

theorem uf_roundtrip_endpoint_witness:
  "uf_parse new_udp_frame
     (uf_generate_ep \<lparr>ep_addr = Ip4 8 8 4 4, ep_port = 53\<rparr> [1, 2, 3] @ [9]) 0 =
   Inr (True, \<lparr>uf_addr_type = 1, uf_address = [8, 8, 4, 4], uf_port = 53,
              uf_payload = [1, 2, 3]\<rparr>, 14)"
proof -
  let ?ep = "\<lparr>ep_addr = Ip4 8 8 4 4, ep_port = 53\<rparr>"
  have len: "length (uf_generate_ep ?ep [1, 2, 3]) = 14"
    by (simp add: uf_generate_ep_shape Let_def)
  show ?thesis
    using uf_roundtrip_endpoint [of ?ep "[1, 2, 3]" new_udp_frame "[9]" 0]
    by (simp add: len wf_ep_def uf_consts)
qed

text \<open>Parsing a generated domain frame, for any payload that fits.\<close>

lemma uf_parse_generated_domain:
  assumes "length d < 256" and "length (uf_generate_domain d port payload) < 2 ^ 16"
  shows "uf_parse f (uf_generate_domain d port payload @ rest) n =
    (if payload = [] then Inl Length_error
     else Inr (True, \<lparr>uf_addr_type = ADDR_DOMAIN, uf_address = d, uf_port = port,
                       uf_payload = tl payload\<rparr>,
               length (uf_generate_domain d port payload)))"
proof -
  let ?body = "of_nat (length d) # d @ [hi8 port, lo8 port] @ payload"
  let ?l = "of_nat (length ?body + 5) :: u16"
  have gen: "uf_generate_domain d port payload = [13, 10, hi8 ?l, lo8 ?l, ADDR_DOMAIN] @ ?body"
    by (simp add: uf_generate_domain_shape Let_def)
  have len: "length ?body + 5 < 2 ^ 16"
    using assms(2) unfolding gen by simp
  have dl: "unat (of_nat (length d) :: byte) = length d"
    using byte_of_nat [OF refl assms(1)] .
  have dr: "drop (9 + length d) (a # b # c # e # t # m # d @ x # y # z # zs) = zs"
    for a b c e t m x y z :: byte and zs
    by (simp add: drop_Cons')
  show ?thesis
    unfolding gen append_assoc
    apply (subst append_assoc [symmetric, of _ _ rest])
    using uf_parse_header [OF len refl, of f ADDR_DOMAIN rest n] len dl
    by (cases payload)
      (simp_all add: uf_parse_addr_def uf_consts get_u16_be_def nth_append Let_def
        rdn_def string_max_size_def dr cong: if_cong)
qed

subsection \<open>Faults and canonical form\<close>

lemma get_u16_be_in [simp]: "p + 1 < length b \<Longrightarrow> get_u16_be b p = Inr (be16 (b ! p) (b ! (p + 1)))"
  by (simp add: get_u16_be_def)

lemma byte_le_string_max [simp]: "unat (x :: byte) \<le> string_max_size"
proof -
  have "unat x < 256"
    using unsigned_less [of x] by simp
  then show ?thesis
    by (simp add: string_max_size_def)
qed

lemma uf_parse_addr_no_fault:
  "p + remaining \<le> length b \<Longrightarrow> \<exists>r. uf_parse_addr f b p remaining = Inr r"
  by (auto simp: uf_parse_addr_def uf_consts Let_def)

lemma uf_parse_addr_domain:
  assumes "uf_addr_type f = ADDR_DOMAIN" and "p + remaining \<le> length b"
    and "uf_parse_addr f b p remaining = Inr (Some (g, q, rm, al))"
  shows "q = p + 1 \<and> rm + 1 = remaining \<and> al = 3 + unat (b ! p) \<and> al \<le> remaining"
  using assms by (auto simp: uf_parse_addr_def uf_consts Let_def split: if_splits)

lemma uf_parse_addr_ip:
  assumes "uf_addr_type f \<noteq> ADDR_DOMAIN" and "p + remaining \<le> length b"
    and "uf_parse_addr f b p remaining = Inr (Some (g, q, rm, al))"
  shows "q = p \<and> rm = remaining \<and> al \<le> remaining \<and>
    (uf_addr_type f = ADDR_IPV4 \<and> al = 6 \<or> uf_addr_type f = ADDR_IPV6 \<and> al = 18) \<and>
    g = f\<lparr>uf_address := take (al - 2) (drop p b),
          uf_port := be16 (b ! (p + (al - 2))) (b ! (p + (al - 2) + 1))\<rparr>"
  using assms by (auto simp: uf_parse_addr_def uf_consts split: if_splits)

text \<open>The parser as a whole on a buffer that passes the header checks.\<close>

lemma uf_parse_checked:
  assumes "4 \<le> length b" and "be16 (b ! 0) (b ! 1) = MAGIC"
    and "5 \<le> unat (be16 (b ! 2) (b ! 3))" and "unat (be16 (b ! 2) (b ! 3)) \<le> length b"
  shows "uf_parse f b n =
    (let t = unat (be16 (b ! 2) (b ! 3)) in
     rbind (uf_parse_addr (f\<lparr>uf_addr_type := b ! 4\<rparr>) b 5 (t - 5)) (\<lambda>r. case r of
       None \<Rightarrow> Inr (False, f\<lparr>uf_addr_type := b ! 4\<rparr>, n)
     | Some (f, p, remaining, addr_len) \<Rightarrow>
         (if sz_sub remaining addr_len = 0 then Inr (True, f\<lparr>uf_payload := []\<rparr>, t)
          else rbind (rdn b (p + addr_len) (sz_sub remaining addr_len)) (\<lambda>pl.
            Inr (True, f\<lparr>uf_payload := pl\<rparr>, t)))))"
  using assms
  by (simp add: uf_parse_def HEADER_SIZE_def Let_def numeral_3_eq_3 [symmetric])

lemma uf_parse_unchecked:
  assumes "\<not> (4 \<le> length b \<and> be16 (b ! 0) (b ! 1) = MAGIC \<and>
             5 \<le> unat (be16 (b ! 2) (b ! 3)) \<and> unat (be16 (b ! 2) (b ! 3)) \<le> length b)"
  shows "uf_parse f b n = Inr (False, f, n)"
  using assms by (auto simp: uf_parse_def HEADER_SIZE_def Let_def)

lemma u16_less: "unat (w :: u16) < 65536"
  using unsigned_less [of w] by simp

lemma uf_parse_fault_iff:
  "uf_parse f b n = Inl e \<longleftrightarrow>
     e = Length_error \<and> 4 \<le> length b \<and> be16 (b ! 0) (b ! 1) = MAGIC \<and>
     unat (be16 (b ! 2) (b ! 3)) \<le> length b \<and>
     b ! 4 = ADDR_DOMAIN \<and> unat (be16 (b ! 2) (b ! 3)) = 8 + unat (b ! 5)"
proof (cases "4 \<le> length b \<and> be16 (b ! 0) (b ! 1) = MAGIC \<and>
    5 \<le> unat (be16 (b ! 2) (b ! 3)) \<and> unat (be16 (b ! 2) (b ! 3)) \<le> length b")
  case False
  then show ?thesis
    by (auto simp: uf_parse_unchecked)
next
  case True
  let ?t = "unat (be16 (b ! 2) (b ! 3))" and ?g = "f\<lparr>uf_addr_type := b ! 4\<rparr>"
  have t: "?t < 65536"
    by (rule u16_less)
  have bound: "5 + (?t - 5) \<le> length b"
    using True by linarith
  obtain r where r: "uf_parse_addr ?g b 5 (?t - 5) = Inr r"
    using uf_parse_addr_no_fault [OF bound] by blast
  show ?thesis
  proof (cases r)
    case None
    then have "\<not> (b ! 4 = ADDR_DOMAIN \<and> ?t = 8 + unat (b ! 5))"
      using r True by (auto simp: uf_parse_addr_def uf_consts Let_def)
    then show ?thesis
      using True r None by (simp add: uf_parse_checked Let_def)
  next
    case (Some x)
    obtain g q rm al where x: "x = (g, q, rm, al)"
      by (cases x)
    have dom: "q = 6 \<and> rm + 1 = ?t - 5 \<and> al = 3 + unat (b ! 5) \<and> al \<le> ?t - 5"
      if "b ! 4 = ADDR_DOMAIN"
      using uf_parse_addr_domain [of ?g 5 "?t - 5" b g q rm al] that bound r Some x by simp
    have ip: "q = 5 \<and> rm = ?t - 5 \<and> al \<le> ?t - 5" if "b ! 4 \<noteq> ADDR_DOMAIN"
      using uf_parse_addr_ip [of ?g 5 "?t - 5" b g q rm al] that bound r Some x by simp
    have "rdn b (q + al) (sz_sub rm al) = Inl Length_error" if "al = Suc rm"
      using that by (simp add: rdn_def string_max_size_def)
    moreover have "\<exists>pl. rdn b (q + al) (sz_sub rm al) = Inr pl" if "al \<le> rm"
      using that dom ip True t
      by (cases "b ! 4 = ADDR_DOMAIN") (auto simp: rdn_def string_max_size_def)
    ultimately show ?thesis
      using dom ip True r Some x
      by (cases "al = Suc rm"; cases "b ! 4 = ADDR_DOMAIN")
        (auto simp: uf_parse_checked Let_def)
  qed
qed

text \<open>C30: the parser never reads outside the buffer it is given; the only way it can fail besides
  returning false is the length_error of \<open>payload.assign\<close>, and that happens exactly for a domain
  frame whose total length leaves no payload.\<close>

theorem uf_parse_faults:
  "uf_parse f b n = Inl e \<longleftrightarrow>
     e = Length_error \<and> 4 \<le> length b \<and> be16 (b ! 0) (b ! 1) = MAGIC \<and>
     unat (be16 (b ! 2) (b ! 3)) \<le> length b \<and>
     b ! 4 = ADDR_DOMAIN \<and> unat (be16 (b ! 2) (b ! 3)) = 8 + unat (b ! 5)"
  by (rule uf_parse_fault_iff)

text \<open>C31: a domain frame as the client generates it is parsed with the first payload byte dropped;
  with an empty payload the parser throws length_error.\<close>

theorem uf_domain_first_byte_lost:
  assumes "length d < 256" and "length (uf_generate_domain d port payload) < 2 ^ 16"
  shows "uf_parse f (uf_generate_domain d port payload) n =
    (if payload = [] then Inl Length_error
     else Inr (True, \<lparr>uf_addr_type = ADDR_DOMAIN, uf_address = d, uf_port = port,
                       uf_payload = tl payload\<rparr>,
               length (uf_generate_domain d port payload)))"
  using uf_parse_generated_domain [OF assms, of f "[]" n] by simp

theorem uf_domain_first_byte_lost_witness:
  "uf_parse new_udp_frame (uf_generate_domain [97, 46, 98] 53 [1, 2, 3]) 0 =
   Inr (True, \<lparr>uf_addr_type = 3, uf_address = [97, 46, 98], uf_port = 53, uf_payload = [2, 3]\<rparr>, 14)"
proof -
  have len: "length (uf_generate_domain [97, 46, 98] 53 [1, 2, 3]) = 14"
    by (simp add: uf_generate_domain_shape Let_def)
  show ?thesis
    using uf_domain_first_byte_lost [of "[97, 46, 98]" 53 "[1, 2, 3]" new_udp_frame 0]
    by (simp add: len uf_consts)
qed

lemma uf_parse_accepted:
  assumes "uf_parse f b n = Inr (True, g, m)" and "uf_addr_type g \<noteq> ADDR_DOMAIN"
  shows "\<exists>ep. wf_ep ep \<and> uf_address g = addr_bytes (ep_addr ep) \<and> uf_port g = ep_port ep \<and>
     uf_addr_type g = (if is_v4 (ep_addr ep) then ADDR_IPV4 else ADDR_IPV6) \<and>
     take m b = uf_generate_ep ep (uf_payload g) \<and> m = length (uf_generate_ep ep (uf_payload g))"
proof -
  let ?t = "unat (be16 (b ! 2) (b ! 3))" and ?f = "f\<lparr>uf_addr_type := b ! 4\<rparr>"
  have hdr: "4 \<le> length b \<and> be16 (b ! 0) (b ! 1) = MAGIC \<and> 5 \<le> ?t \<and> ?t \<le> length b"
    using assms(1) uf_parse_unchecked [of b f n] by fastforce
  then have bound: "5 + (?t - 5) \<le> length b"
    by linarith
  obtain r where r: "uf_parse_addr ?f b 5 (?t - 5) = Inr r"
    using uf_parse_addr_no_fault [OF bound] by blast
  with assms(1) hdr have "r \<noteq> None"
    by (cases r) (auto simp: uf_parse_checked Let_def)
  then obtain h q rm al where addr: "uf_parse_addr ?f b 5 (?t - 5) = Inr (Some (h, q, rm, al))"
    using r by (cases r) auto
  have g: "uf_addr_type g = uf_addr_type h" "uf_address g = uf_address h" "uf_port g = uf_port h"
       "m = ?t" and
    pl: "uf_payload g = [] \<and> sz_sub rm al = 0 \<or> rdn b (q + al) (sz_sub rm al) = Inr (uf_payload g)"
    using assms(1) hdr addr
    by (auto simp: uf_parse_checked Let_def rbind_eq_Inr split: if_splits)
  have ty: "uf_addr_type h = b ! 4"
    using addr by (auto simp: uf_parse_addr_def Let_def rbind_eq_Inr split: if_splits)
  then have ip: "q = 5" "rm = ?t - 5" "al \<le> ?t - 5"
    "b ! 4 = ADDR_IPV4 \<and> al = 6 \<or> b ! 4 = ADDR_IPV6 \<and> al = 18"
    "uf_address h = take (al - 2) (drop 5 b)"
    "uf_port h = be16 (b ! (5 + (al - 2))) (b ! (5 + (al - 2) + 1))"
    using uf_parse_addr_ip [OF _ bound addr] assms(2) g(1) by auto
  define a where "a = (if b ! 4 = ADDR_IPV4 then Ip4 (b ! 5) (b ! 6) (b ! 7) (b ! 8)
    else Ip6 (take 16 (drop 5 b)))"
  let ?ep = "\<lparr>ep_addr = a, ep_port = uf_port h\<rparr>"
  have a: "addr_bytes a = take (al - 2) (drop 5 b)" "wf_addr a" "is_v4 a \<longleftrightarrow> b ! 4 = ADDR_IPV4"
    using ip hdr drop_four [of 5 b] by (auto simp: a_def uf_consts)
  have payload: "uf_payload g = take (?t - 5 - al) (drop (5 + al) b)"
    using pl ip by (auto simp: rdn_def split: if_splits)
  have magic: "b ! 0 = 13" "b ! 1 = 10"
    using hdr by (metis MAGIC_bytes hi8_be16 lo8_be16)+
  have "length (addr_bytes a) + 2 + length (uf_payload g) + 5 = ?t"
    using ip hdr a(1) payload by auto
  then have len: "(of_nat (length (addr_bytes a) + 2 + length (uf_payload g) + 5) :: u16)
      = be16 (b ! 2) (b ! 3)"
    by (simp only: of_nat_unat ucast_id)
  have "take ?t b = uf_generate_ep ?ep (uf_payload g)"
    using take_frame_split [of al ?t b] ip hdr a payload magic len g
    by (auto simp: uf_generate_ep_shape Let_def uf_consts)
  then show ?thesis
    using a g ip hdr ty by (intro exI [of _ ?ep]) (auto simp: wf_ep_def uf_consts min_absorb2 dest: arg_cong [of _ _ length])
qed

text \<open>The parser accepts only canonical IP frames: whenever it returns true with an IP address
  type, the bytes it consumed are exactly the frame the generator produces for the parsed endpoint and
  payload.\<close>

theorem uf_parse_canonical:
  assumes "uf_parse f b n = Inr (True, g, m)" and "uf_addr_type g \<noteq> ADDR_DOMAIN"
  shows "\<exists>ep. wf_ep ep \<and> uf_address g = addr_bytes (ep_addr ep) \<and> uf_port g = ep_port ep \<and>
     uf_addr_type g = (if is_v4 (ep_addr ep) then ADDR_IPV4 else ADDR_IPV6) \<and>
     take m b = uf_generate_ep ep (uf_payload g) \<and> m = length (uf_generate_ep ep (uf_payload g))"
  using assms by (rule uf_parse_accepted)

theorem uf_parse_canonical_witness:
  "\<exists>ep. wf_ep ep \<and> [8, 8, 4, 4] = addr_bytes (ep_addr ep) \<and> 53 = ep_port ep \<and>
     take 12 [13, 10, 0, 12, 1, 8, 8, 4, 4, 0, 53, 7, 99] = uf_generate_ep ep [7] \<and>
     12 = length (uf_generate_ep ep [7])"
proof -
  let ?g = "\<lparr>uf_addr_type = 1, uf_address = [8, 8, 4, 4], uf_port = 53, uf_payload = [7]\<rparr>"
  have "uf_parse new_udp_frame [13, 10, 0, 12, 1, 8, 8, 4, 4, 0, 53, 7, 99] 0 = Inr (True, ?g, 12)"
    by (simp add: uf_parse_def uf_parse_addr_def uf_consts Let_def be16_def get_u16_be_def rd8_def rdn_def sz_sub_def new_udp_frame_def string_max_size_def MAGIC_def)
  from uf_parse_canonical [OF this] show ?thesis
    by (auto simp: uf_consts split: if_splits)
qed

end
