(* ===== verification/Coding.thy ===== *)
theory Coding
  imports Prelude
begin

text \<open>
  \<^verbatim>\<open>Shared/Coding.{h,cpp}\<close>: little-endian integer codecs over \<open>std::string\<close>. An encoder appends
  to its first argument; a decoder takes a pointer, here a buffer and an offset. \<open>DecodeStr\<close> takes
  its length as \<open>int\<close>, so a 32-bit length above \<open>INT_MAX\<close> becomes a negative number and then a huge
  \<open>size_t\<close>.
\<close>

subsection \<open>Model\<close>

text \<open>The array behind \<open>s.data()\<close>: the characters and the terminating NUL.\<close>

definition str_data :: "bytes \<Rightarrow> bytes" where
  "str_data s = s @ [0]"

definition EncodeFixed8 :: "bytes \<Rightarrow> byte \<Rightarrow> bytes" where
  "EncodeFixed8 buf v = buf @ [v]"

definition EncodeFixed16 :: "bytes \<Rightarrow> u16 \<Rightarrow> bytes" where
  "EncodeFixed16 dst v = dst @ [ucast v, ucast (drop_bit 8 v)]"

definition EncodeFixed32 :: "bytes \<Rightarrow> u32 \<Rightarrow> bytes" where
  "EncodeFixed32 dst v =
     dst @ [ucast v, ucast (drop_bit 8 v), ucast (drop_bit 16 v), ucast (drop_bit 24 v)]"

definition EncodeStr :: "bytes \<Rightarrow> bytes \<Rightarrow> bytes" where
  "EncodeStr dst src = dst @ src"

text \<open>A C string ends at its first NUL.\<close>

definition EncodeCstr :: "bytes \<Rightarrow> bytes \<Rightarrow> bytes" where
  "EncodeCstr dst src = dst @ takeWhile (\<lambda>c. c \<noteq> 0) src"

definition DecodeFixed8 :: "bytes \<Rightarrow> nat \<Rightarrow> byte res" where
  "DecodeFixed8 b p = rd8 b p"

definition DecodeFixed16 :: "bytes \<Rightarrow> nat \<Rightarrow> u16 res" where
  "DecodeFixed16 b p =
     rbind (rd8 b p) (\<lambda>x. rbind (rd8 b (p + 1)) (\<lambda>y. Inr (ucast x OR push_bit 8 (ucast y))))"

definition DecodeFixed32 :: "bytes \<Rightarrow> nat \<Rightarrow> u32 res" where
  "DecodeFixed32 b p =
     rbind (rd8 b p) (\<lambda>x. rbind (rd8 b (p + 1)) (\<lambda>y.
     rbind (rd8 b (p + 2)) (\<lambda>z. rbind (rd8 b (p + 3)) (\<lambda>w.
       Inr (ucast x OR push_bit 8 (ucast y) OR push_bit 16 (ucast z) OR push_bit 24 (ucast w))))))"

text \<open>The \<open>size_t\<close> that the \<open>int\<close> parameter turns into inside \<open>std::string(ptr, len)\<close>.\<close>

definition int_len :: "u32 \<Rightarrow> nat" where
  "int_len l = (if l < 2 ^ 31 then unat l else unat l + (2 ^ 64 - 2 ^ 32))"

definition DecodeStr :: "bytes \<Rightarrow> nat \<Rightarrow> u32 \<Rightarrow> bytes res" where
  "DecodeStr b p l = rdn b p (int_len l)"

subsection \<open>Round trips\<close>

named_theorems coding_simps \<open>decoding what an encoder wrote at a known offset\<close>

lemma length_encoders [simp]:
  "length (EncodeFixed8 b v) = length b + 1"
  "length (EncodeFixed16 b w) = length b + 2"
  "length (EncodeFixed32 b x) = length b + 4"
  "length (EncodeStr b s) = length b + length s"
  by (simp_all add: EncodeFixed8_def EncodeFixed16_def EncodeFixed32_def EncodeStr_def)

lemma u16_split: "ucast (ucast v :: byte) OR push_bit 8 (ucast (ucast (drop_bit 8 v) :: byte)) = (v :: u16)"
  by (rule bit_word_eqI) (auto simp: bit_simps)

lemma u32_split:
  "ucast (ucast v :: byte) OR push_bit 8 (ucast (ucast (drop_bit 8 v) :: byte)) OR
   push_bit 16 (ucast (ucast (drop_bit 16 v) :: byte)) OR
   push_bit 24 (ucast (ucast (drop_bit 24 v) :: byte)) = (v :: u32)"
proof (rule bit_word_eqI)
  fix n
  assume "n < LENGTH(32)"
  then consider "n < 8" | "8 \<le> n" "n < 16" | "16 \<le> n" "n < 24" | "24 \<le> n" "n < 32"
    by fastforce
  then show "bit (ucast (ucast v :: byte) OR push_bit 8 (ucast (ucast (drop_bit 8 v) :: byte)) OR
    push_bit 16 (ucast (ucast (drop_bit 16 v) :: byte)) OR
    push_bit 24 (ucast (ucast (drop_bit 24 v) :: byte)) :: u32) n = bit v n"
    by cases (auto simp: bit_simps less_diff_conv2)
qed

lemma DecodeFixed16_Encode [coding_simps]:
  "p = length pre \<Longrightarrow> DecodeFixed16 (EncodeFixed16 pre v @ rest) p = Inr v"
  by (simp add: DecodeFixed16_def EncodeFixed16_def nth_append u16_split)

lemma DecodeFixed32_Encode [coding_simps]:
  "p = length pre \<Longrightarrow> DecodeFixed32 (EncodeFixed32 pre v @ rest) p = Inr v"
  by (simp add: DecodeFixed32_def EncodeFixed32_def nth_append u32_split)

lemma DecodeStr_Encode [coding_simps]:
  assumes "p = length pre" and "unat l = length s" and "length s < 2 ^ 31"
  shows "DecodeStr (EncodeStr pre s @ rest) p l = Inr s"
proof -
  have "l < 2 ^ 31"
    using assms(2,3) by (simp add: word_less_nat_alt)
  then show ?thesis
    using assms by (simp add: DecodeStr_def EncodeStr_def int_len_def rdn_def string_max_size_def)
qed

lemma DecodeStr_negative: "\<not> l < 2 ^ 31 \<Longrightarrow> DecodeStr b p l = Inl Length_error"
  by (simp add: DecodeStr_def int_len_def rdn_def string_max_size_def)

lemma word_bytes4:
  fixes a b c d :: byte
  defines "w \<equiv> (ucast a OR push_bit 8 (ucast b) OR push_bit 16 (ucast c) OR push_bit 24 (ucast d) :: u32)"
  shows "ucast w = a" "ucast (drop_bit 8 w) = b" "ucast (drop_bit 16 w) = c" "ucast (drop_bit 24 w) = d"
  unfolding w_def by (auto intro!: bit_word_eqI simp: bit_simps)

lemma htonl_htonl [simp]: "htonl (htonl w) = w"
proof -
  have "htonl w = ucast (ucast (drop_bit 24 w) :: byte) OR
      push_bit 8 (ucast (ucast (drop_bit 16 w) :: byte)) OR
      push_bit 16 (ucast (ucast (drop_bit 8 w) :: byte)) OR push_bit 24 (ucast (ucast w :: byte))"
    by (simp add: htonl_def ac_simps)
  note b = this word_bytes4 [of "ucast (drop_bit 24 w)" "ucast (drop_bit 16 w)" "ucast (drop_bit 8 w)" "ucast w",
    folded this]
  show ?thesis
    unfolding htonl_def [of "htonl w"] b(2-5) using u32_split [of w] by (simp add: ac_simps)
qed

end
