(* ===== verification/VRequest.thy ===== *)
theory VRequest
  imports Coding
begin

text \<open>
  \<^verbatim>\<open>Protocol/VProtocal/VRequest.{h,cpp}\<close>: the proxy's own request header, an identifier, a
  version, a total length, three length-prefixed strings (user, password, target address) and a port.
  \<open>vr_stream\<close> and \<open>vr_unstream\<close> translate the two methods; the latter walks a raw pointer through
  \<open>buf.data()\<close>, so every read is checked against the string's storage (its characters and the
  terminating NUL) and becomes \<open>Oob\<close> outside it.
\<close>

subsection \<open>Model\<close>

definition v_identifier :: bytes where
  "v_identifier = ascii ''v protocol''"

definition identifier_len :: nat where
  "identifier_len = 10"

record vrequest =
  vr_version :: byte
  vr_len :: u32
  vr_user_name :: bytes
  vr_password :: bytes
  vr_address :: bytes
  vr_port :: u16
  vr_packed_buff :: bytes

text \<open>\<open>stream\<close> sets \<open>header.len\<close> and appends the encoding to the buffer.\<close>

definition vr_stream :: "vrequest \<Rightarrow> bytes \<Rightarrow> vrequest \<times> bytes" where
  "vr_stream r buf =
     (let len = of_nat (5 + identifier_len + length (vr_password r) + 4 + length (vr_user_name r) + 4 +
                        length (vr_address r) + 4 + 2);
          r = r\<lparr>vr_len := len\<rparr>;
          buf = EncodeCstr buf v_identifier;
          buf = EncodeFixed8 buf (vr_version r);
          buf = EncodeFixed32 buf (htonl (vr_len r));
          buf = EncodeFixed32 buf (htonl (of_nat (length (vr_user_name r))));
          buf = EncodeStr buf (vr_user_name r);
          buf = EncodeFixed32 buf (htonl (of_nat (length (vr_password r))));
          buf = EncodeStr buf (vr_password r);
          buf = EncodeFixed32 buf (htonl (of_nat (length (vr_address r))));
          buf = EncodeStr buf (vr_address r);
          buf = EncodeFixed16 buf (htons (vr_port r))
      in (r, buf))"

text \<open>One length-prefixed string at offset \<open>p\<close>: the string and the offset behind it.\<close>

definition vr_field :: "bytes \<Rightarrow> nat \<Rightarrow> (bytes \<times> nat) res" where
  "vr_field d p =
     rbind (DecodeFixed32 d p) (\<lambda>n. let len = htonl n; p = p + 4 in
     rbind (DecodeStr d p len) (\<lambda>s. Inr (s, p + unat len)))"

definition vr_unstream :: "vrequest \<Rightarrow> bytes \<Rightarrow> (bool \<times> vrequest) res" where
  "vr_unstream r buf =
     (if length buf < identifier_len + 1 + 4 then Inr (False, r)
      else let d = str_data buf; p = identifier_len in
        rbind (rd8 d p) (\<lambda>ver. let r = r\<lparr>vr_version := ver\<rparr>; p = p + 1 in
        rbind (DecodeFixed32 d p) (\<lambda>n. let r = r\<lparr>vr_len := htonl n\<rparr> in
        if unat (vr_len r) > length buf then Inr (False, r)
        else let p = p + 4 in
          rbind (vr_field d p) (\<lambda>(user, p). let r = r\<lparr>vr_user_name := user\<rparr> in
          rbind (vr_field d p) (\<lambda>(pass, p). let r = r\<lparr>vr_password := pass\<rparr> in
          rbind (vr_field d p) (\<lambda>(addr, p). let r = r\<lparr>vr_address := addr\<rparr> in
          rbind (DecodeFixed16 d p) (\<lambda>pt. let r = r\<lparr>vr_port := htons pt\<rparr> in
          if length buf > unat (vr_len r) then
            rbind (rdn d (p + 2) (length buf - unat (vr_len r))) (\<lambda>pk.
              Inr (True, r\<lparr>vr_packed_buff := pk\<rparr>))
          else Inr (True, r))))))))"

definition is_v_protocol :: "bytes \<Rightarrow> bool res" where
  "is_v_protocol buf = rbind (rdn buf 0 identifier_len) (\<lambda>s. Inr (s = v_identifier))"

subsection \<open>Lemmas\<close>

lemma v_identifier_facts [simp]:
  "length v_identifier = 10" "takeWhile (\<lambda>c. c \<noteq> 0) v_identifier = v_identifier"
  by (simp_all add: v_identifier_def ascii_def)

lemma vr_field_encoded:
  assumes "p = length pre" and "length s < 2 ^ 31"
  shows "vr_field (EncodeStr (EncodeFixed32 pre (htonl (of_nat (length s)))) s @ rest) p =
    Inr (s, p + 4 + length s)"
proof -
  let ?h = "EncodeFixed32 pre (htonl (of_nat (length s)))"
  have u: "unat (of_nat (length s) :: u32) = length s"
    using assms(2) by (simp add: unat_of_nat)
  have "DecodeFixed32 (EncodeStr ?h s @ rest) p = Inr (htonl (of_nat (length s)))"
    using DecodeFixed32_Encode [OF assms(1), of "htonl (of_nat (length s))" "s @ rest"]
    by (simp add: EncodeStr_def)
  moreover have "DecodeStr (EncodeStr ?h s @ rest) (p + 4) (of_nat (length s)) = Inr s"
    using assms u by (intro DecodeStr_Encode) auto
  ultimately show ?thesis
    by (simp add: vr_field_def Let_def u)
qed

text \<open>The encoding as one list, so that each field is found behind a known prefix.\<close>

definition vr_wire :: "vrequest \<Rightarrow> bytes" where
  "vr_wire r = snd (vr_stream r [])"

lemma vr_stream_append: "snd (vr_stream r buf) = buf @ vr_wire r"
  by (simp add: vr_wire_def vr_stream_def Let_def EncodeCstr_def EncodeFixed8_def EncodeFixed16_def
      EncodeFixed32_def EncodeStr_def)

lemma length_vr_wire:
  "length (vr_wire r) =
     29 + length (vr_user_name r) + length (vr_password r) + length (vr_address r)"
  by (simp add: vr_wire_def vr_stream_def Let_def EncodeCstr_def)

lemma vr_unstream_wire:
  assumes "length (vr_wire r) < 2 ^ 31" and "length rest < 2 ^ 62"
  shows "vr_unstream q (vr_wire r @ rest) =
    Inr (True, r\<lparr>vr_len := of_nat (length (vr_wire r)),
                vr_packed_buff := if rest = [] then vr_packed_buff q else rest\<rparr>)"
proof -
  let ?u = "vr_user_name r" and ?w = "vr_password r" and ?a = "vr_address r"
  define L :: u32 where "L = of_nat (length (vr_wire r))"
  define h where "h = EncodeFixed8 (EncodeCstr [] v_identifier) (vr_version r)"
  define h1 where "h1 = EncodeFixed32 h (htonl L)"
  define h2 where "h2 = EncodeStr (EncodeFixed32 h1 (htonl (of_nat (length ?u)))) ?u"
  define h3 where "h3 = EncodeStr (EncodeFixed32 h2 (htonl (of_nat (length ?w)))) ?w"
  define h4 where "h4 = EncodeStr (EncodeFixed32 h3 (htonl (of_nat (length ?a)))) ?a"
  have "length ?u < 2 ^ 31" and "length ?w < 2 ^ 31" and "length ?a < 2 ^ 31"
    using assms(1) by (simp_all add: length_vr_wire)
  note small = this
  have unL: "unat L = length (vr_wire r)"
    using assms(1) by (simp add: L_def unat_of_nat)
  have wire: "vr_wire r = EncodeFixed16 h4 (htons (vr_port r))"
    by (simp add: vr_wire_def vr_stream_def Let_def h_def h1_def h2_def h3_def h4_def L_def
        EncodeCstr_def identifier_len_def algebra_simps)
  have len: "length h = 11" "length h1 = 15" "length h2 = 19 + length ?u"
    "length h3 = 23 + length ?u + length ?w" "length h4 = 27 + length ?u + length ?w + length ?a"
    by (simp_all add: h_def h1_def h2_def h3_def h4_def EncodeCstr_def)
  let ?d = "vr_wire r @ rest @ [0]"
  have d: "\<exists>t. ?d = h1 @ t" "\<exists>t. ?d = h2 @ t" "\<exists>t. ?d = h3 @ t" "\<exists>t. ?d = h4 @ t" "\<exists>t. ?d = h @ t"
    by (simp_all add: wire h4_def h3_def h2_def h1_def EncodeFixed16_def EncodeFixed32_def EncodeStr_def)
  have ver: "?d ! 10 = vr_version r"
  proof -
    obtain t where "?d = h @ t"
      using d(5) by blast
    then show ?thesis
      by (simp only:) (simp add: h_def EncodeFixed8_def EncodeCstr_def nth_append)
  qed
  have f1: "DecodeFixed32 ?d 11 = Inr (htonl L)"
    using d(1) DecodeFixed32_Encode [of 11 h "htonl L"] len(1) by (auto simp: h1_def)
  have f2: "vr_field ?d 15 = Inr (?u, 19 + length ?u)"
    using d(2) vr_field_encoded [of 15 h1 ?u] len(2) small by (auto simp: h2_def)
  have f3: "vr_field ?d (19 + length ?u) = Inr (?w, 23 + length ?u + length ?w)"
    using d(3) vr_field_encoded [of "19 + length ?u" h2 ?w] len(3) small by (auto simp: h3_def)
  have f4: "vr_field ?d (23 + length ?u + length ?w) = Inr (?a, 27 + length ?u + length ?w + length ?a)"
    using d(4) vr_field_encoded [of "23 + length ?u + length ?w" h3 ?a] len(4) small
    by (auto simp: h4_def)
  have f5: "DecodeFixed16 ?d (27 + length ?u + length ?w + length ?a) = Inr (htons (vr_port r))"
    using DecodeFixed16_Encode [of _ h4] len(5) by (simp add: wire)
  have f6: "rdn ?d (29 + (length ?u + (length ?w + length ?a))) (length rest) = Inr rest"
    using assms(2) by (simp add: rdn_def length_vr_wire string_max_size_def)
  have lens: "length (vr_wire r @ rest) = unat L + length rest" "15 \<le> unat L"
    using unL by (simp_all add: length_vr_wire)
  have rd: "rd8 ?d 10 = Inr (vr_version r)"
    by (simp add: ver rd8_def length_vr_wire)
  have data: "str_data (vr_wire r @ rest) = ?d"
    by (simp add: str_data_def)
  show ?thesis
    unfolding vr_unstream_def data identifier_len_def Let_def
    using lens f6 by (simp add: rd f1 f2 f3 f4 f5 L_def [symmetric])
qed

lemma vr_wire_identifier: "\<exists>t. vr_wire r = v_identifier @ t"
  by (simp add: vr_wire_def vr_stream_def Let_def EncodeCstr_def EncodeFixed8_def EncodeFixed16_def
      EncodeFixed32_def EncodeStr_def)

lemma is_v_protocol_wire: "is_v_protocol (vr_wire r @ rest) = Inr True"
  using vr_wire_identifier [of r] by (auto simp: is_v_protocol_def identifier_len_def)

subsection \<open>Properties\<close>

text \<open>C25: a request that was streamed is recognised by its identifier and read back field by field,
  for strings of any length that fits the 32-bit (signed) lengths; the bytes behind the header become
  the packed buffer, and with no such bytes the packed buffer is left as it was.\<close>

theorem vr_roundtrip:
  assumes "length (snd (vr_stream r [])) < 2 ^ 31" and "length rest < 2 ^ 62"
  shows "is_v_protocol (snd (vr_stream r []) @ rest) = Inr True \<and>
    vr_unstream q (snd (vr_stream r []) @ rest) =
      Inr (True, (fst (vr_stream r []))\<lparr>vr_packed_buff := if rest = [] then vr_packed_buff q else rest\<rparr>)"
proof
  show "is_v_protocol (snd (vr_stream r []) @ rest) = Inr True"
    using is_v_protocol_wire [of r rest] by (simp add: vr_wire_def)
  have "fst (vr_stream r []) = r\<lparr>vr_len := of_nat (length (vr_wire r))\<rparr>"
    unfolding length_vr_wire by (simp add: vr_stream_def Let_def identifier_len_def algebra_simps)
  then show "vr_unstream q (snd (vr_stream r []) @ rest) =
      Inr (True, (fst (vr_stream r []))\<lparr>vr_packed_buff := if rest = [] then vr_packed_buff q else rest\<rparr>)"
    using vr_unstream_wire [of r rest q] assms by (simp add: vr_wire_def)
qed

theorem vr_roundtrip_witness:
  "let r = \<lparr>vr_version = 1, vr_len = 0, vr_user_name = [117], vr_password = [112, 119],
             vr_address = [104, 111], vr_port = 443, vr_packed_buff = []\<rparr>
   in vr_unstream r (snd (vr_stream r []) @ [7, 8]) =
        Inr (True, (fst (vr_stream r []))\<lparr>vr_packed_buff := [7, 8]\<rparr>)"
proof -
  let ?r = "\<lparr>vr_version = 1, vr_len = 0, vr_user_name = [117], vr_password = [112, 119],
             vr_address = [104, 111], vr_port = 443, vr_packed_buff = []\<rparr>"
  have "length (snd (vr_stream ?r [])) < 2 ^ 31"
    using length_vr_wire [of ?r] by (simp add: vr_wire_def)
  from vr_roundtrip [OF this, of "[7, 8]" ?r] show ?thesis
    by (simp add: Let_def)
qed

text \<open>The lengths inside the header are not checked against the buffer. A buffer that holds
  exactly the fixed header passes the only length check and is read beyond its end; a user-name length
  of 2 ^ 31 or more makes the string constructor throw instead of returning false.\<close>

lemma vr_unstream_unchecked_lengths:
  assumes "htonl n \<le> 15" and "\<not> htonl m < 2 ^ 31"
  shows "vr_unstream q (EncodeFixed32 (v_identifier @ [v]) n) = Inl Oob \<and>
    vr_unstream q (EncodeFixed32 (EncodeFixed32 (v_identifier @ [v]) n) m) = Inl Length_error"
proof -
  let ?h = "v_identifier @ [v]"
  have n: "unat (htonl n) \<le> 15"
    using assms(1) by (simp add: word_le_nat_alt)
  have f: "DecodeFixed32 (EncodeFixed32 ?h n @ t) 11 = Inr n" for t
    by (intro DecodeFixed32_Encode) simp
  have m: "DecodeFixed32 (EncodeFixed32 (EncodeFixed32 ?h n) m @ t) 15 = Inr m" for t
    by (intro DecodeFixed32_Encode) simp
  have f': "DecodeFixed32 (EncodeFixed32 (EncodeFixed32 ?h n) m @ t) 11 = Inr n" for t
    using f [of "EncodeFixed32 [] m @ t"] by (simp add: EncodeFixed32_def)
  have v: "rd8 (EncodeFixed32 ?h n @ t) 10 = Inr v"
    "rd8 (EncodeFixed32 (EncodeFixed32 ?h n) m @ t) 10 = Inr v" for t
    by (simp_all add: rd8_def EncodeFixed32_def nth_append)
  have oob: "DecodeFixed32 (EncodeFixed32 ?h n @ [0]) 15 = Inl Oob"
    by (simp add: DecodeFixed32_def rd8_def)
  have "vr_unstream q (EncodeFixed32 ?h n) = Inl Oob"
    using n by (simp add: vr_unstream_def str_data_def identifier_len_def Let_def v f vr_field_def oob)
  moreover have "vr_unstream q (EncodeFixed32 (EncodeFixed32 ?h n) m) = Inl Length_error"
    using n by (simp add: vr_unstream_def str_data_def identifier_len_def Let_def v f' m vr_field_def
        DecodeStr_negative [OF assms(2)])
  ultimately show ?thesis
    by blast
qed

end
