(* ===== verification/WireCodec.thy ===== *)
theory WireCodec
  imports Prelude
begin

text \<open>
  The contract of a self-delimiting message format, as an interface: what a decoder returns on an
  encoded message followed by anything, and, for formats that are read from a byte stream, on a
  proper prefix of a message. The lemmas give what the sessions rely on: messages can be told apart,
  and a receiver that appends what it reads to a buffer and takes at most one message off it per read
  hands out a prefix of the messages that were sent, in order, whatever the segmentation of the stream.
\<close>

subsection \<open>A receiver that takes at most one message per read\<close>

definition take_one :: "(bytes \<Rightarrow> ('r \<times> nat) option) \<Rightarrow> bytes \<Rightarrow> 'r list \<times> bytes" where
  "take_one dec buf = (case dec buf of None \<Rightarrow> ([], buf) | Some (r, n) \<Rightarrow> ([r], drop n buf))"

fun recv_chunks :: "(bytes \<Rightarrow> ('r \<times> nat) option) \<Rightarrow> bytes \<Rightarrow> bytes list \<Rightarrow> 'r list \<times> bytes" where
  "recv_chunks dec buf [] = ([], buf)"
| "recv_chunks dec buf (c # cs) =
     (let (out, buf) = take_one dec (buf @ c); (outs, buf) = recv_chunks dec buf cs
      in (out @ outs, buf))"

subsection \<open>Interfaces\<close>

locale wire_codec =
  fixes valid :: "'m \<Rightarrow> bool"
    and enc :: "'m \<Rightarrow> bytes"
    and view :: "'m \<Rightarrow> 'r"
    and dec :: "bytes \<Rightarrow> ('r \<times> nat) option"
  assumes dec_enc: "valid m \<Longrightarrow> dec (enc m @ rest) = Some (view m, length (enc m))"
begin

lemma view_prefix:
  "valid m \<Longrightarrow> valid m' \<Longrightarrow> enc m @ r = enc m' @ r' \<Longrightarrow>
   view m = view m' \<and> enc m = enc m' \<and> r = r'"
  using dec_enc [of m r] dec_enc [of m' r'] by (auto simp: append_eq_append_conv)

lemma take_one_message: "valid m \<Longrightarrow> take_one dec (enc m @ rest) = ([view m], rest)"
  by (simp add: take_one_def dec_enc)

end

locale stream_codec = wire_codec +
  assumes dec_nil: "dec [] = None"
    and dec_short: "valid m \<Longrightarrow> enc m = p @ q \<Longrightarrow> q \<noteq> [] \<Longrightarrow> dec p = None"
begin

text \<open>Of a buffer that starts a sequence of messages, one step takes the first message off if it
  is complete, and nothing otherwise.\<close>

lemma take_one_stream:
  assumes "list_all valid ms" and "buf @ future = concat (map enc ms)"
  obtains k where "k \<le> length ms" and "fst (take_one dec buf) = map view (take k ms)"
    and "snd (take_one dec buf) @ future = concat (map enc (drop k ms))"
proof (cases ms)
  case Nil
  then show ?thesis
    using that [of 0] assms(2) by (simp add: take_one_def dec_nil)
next
  case (Cons m ms')
  then have v: "valid m" and eq: "buf @ future = enc m @ concat (map enc ms')"
    using assms by auto
  show ?thesis
  proof (cases "length (enc m) \<le> length buf")
    case True
    then have t: "take (length (enc m)) buf = enc m"
      "drop (length (enc m)) buf @ future = concat (map enc ms')"
      using arg_cong [OF eq, of "take (length (enc m))"] arg_cong [OF eq, of "drop (length (enc m))"]
      by simp_all
    then have "buf = enc m @ drop (length (enc m)) buf"
      by (metis append_take_drop_id)
    then obtain r where "buf = enc m @ r" "r @ future = concat (map enc ms')"
      using t(2) by blast
    then show ?thesis
      using that [of 1] Cons take_one_message [OF v] by simp
  next
    case False
    then have "take (length buf) (enc m) = buf"
      using arg_cong [OF eq, of "take (length buf)"] by simp
    then have "enc m = buf @ drop (length buf) (enc m)"
      by (metis append_take_drop_id)
    moreover have "drop (length buf) (enc m) \<noteq> []"
      using False by simp
    ultimately have "dec buf = None"
      using dec_short v by blast
    then show ?thesis
      using that [of 0] assms(2) by (simp add: take_one_def)
  qed
qed

lemma recv_chunks_prefix:
  assumes "list_all valid ms" and "buf @ concat cs @ future = concat (map enc ms)"
  shows "\<exists>k \<le> length ms. fst (recv_chunks dec buf cs) = map view (take k ms) \<and>
    snd (recv_chunks dec buf cs) @ future = concat (map enc (drop k ms))"
  using assms
proof (induction cs arbitrary: buf ms)
  case Nil
  then show ?case
    by (intro exI [of _ 0]) simp
next
  case (Cons c cs)
  obtain out buf' where t: "take_one dec (buf @ c) = (out, buf')"
    by (cases "take_one dec (buf @ c)")
  obtain k where k: "k \<le> length ms" "out = map view (take k ms)"
    "buf' @ concat cs @ future = concat (map enc (drop k ms))"
    using take_one_stream [of ms "buf @ c" "concat cs @ future"] Cons.prems t by auto
  moreover have "list_all valid (drop k ms)"
    using Cons.prems(1) by (auto simp: list_all_iff dest: in_set_dropD)
  ultimately obtain j where j: "j \<le> length (drop k ms)"
    "fst (recv_chunks dec buf' cs) = map view (take j (drop k ms))"
    "snd (recv_chunks dec buf' cs) @ future = concat (map enc (drop j (drop k ms)))"
    using Cons.IH by blast
  then show ?case
    using k t by (intro exI [of _ "k + j"]) (auto simp: take_add add.commute [of j k] case_prod_beta Let_def)
qed

end

end
