(* ===== verification/Trojan.thy ===== *)
theory Trojan
  imports Endpoint WireCodec
begin

text \<open>
  \<^verbatim>\<open>Protocol/trojan/{TrojanReq,UDPPacket}.{h,cpp}\<close>: the SOCKS5-style address, the Trojan request
  that opens a session, and the framing of UDP datagrams inside the TLS stream. All three parsers
  index a \<open>std::string\<close>; an index beyond \<open>size()\<close> is \<open>Oob\<close>, and \<open>substr\<close> may throw.
\<close>

subsection \<open>SOCKS5Address\<close>

datatype address_type = IPv4 | DOMAINNAME | IPv6

record socks5_address =
  sa_type :: address_type
  sa_address :: bytes
  sa_port :: u16

definition address_type_of :: "byte \<Rightarrow> address_type option" where
  "address_type_of t =
     (if t = 1 then Some IPv4 else if t = 3 then Some DOMAINNAME else if t = 4 then Some IPv6 else None)"

text \<open>\<open>data[i], data[i + 1], ...\<close>: \<open>n\<close> indexed reads.\<close>

fun str_reads :: "bytes \<Rightarrow> nat \<Rightarrow> nat \<Rightarrow> bytes res" where
  "str_reads s i 0 = Inr []"
| "str_reads s i (Suc n) = rbind (str_at s i) (\<lambda>x. rbind (str_reads s (i + 1) n) (\<lambda>xs. Inr (x # xs)))"

text \<open>The dotted decimal text of four bytes, and the \<open>sprintf\<close> of sixteen bytes as hex groups.\<close>

fun dotted :: "bytes \<Rightarrow> bytes" where
  "dotted [] = []"
| "dotted [x] = to_dec (unat x)"
| "dotted (x # xs) = to_dec (unat x) @ ascii ''.'' @ dotted xs"

fun hex_groups :: "bytes \<Rightarrow> bytes" where
  "hex_groups [a, b] = hex2 a @ hex2 b"
| "hex_groups (a # b # xs) = hex2 a @ hex2 b @ ascii '':'' @ hex_groups xs"
| "hex_groups _ = []"

definition read_port :: "bytes \<Rightarrow> nat \<Rightarrow> u16 res" where
  "read_port s i = rbind (str_at s i) (\<lambda>x. rbind (str_at s (i + 1)) (\<lambda>y. Inr (be16 x y)))"

definition sa_parse ::
    "socks5_address \<Rightarrow> bytes \<Rightarrow> nat \<Rightarrow> (bool \<times> socks5_address \<times> nat) res" where
  "sa_parse a data address_len =
     (if length data = 0 then Inr (False, a, address_len)
      else rbind (str_at data 0) (\<lambda>t. case address_type_of t of
        None \<Rightarrow> Inr (False, a, address_len)
      | Some ty \<Rightarrow> let a = a\<lparr>sa_type := ty\<rparr> in
        (case ty of
          IPv4 \<Rightarrow>
            if length data > 4 + 2 then
              rbind (str_reads data 1 4) (\<lambda>ip. rbind (read_port data 5) (\<lambda>pt.
                Inr (True, a\<lparr>sa_address := dotted ip, sa_port := pt\<rparr>, 1 + 4 + 2)))
            else Inr (False, a, address_len)
        | DOMAINNAME \<Rightarrow>
            rbind (str_at data 1) (\<lambda>l. let domain_len = unat l in
              if domain_len = 0 then Inr (False, a, address_len)
              else if length data > 1 + domain_len + 2 then
                rbind (substr data 2 domain_len) (\<lambda>d. rbind (read_port data (domain_len + 2)) (\<lambda>pt.
                  Inr (True, a\<lparr>sa_address := d, sa_port := pt\<rparr>, 1 + 1 + domain_len + 2)))
              else Inr (False, a, address_len))
        | IPv6 \<Rightarrow>
            if length data > 16 + 2 then
              rbind (str_reads data 1 16) (\<lambda>ip. rbind (read_port data 17) (\<lambda>pt.
                Inr (True, a\<lparr>sa_address := hex_groups ip, sa_port := pt\<rparr>, 1 + 16 + 2)))
            else Inr (False, a, address_len))))"

definition sa_generate :: "endpoint \<Rightarrow> bytes" where
  "sa_generate ep =
     (if is_unspecified (ep_addr ep) then [1, 0, 0, 0, 0, 0, 0]
      else
        (if is_v4 (ep_addr ep) then [1] @ addr_bytes (ep_addr ep) else []) @
        (if \<not> is_v4 (ep_addr ep) then [4] @ addr_bytes (ep_addr ep) else []) @
        [hi8 (ep_port ep)] @ [lo8 (ep_port ep)])"

subsection \<open>TrojanReq\<close>

datatype trojan_cmd = T_CONNECT | T_UDP_ASSOCIATE

record trojan_req =
  tr_command :: trojan_cmd
  tr_password :: bytes
  tr_address :: socks5_address
  tr_payload :: bytes

definition trojan_cmd_of :: "byte \<Rightarrow> trojan_cmd option" where
  "trojan_cmd_of c = (if c = 1 then Some T_CONNECT else if c = 3 then Some T_UDP_ASSOCIATE else None)"

text \<open>The result is \<open>int\<close>: \<open>-1\<close>, or \<open>data.length()\<close> converted to 32 signed bits.\<close>

definition tr_parse :: "trojan_req \<Rightarrow> bytes \<Rightarrow> (int \<times> trojan_req) res" where
  "tr_parse r data =
     (case find_str crlf data of
        None \<Rightarrow> Inr (-1, r)
      | Some first \<Rightarrow>
          rbind (substr data 0 first) (\<lambda>pw. rbind (substr_from data (first + 2)) (\<lambda>pl.
            let r = r\<lparr>tr_password := pw, tr_payload := pl\<rparr> in
            if length pl = 0 then Inr (-1, r)
            else rbind (str_at pl 0) (\<lambda>c. case trojan_cmd_of c of
              None \<Rightarrow> Inr (-1, r)
            | Some cmd \<Rightarrow> let r = r\<lparr>tr_command := cmd\<rparr> in
                rbind (substr_from pl 1) (\<lambda>ad.
                rbind (sa_parse (tr_address r) ad 0) (\<lambda>(is_addr_valid, a, address_len).
                  let r = r\<lparr>tr_address := a\<rparr> in
                  if \<not> is_addr_valid \<or> length pl < address_len + 3 then Inr (-1, r)
                  else rbind (substr pl (address_len + 1) 2) (\<lambda>e.
                    if e \<noteq> crlf then Inr (-1, r)
                    else rbind (substr_from pl (address_len + 3)) (\<lambda>rest.
                      Inr (sint (of_nat (length data) :: u32), r\<lparr>tr_payload := rest\<rparr>)))))))))"

definition tr_generate :: "bytes \<Rightarrow> bytes \<Rightarrow> u16 \<Rightarrow> bool \<Rightarrow> bytes" where
  "tr_generate password domainname port tcp =
     password @ crlf @ [if tcp then 1 else 3] @ [3] @ [of_nat (length domainname)] @ domainname @
     [hi8 port] @ [lo8 port] @ crlf"

subsection \<open>UDPPacket\<close>

record udp_packet =
  up_address :: socks5_address
  up_length :: u16
  up_payload :: bytes

definition up_parse :: "udp_packet \<Rightarrow> bytes \<Rightarrow> nat \<Rightarrow> (bool \<times> udp_packet \<times> nat) res" where
  "up_parse u data udp_packet_len =
     (if data = [] then Inr (False, u, udp_packet_len)
      else rbind (sa_parse (up_address u) data 0) (\<lambda>(is_addr_valid, a, address_len).
        let u = u\<lparr>up_address := a\<rparr> in
        if \<not> is_addr_valid \<or> length data < address_len + 2 then Inr (False, u, udp_packet_len)
        else rbind (read_port data address_len) (\<lambda>l.
          let u = u\<lparr>up_length := l\<rparr>; n = unat l in
          if length data < address_len + 4 + n then Inr (False, u, udp_packet_len)
          else rbind (substr data (address_len + 2) 2) (\<lambda>e.
            if e \<noteq> crlf then Inr (False, u, udp_packet_len)
            else rbind (substr data (address_len + 4) n) (\<lambda>pl.
              Inr (True, u\<lparr>up_payload := pl\<rparr>, address_len + 4 + n))))))"

text \<open>The two length bytes are taken from the \<open>size_t\<close> length, high byte truncated.\<close>

definition len_bytes :: "nat \<Rightarrow> bytes" where
  "len_bytes n = [of_nat (n div 2 ^ 8)] @ [of_nat (n mod 2 ^ 8)]"

definition up_generate_ep :: "endpoint \<Rightarrow> bytes \<Rightarrow> bytes" where
  "up_generate_ep ep payload = sa_generate ep @ len_bytes (length payload) @ crlf @ payload"

definition up_generate_domain :: "bytes \<Rightarrow> u16 \<Rightarrow> bytes \<Rightarrow> bytes" where
  "up_generate_domain domainname port payload =
     [3] @ [of_nat (length domainname)] @ domainname @ [hi8 port] @ [lo8 port] @
     len_bytes (length payload) @ crlf @ payload"

subsection \<open>Reads\<close>

lemma str_reads_in [simp]: "i + n \<le> length s \<Longrightarrow> str_reads s i n = Inr (take n (drop i s))"
proof (induction n arbitrary: i)
  case (Suc n)
  then have "str_reads s (i + 1) n = Inr (take n (drop (i + 1) s))" and "i < length s"
    by simp_all
  then show ?case
    by (simp add: Cons_nth_drop_Suc [symmetric])
qed simp

lemma read_port_in [simp]: "i + 1 < length s \<Longrightarrow> read_port s i = Inr (be16 (s ! i) (s ! (i + 1)))"
  by (simp add: read_port_def)

lemma len_bytes_be16: "n < 2 ^ 16 \<Longrightarrow> \<exists>x y. len_bytes n = [x, y] \<and> unat (be16 x y) = n"
proof -
  assume n: "n < 2 ^ 16"
  have d: "n div 2 ^ 8 = drop_bit 8 n"
    by (simp add: drop_bit_eq_div)
  have "hi8 (of_nat n) = of_nat (n div 2 ^ 8)"
    unfolding d
    by (rule bit_word_eqI) (auto simp: hi8_def bit_simps)
  moreover have m: "n mod 2 ^ 8 = take_bit 8 n"
    by (simp add: take_bit_eq_mod)
  have "lo8 (of_nat n) = of_nat (n mod 2 ^ 8)"
    unfolding m
    by (rule bit_word_eqI) (auto simp: lo8_ucast bit_simps)
  ultimately have "len_bytes n = [hi8 (of_nat n), lo8 (of_nat n)]"
    by (simp add: len_bytes_def)
  then show ?thesis
    using n by (auto simp: unat_of_nat)
qed

subsection \<open>The address\<close>

lemma address_type_of_simps [simp]:
  "address_type_of 1 = Some IPv4" "address_type_of 3 = Some DOMAINNAME" "address_type_of 4 = Some IPv6"
  by (simp_all add: address_type_of_def)

text \<open>Length of an accepted address, as a function of its first two bytes.\<close>

definition sa_len :: "bytes \<Rightarrow> nat" where
  "sa_len data = (if data ! 0 = 1 then 7 else if data ! 0 = 3 then unat (data ! 1) + 4 else 19)"

definition sa_valid :: "bytes \<Rightarrow> bool" where
  "sa_valid data \<longleftrightarrow> data \<noteq> [] \<and> (data ! 0 = 1 \<or> data ! 0 = 3 \<and> 1 < length data \<and> data ! 1 \<noteq> 0 \<or> data ! 0 = 4) \<and>
     sa_len data \<le> length data"

text \<open>The parser never faults, and accepts exactly the complete addresses.\<close>

lemma sa_parse_total:
  "\<exists>a' n'. sa_parse a data n = Inr (sa_valid data, a', n') \<and> (sa_valid data \<longrightarrow> n' = sa_len data)"
proof (cases "data = []")
  case False
  then consider "data ! 0 = 1" | "data ! 0 = 3" "length data = 1" | "data ! 0 = 3" "1 < length data"
    | "data ! 0 = 4" | "address_type_of (data ! 0) = None" "data ! 0 \<notin> {1, 3, 4}"
    by (cases data) (auto simp: address_type_of_def)
  then show ?thesis
  proof cases
    case 3
    have z: "unat (data ! 1) = 0 \<longleftrightarrow> data ! 1 = 0"
      by (simp add: unat_eq_0)
    show ?thesis
      using 3 False z by (auto simp: sa_parse_def sa_valid_def sa_len_def Let_def)
  qed (use False in \<open>auto simp: sa_parse_def sa_valid_def sa_len_def Let_def str_at_def\<close>)
qed (simp add: sa_parse_def sa_valid_def)

text \<open>An accepted address is read the same way with more bytes behind it.\<close>

lemma sa_parse_append:
  assumes "sa_valid p"
  shows "sa_parse a (p @ q) n = sa_parse a p n"
proof -
  consider "p ! 0 = 1" | "p ! 0 = 3" "1 < length p" | "p ! 0 = 4"
    using assms by (auto simp: sa_valid_def)
  then show ?thesis
    using assms by cases (auto simp: sa_valid_def sa_len_def sa_parse_def Let_def nth_append)
qed

definition dom_addr :: "bytes \<Rightarrow> u16 \<Rightarrow> bytes" where
  "dom_addr d p = [3] @ [of_nat (length d)] @ d @ [hi8 p] @ [lo8 p]"

definition dom_ok :: "bytes \<Rightarrow> bool" where
  "dom_ok d \<longleftrightarrow> 0 < length d \<and> length d < 256"

lemma sa_parse_dom:
  assumes "dom_ok d"
  shows "sa_parse a (dom_addr d p @ rest) n =
    Inr (True, \<lparr>sa_type = DOMAINNAME, sa_address = d, sa_port = p\<rparr>, length d + 4)"
proof -
  have "unat (of_nat (length d) :: byte) = length d"
    using assms byte_of_nat [OF refl, of "length d"] by (simp add: dom_ok_def)
  then show ?thesis
    using assms by (simp add: dom_ok_def sa_parse_def dom_addr_def Let_def nth_append)
qed

text \<open>The text form the parser gives to an IP address.\<close>

fun addr_text :: "ip_addr \<Rightarrow> bytes" where
  "addr_text (Ip4 a b c d) = dotted [a, b, c, d]"
| "addr_text (Ip6 bs) = hex_groups bs"

definition ep_view :: "endpoint \<Rightarrow> socks5_address" where
  "ep_view ep =
     (if is_unspecified (ep_addr ep) then \<lparr>sa_type = IPv4, sa_address = dotted [0, 0, 0, 0], sa_port = 0\<rparr>
      else \<lparr>sa_type = if is_v4 (ep_addr ep) then IPv4 else IPv6,
            sa_address = addr_text (ep_addr ep), sa_port = ep_port ep\<rparr>)"

lemma sa_parse_ep:
  assumes "wf_ep ep"
  shows "sa_parse a (sa_generate ep @ rest) n = Inr (True, ep_view ep, length (sa_generate ep))"
proof -
  have z: "be16 0 0 = 0"
    by (simp add: be16_def)
  consider "is_unspecified (ep_addr ep)"
    | b1 b2 b3 b4 where "\<not> is_unspecified (ep_addr ep)" "ep_addr ep = Ip4 b1 b2 b3 b4"
    | bs where "\<not> is_unspecified (ep_addr ep)" "ep_addr ep = Ip6 bs" "length bs = 16"
    using assms by (cases "ep_addr ep") (auto simp: wf_ep_def)
  then show ?thesis
    by cases (auto simp: sa_generate_def sa_parse_def ep_view_def Let_def nth_append z)
qed

subsection \<open>The UDP packet\<close>

text \<open>The parser on a buffer whose address is complete.\<close>

lemma up_parse_body:
  assumes "sa_parse (up_address u) data 0 = Inr (True, a, al)" and "al + 2 \<le> length data"
  shows "up_parse u data n =
    (let l = be16 (data ! al) (data ! (al + 1)); v = u\<lparr>up_address := a, up_length := l\<rparr> in
     if al + 4 + unat l \<le> length data \<and> take 2 (drop (al + 2) data) = crlf
     then Inr (True, v\<lparr>up_payload := take (unat l) (drop (al + 4) data)\<rparr>, al + 4 + unat l)
     else Inr (False, v, n))"
proof -
  have "data \<noteq> []"
    using assms(2) by auto
  then show ?thesis
    using assms by (simp add: up_parse_def Let_def)
qed

lemma up_parse_no_fault: "\<exists>ok v m. up_parse u data n = Inr (ok, v, m)"
proof -
  obtain a al where sa: "sa_parse (up_address u) data 0 = Inr (sa_valid data, a, al)"
    "sa_valid data \<longrightarrow> al = sa_len data"
    using sa_parse_total by blast
  show ?thesis
  proof (cases "sa_valid data \<and> al + 2 \<le> length data")
    case True
    then show ?thesis
      using sa up_parse_body [of u data a al n] by (auto simp: Let_def)
  next
    case False
    then show ?thesis
      using sa by (auto simp: up_parse_def Let_def)
  qed
qed

lemma up_parse_framed:
  assumes "\<And>rest. sa_parse (up_address u) (ad @ rest) 0 = Inr (True, a, length ad)"
    and "length pl < 2 ^ 16"
  shows "up_parse u (ad @ len_bytes (length pl) @ crlf @ pl @ rest) n =
    Inr (True, \<lparr>up_address = a, up_length = of_nat (length pl), up_payload = pl\<rparr>,
         length (ad @ len_bytes (length pl) @ crlf @ pl))"
proof -
  obtain x y where l: "len_bytes (length pl) = [x, y]" "unat (be16 x y) = length pl"
    using len_bytes_be16 [OF assms(2)] by blast
  then have "be16 x y = of_nat (length pl)"
    by (metis of_nat_unat ucast_id)
  with l show ?thesis
    using up_parse_body [OF assms(1), of "len_bytes (length pl) @ crlf @ pl @ rest" n]
    by (simp add: Let_def nth_append crlf_def)
qed

text \<open>As a decoder: the packet and the bytes it takes.\<close>

definition up_dec :: "udp_packet \<Rightarrow> bytes \<Rightarrow> (udp_packet \<times> nat) option" where
  "up_dec u data = (case up_parse u data 0 of
     Inr (True, v, n) \<Rightarrow> Some (v, n)
   | _ \<Rightarrow> None)"

type_synonym dgram = "bytes \<times> u16 \<times> bytes"

fun dgram_ok :: "dgram \<Rightarrow> bool" where
  "dgram_ok (d, p, pl) = (dom_ok d \<and> length pl < 2 ^ 16)"

fun dgram_enc :: "dgram \<Rightarrow> bytes" where
  "dgram_enc (d, p, pl) = up_generate_domain d p pl"

fun dgram_view :: "dgram \<Rightarrow> udp_packet" where
  "dgram_view (d, p, pl) =
     \<lparr>up_address = \<lparr>sa_type = DOMAINNAME, sa_address = d, sa_port = p\<rparr>,
      up_length = of_nat (length pl), up_payload = pl\<rparr>"

lemma up_generate_domain_split:
  "up_generate_domain d p pl = dom_addr d p @ len_bytes (length pl) @ crlf @ pl"
  by (simp add: up_generate_domain_def dom_addr_def)

lemma length_dom_addr [simp]: "length (dom_addr d p) = length d + 4"
  by (simp add: dom_addr_def)

lemma length_len_bytes [simp]: "length (len_bytes n) = 2"
  by (simp add: len_bytes_def)

lemma up_parse_generated_domain:
  assumes "dom_ok d" and "length pl < 2 ^ 16"
  shows "up_parse u (up_generate_domain d p pl @ rest) n =
    Inr (True, dgram_view (d, p, pl), length (up_generate_domain d p pl))"
  unfolding up_generate_domain_split
  using up_parse_framed [of u "dom_addr d p" _ pl rest n, OF _ assms(2)] sa_parse_dom [OF assms(1)]
  by simp

lemma up_parse_generated_ep:
  assumes "wf_ep ep" and "length pl < 2 ^ 16"
  shows "up_parse u (up_generate_ep ep pl @ rest) n =
    Inr (True, \<lparr>up_address = ep_view ep, up_length = of_nat (length pl), up_payload = pl\<rparr>,
         length (up_generate_ep ep pl))"
  unfolding up_generate_ep_def
  using up_parse_framed [of u "sa_generate ep" _ pl rest n, OF _ assms(2)] sa_parse_ep [OF assms(1)]
  by simp

text \<open>A packet that was accepted is accepted the same way with more bytes behind it, so one that has
  not arrived completely is not accepted.\<close>

lemma up_parse_append:
  assumes "up_parse u x n = Inr (True, v, m)"
  shows "up_parse u (x @ y) n = Inr (True, v, m) \<and> m \<le> length x"
proof -
  obtain a al where sa: "sa_parse (up_address u) x 0 = Inr (sa_valid x, a, al)"
    "sa_valid x \<longrightarrow> al = sa_len x"
    using sa_parse_total by blast
  have v: "sa_valid x" and al: "al + 2 \<le> length x"
    using assms sa by (auto simp: up_parse_def Let_def split: if_splits)
  then have b: "up_parse u x n = (let l = be16 (x ! al) (x ! (al + 1)); v = u\<lparr>up_address := a, up_length := l\<rparr> in
     if al + 4 + unat l \<le> length x \<and> take 2 (drop (al + 2) x) = crlf
     then Inr (True, v\<lparr>up_payload := take (unat l) (drop (al + 4) x)\<rparr>, al + 4 + unat l)
     else Inr (False, v, n))"
    using sa by (intro up_parse_body) auto
  have "sa_parse (up_address u) (x @ y) 0 = Inr (True, a, al)"
    using sa v by (simp add: sa_parse_append)
  from up_parse_body [OF this, of n] assms b al show ?thesis
    by (auto simp: Let_def nth_append split: if_splits)
qed

lemma up_parse_short:
  assumes "dom_ok d" and "length pl < 2 ^ 16"
    and "up_generate_domain d p pl = x @ y" and "y \<noteq> []"
  shows "\<exists>v m. up_parse u x n = Inr (False, v, m)"
proof -
  obtain ok v m where r: "up_parse u x n = Inr (ok, v, m)"
    using up_parse_no_fault by blast
  have "\<not> ok"
  proof
    assume ok
    then have "up_parse u (x @ y) n = Inr (True, v, m) \<and> m \<le> length x"
      using up_parse_append [of u x n v m y] r by simp
    moreover have "up_parse u (x @ y) n =
        Inr (True, dgram_view (d, p, pl), length (up_generate_domain d p pl))"
      using up_parse_generated_domain [OF assms(1,2), of u p "[]" n] assms(3) by simp
    ultimately show False
      using assms(3,4) by (cases y) auto
  qed
  then show ?thesis
    using r by simp
qed

interpretation trojan_udp: stream_codec dgram_ok dgram_enc dgram_view "up_dec u" for u
proof unfold_locales
  fix m rest
  assume "dgram_ok m"
  then show "up_dec u (dgram_enc m @ rest) = Some (dgram_view m, length (dgram_enc m))"
    by (cases m) (simp add: up_dec_def up_parse_generated_domain del: dgram_view.simps)
next
  show "up_dec u [] = None"
    by (simp add: up_dec_def up_parse_def)
next
  fix m p q
  assume "dgram_ok m" "dgram_enc m = p @ q" "q \<noteq> []"
  then obtain v k where "up_parse u p 0 = Inr (False, v, k)"
    by (cases m) (use up_parse_short in fastforce)
  then show "up_dec u p = None"
    by (simp add: up_dec_def)
qed

subsection \<open>The request\<close>

lemma trojan_cmd_of_simps [simp]:
  "trojan_cmd_of 1 = Some T_CONNECT" "trojan_cmd_of 3 = Some T_UDP_ASSOCIATE"
  by (simp_all add: trojan_cmd_of_def)

text \<open>The parser once the first CRLF is found.\<close>

lemma tr_parse_split:
  assumes "find_str crlf pw = None"
  shows "tr_parse r (pw @ crlf @ pl) =
    (let r = r\<lparr>tr_password := pw, tr_payload := pl\<rparr> in
     if pl = [] then Inr (-1, r)
     else case trojan_cmd_of (hd pl) of
       None \<Rightarrow> Inr (-1, r)
     | Some cmd \<Rightarrow> let r = r\<lparr>tr_command := cmd\<rparr> in
         rbind (sa_parse (tr_address r) (tl pl) 0) (\<lambda>(ok, a, al).
           let r = r\<lparr>tr_address := a\<rparr> in
           if ok \<and> al + 3 \<le> length pl \<and> take 2 (drop (al + 1) pl) = crlf
           then Inr (sint (of_nat (length (pw @ crlf @ pl)) :: u32), r\<lparr>tr_payload := drop (al + 3) pl\<rparr>)
           else Inr (-1, r)))"
proof -
  have d: "drop (Suc (Suc (length pw))) (pw @ crlf @ pl) = pl"
    by (simp add: crlf_def)
  show ?thesis
    using find_str_crlf_append [OF assms, of pl]
    by (cases pl)
      (auto simp: tr_parse_def d Let_def not_less intro!: arg_cong [of _ _ "rbind _"] split: option.splits)
qed

lemma tr_parse_generated:
  assumes "find_str crlf pw = None" and "dom_ok d"
  shows "tr_parse r (tr_generate pw d p tcp @ body) =
    Inr (sint (of_nat (length (tr_generate pw d p tcp @ body)) :: u32),
         \<lparr>tr_command = if tcp then T_CONNECT else T_UDP_ASSOCIATE, tr_password = pw,
          tr_address = \<lparr>sa_type = DOMAINNAME, sa_address = d, sa_port = p\<rparr>, tr_payload = body\<rparr>)"
proof -
  let ?c = "if tcp then 1 else 3 :: byte"
  have g: "tr_generate pw d p tcp @ body = pw @ crlf @ (?c # dom_addr d p @ crlf @ body)"
    by (simp add: tr_generate_def dom_addr_def)
  have dr: "drop (7 + length d) (c # dom_addr d p @ crlf @ body) = body" for c
    by (simp add: dom_addr_def crlf_def drop_Cons')
  show ?thesis
    unfolding g tr_parse_split [OF assms(1)]
    using dr sa_parse_dom [OF assms(2), of _ p "crlf @ body" 0]
    by (cases tcp) (simp_all add: Let_def)
qed

lemma sa_valid_take: "sa_valid data \<Longrightarrow> sa_valid (take (sa_len data) data) \<and> sa_len (take (sa_len data) data) = sa_len data"
  by (cases data) (auto simp: sa_valid_def sa_len_def nth_take)

lemma tr_parse_cases:
  obtains (no_crlf) "find_str crlf data = None" "tr_parse r data = Inr (-1, r)"
  | (split) pw pl where "data = pw @ crlf @ pl" "find_str crlf pw = None"
  using find_str_Some_split [of crlf data] find_str_crlf_take [of data]
  by (cases "find_str crlf data") (auto simp: tr_parse_def)

lemma tr_parse_accepts:
  assumes "find_str crlf pw = None" and "tr_parse r (pw @ crlf @ pl) = Inr (k, q)" and "k \<noteq> -1"
  shows "\<exists>c ad. pl = [c] @ ad @ crlf @ tr_payload q \<and> tr_password q = pw \<and>
    trojan_cmd_of c = Some (tr_command q) \<and>
    sa_parse (tr_address r) ad 0 = Inr (True, tr_address q, length ad)"
proof -
  obtain c t where pl: "pl = c # t"
    using assms tr_parse_split [OF assms(1), of r "[]"] by (cases pl) (auto simp: Let_def)
  obtain cmd where c: "trojan_cmd_of c = Some cmd"
    using assms pl by (cases "trojan_cmd_of c") (auto simp: tr_parse_split Let_def)
  obtain a al where sa: "sa_parse (tr_address r) t 0 = Inr (sa_valid t, a, al)"
    "sa_valid t \<longrightarrow> al = sa_len t"
    using sa_parse_total by blast
  have dr: "drop (n + 3) (x # y) = drop (n + 2) y" for n x and y :: bytes
    by (simp add: eval_nat_numeral)
  have v: "sa_valid t" and len: "al + 3 \<le> length pl" and e: "take 2 (drop al t) = crlf"
    and q: "q = r\<lparr>tr_password := pw, tr_command := cmd, tr_address := a, tr_payload := drop (al + 2) t\<rparr>"
    using assms pl c sa by (auto simp: tr_parse_split dr Let_def split: if_splits)
  let ?ad = "take al t"
  have al: "al = sa_len t" "length ?ad = al"
    using sa v len pl by simp_all
  have "sa_parse (tr_address r) (?ad @ drop al t) 0 = sa_parse (tr_address r) ?ad 0"
    using sa_valid_take [OF v] al by (intro sa_parse_append) simp
  then have "sa_parse (tr_address r) ?ad 0 = Inr (True, a, al)"
    using sa v by simp
  moreover have "t = ?ad @ crlf @ drop (al + 2) t"
    using e append_take_drop_id [of 2 "drop al t"] by (simp add: add.commute)
  ultimately show ?thesis
    using pl c q al by (intro exI [of _ c] exI [of _ ?ad]) simp
qed

lemma tr_parse_no_fault: "\<exists>k q. tr_parse r data = Inr (k, q)"
proof (cases data r rule: tr_parse_cases)
  case (split pw pl)
  have "\<exists>a al. sa_parse x y 0 = Inr (sa_valid y, a, al)" for x y
    using sa_parse_total by blast
  then show ?thesis
    unfolding split(1) tr_parse_split [OF split(2)]
    by (auto simp: Let_def rbind_def split: option.split sum.split) (metis sum.inject(2) sum.distinct(1) prod_cases3)+
qed simp

subsection \<open>Properties\<close>

text \<open>C24: the request the client generates for a password without CRLF and a domain of 1 to 255 bytes
  is parsed by the server to that password, command, domain, port, and to the bytes that follow as
  payload.\<close>

theorem tr_roundtrip:
  assumes "find_str crlf pw = None" and "0 < length d" and "length d < 256"
  shows "tr_parse r (tr_generate pw d p tcp @ body) =
    Inr (sint (of_nat (length (tr_generate pw d p tcp @ body)) :: u32),
         \<lparr>tr_command = if tcp then T_CONNECT else T_UDP_ASSOCIATE, tr_password = pw,
          tr_address = \<lparr>sa_type = DOMAINNAME, sa_address = d, sa_port = p\<rparr>, tr_payload = body\<rparr>)"
  using assms by (intro tr_parse_generated) (simp_all add: dom_ok_def)

theorem tr_roundtrip_witness:
  "let a = \<lparr>sa_type = IPv4, sa_address = [], sa_port = 0\<rparr>;
       r = \<lparr>tr_command = T_CONNECT, tr_password = [], tr_address = a, tr_payload = []\<rparr>
   in tr_parse r (tr_generate [112, 119] [120, 46, 121] 443 True @ [1, 2]) =
     Inr (16, \<lparr>tr_command = T_CONNECT, tr_password = [112, 119],
          tr_address = \<lparr>sa_type = DOMAINNAME, sa_address = [120, 46, 121], sa_port = 443\<rparr>,
          tr_payload = [1, 2]\<rparr>)"
proof -
  have "find_str crlf [112, 119] = None"
    by (simp add: crlf_def)
  from tr_roundtrip [OF this, of "[120, 46, 121]" _ 443 True "[1, 2]"] show ?thesis
    by (simp add: Let_def tr_generate_def)
qed

text \<open>A request the server accepts has exactly the layout of the protocol: the password is
  everything before the first CRLF, then a known command, a complete address, CRLF, and the payload;
  nothing is skipped.\<close>

theorem tr_parse_sound:
  assumes "tr_parse r data = Inr (k, q)" and "k \<noteq> -1"
  shows "find_str crlf (tr_password q) = None \<and>
    (\<exists>c ad. data = tr_password q @ crlf @ [c] @ ad @ crlf @ tr_payload q \<and>
       trojan_cmd_of c = Some (tr_command q) \<and>
       sa_parse (tr_address r) ad 0 = Inr (True, tr_address q, length ad))"
proof (cases data r rule: tr_parse_cases)
  case no_crlf
  then show ?thesis
    using assms by simp
next
  case (split pw pl)
  then show ?thesis
    using tr_parse_accepts [of pw r pl k q] assms by auto
qed

theorem tr_parse_sound_witness:
  "let a = \<lparr>sa_type = IPv4, sa_address = [], sa_port = 0\<rparr>;
       q = \<lparr>tr_command = T_CONNECT, tr_password = [112], 
            tr_address = \<lparr>sa_type = DOMAINNAME, sa_address = [120], sa_port = 443\<rparr>, tr_payload = [7]\<rparr>
   in find_str crlf [112] = None \<and>
    (\<exists>c ad. tr_generate [112] [120] 443 True @ [7] = [112] @ crlf @ [c] @ ad @ crlf @ [7] \<and>
       trojan_cmd_of c = Some T_CONNECT \<and>
       sa_parse a ad 0 = Inr (True, tr_address q, length ad))"
proof -
  let ?a = "\<lparr>sa_type = IPv4, sa_address = [], sa_port = 0\<rparr>"
  let ?r = "\<lparr>tr_command = T_CONNECT, tr_password = [], tr_address = ?a, tr_payload = []\<rparr>"
  let ?d = "tr_generate [112] [120] 443 True @ [7]"
  have "find_str crlf [112] = None" "dom_ok [120]"
    by (simp_all add: crlf_def dom_ok_def)
  from tr_parse_generated [OF this, of ?r 443 True "[7]"]
  have r: "tr_parse ?r ?d = Inr (12, \<lparr>tr_command = T_CONNECT, tr_password = [112],
      tr_address = \<lparr>sa_type = DOMAINNAME, sa_address = [120], sa_port = 443\<rparr>, tr_payload = [7]\<rparr>)"
    by (simp add: tr_generate_def)
  show ?thesis
    using tr_parse_sound [OF r] by (simp add: Let_def)
qed

text \<open>None of the three parsers of the Trojan protocol reads outside its string or throws, on any
  input, and an accepted address or packet lies within the input.\<close>

theorem trojan_parsers_safe:
  "no_fault (sa_parse a data n) \<and> no_fault (tr_parse r data) \<and> no_fault (up_parse u data n) \<and>
   (case sa_parse a data n of Inr (ok, _, m) \<Rightarrow> ok \<le> (m \<le> length data) | Inl _ \<Rightarrow> False) \<and>
   (case up_parse u data n of Inr (ok, _, m) \<Rightarrow> ok \<le> (m \<le> length data) | Inl _ \<Rightarrow> False)"
proof -
  obtain a' n' where sa: "sa_parse a data n = Inr (sa_valid data, a', n')"
    "sa_valid data \<longrightarrow> n' = sa_len data"
    using sa_parse_total by blast
  obtain k q where tr: "tr_parse r data = Inr (k, q)"
    using tr_parse_no_fault by blast
  obtain ok v m where up: "up_parse u data n = Inr (ok, v, m)"
    using up_parse_no_fault by blast
  have "m \<le> length data" if ok
    using up_parse_append [of u data n v m "[]"] up that by simp
  then show ?thesis
    using sa tr up by (auto simp: sa_valid_def)
qed

end
