(* ===== verification/UdpRequest.thy ===== *)
theory UdpRequest
  imports Endpoint Coding
begin

text \<open>
  \<^verbatim>\<open>Protocol/socks5/UdpRequest.{h,cpp}\<close>: the header a SOCKS5 client puts in front of each UDP
  datagram. The buffer given to the parser is the received part of the caller's array.
\<close>

subsection \<open>Model\<close>

record udp_request =
  ur_rsv0 :: byte
  ur_rsv1 :: byte
  ur_frag :: byte
  ur_addr_type :: byte
  ur_dst_addr :: bytes
  ur_dst_port :: u16
  ur_payload :: bytes

definition new_udp_request :: udp_request where
  "new_udp_request = \<lparr>ur_rsv0 = 0, ur_rsv1 = 0, ur_frag = 0, ur_addr_type = 0, ur_dst_addr = [],
                      ur_dst_port = 0, ur_payload = []\<rparr>"

definition ur_port_at :: "bytes \<Rightarrow> nat \<Rightarrow> u16 res" where
  "ur_port_at b p = rbind (rd8 b p) (\<lambda>x. rbind (rd8 b (p + 1)) (\<lambda>y. Inr (be16 x y)))"

text \<open>\<open>p\<close> is \<open>data + 4\<close> and \<open>remain\<close> is \<open>len - 4\<close>.\<close>

definition ureq_parse :: "udp_request \<Rightarrow> bytes \<Rightarrow> (bool \<times> udp_request) res" where
  "ureq_parse r data =
     (if length data < 4 then Inr (False, r)
      else rbind (rd8 data 0) (\<lambda>d0. rbind (rd8 data 1) (\<lambda>d1. rbind (rd8 data 2) (\<lambda>d2.
        if d0 \<noteq> 0 \<or> d1 \<noteq> 0 \<or> d2 \<noteq> 0 then Inr (False, r)
        else rbind (rd8 data 3) (\<lambda>t.
          let r = r\<lparr>ur_rsv0 := d0, ur_rsv1 := d1, ur_frag := d2, ur_addr_type := t\<rparr>;
              p = 4; remain = length data - 4 in
          if t = 0x01 then
            (if remain < 6 then Inr (False, r)
             else rbind (rdn data p 4) (\<lambda>a. rbind (ur_port_at data (p + 4)) (\<lambda>pt.
               rbind (rdn data (p + 6) (remain - 6)) (\<lambda>pl.
                 Inr (True, r\<lparr>ur_dst_addr := a, ur_dst_port := pt, ur_payload := pl\<rparr>)))))
          else if t = 0x03 then
            (if remain < 1 then Inr (False, r)
             else rbind (rd8 data p) (\<lambda>l. let dlen = unat l in
               if remain < dlen + 2 + 1 then Inr (False, r)
               else rbind (rdn data (p + 1) dlen) (\<lambda>a. rbind (ur_port_at data (p + 1 + dlen)) (\<lambda>pt.
                 rbind (rdn data (p + 1 + dlen + 2) (remain - 1 - dlen - 2)) (\<lambda>pl.
                   Inr (True, r\<lparr>ur_dst_addr := a, ur_dst_port := pt, ur_payload := pl\<rparr>))))))
          else if t = 0x04 then
            (if remain < 18 then Inr (False, r)
             else rbind (rdn data p 16) (\<lambda>a. rbind (ur_port_at data (p + 16)) (\<lambda>pt.
               rbind (rdn data (p + 18) (remain - 18)) (\<lambda>pl.
                 Inr (True, r\<lparr>ur_dst_addr := a, ur_dst_port := pt, ur_payload := pl\<rparr>)))))
          else Inr (False, r))))))"

definition ureq_serialize :: "udp_request \<Rightarrow> bytes" where
  "ureq_serialize r =
     [ur_rsv0 r] @ [ur_rsv1 r] @ [ur_frag r] @ [ur_addr_type r] @
     (if ur_addr_type r = 0x01 then ur_dst_addr r
      else if ur_addr_type r = 0x03 then [of_nat (length (ur_dst_addr r))] @ ur_dst_addr r
      else if ur_addr_type r = 0x04 then ur_dst_addr r
      else []) @
     [hi8 (ur_dst_port r)] @ [lo8 (ur_dst_port r)] @ ur_payload r"

definition ureq_dest_endpoint :: "udp_request \<Rightarrow> endpoint res" where
  "ureq_dest_endpoint r =
     (if ur_addr_type r = 0x01 then
        rbind (v4_of_bytes (str_data (ur_dst_addr r))) (\<lambda>a. Inr \<lparr>ep_addr = a, ep_port = ur_dst_port r\<rparr>)
      else if ur_addr_type r = 0x04 then
        rbind (v6_of_bytes (str_data (ur_dst_addr r))) (\<lambda>a. Inr \<lparr>ep_addr = a, ep_port = ur_dst_port r\<rparr>)
      else Inr default_endpoint)"

text \<open>\<open>to_string\<close> is Boost's textual form of an address.\<close>

definition ureq_dest_addr_str :: "(ip_addr \<Rightarrow> bytes) \<Rightarrow> udp_request \<Rightarrow> bytes res" where
  "ureq_dest_addr_str to_string r =
     (if ur_addr_type r = 0x01 then
        rbind (ureq_dest_endpoint r) (\<lambda>ep.
          Inr (to_string (ep_addr ep) @ ascii '':'' @ to_dec (unat (ur_dst_port r))))
      else if ur_addr_type r = 0x03 then
        Inr (ur_dst_addr r @ ascii '':'' @ to_dec (unat (ur_dst_port r)))
      else Inr [])"

subsection \<open>Well-formed requests\<close>

definition ureq_wf :: "udp_request \<Rightarrow> bool" where
  "ureq_wf r \<longleftrightarrow> ur_rsv0 r = 0 \<and> ur_rsv1 r = 0 \<and> ur_frag r = 0 \<and>
     (ur_addr_type r = 1 \<and> length (ur_dst_addr r) = 4 \<or>
      ur_addr_type r = 3 \<and> length (ur_dst_addr r) < 256 \<or>
      ur_addr_type r = 4 \<and> length (ur_dst_addr r) = 16)"

definition max_datagram :: nat where
  "max_datagram = 65535"

lemma ur_port_at_in [simp]: "p + 1 < length b \<Longrightarrow> ur_port_at b p = Inr (be16 (b ! p) (b ! (p + 1)))"
  by (simp add: ur_port_at_def)

lemma datagram_le_max [simp]: "n \<le> max_datagram \<Longrightarrow> n - k \<le> string_max_size"
  by (simp add: max_datagram_def string_max_size_def)

lemma byte_le_max [simp]: "unat (x :: byte) \<le> string_max_size"
proof -
  have "unat x < 256"
    using unsigned_less [of x] by simp
  then show ?thesis
    by (simp add: string_max_size_def)
qed

text \<open>The parser with the checked reads resolved.\<close>

definition ureq_fields :: "bytes \<Rightarrow> nat \<Rightarrow> nat \<Rightarrow> udp_request" where
  "ureq_fields b k n =
     \<lparr>ur_rsv0 = 0, ur_rsv1 = 0, ur_frag = 0, ur_addr_type = b ! 3, ur_dst_addr = take n (drop k b),
      ur_dst_port = be16 (b ! (k + n)) (b ! (k + n + 1)), ur_payload = drop (k + n + 2) b\<rparr>"

definition ureq_shape :: "bytes \<Rightarrow> (nat \<times> nat) option" where
  "ureq_shape b =
     (if length b < 4 \<or> b ! 0 \<noteq> 0 \<or> b ! 1 \<noteq> 0 \<or> b ! 2 \<noteq> 0 then None
      else if b ! 3 = 1 then (if length b < 10 then None else Some (4, 4))
      else if b ! 3 = 3 then (if length b < 5 \<or> length b < 7 + unat (b ! 4) then None else Some (5, unat (b ! 4)))
      else if b ! 3 = 4 then (if length b < 22 then None else Some (4, 16))
      else None)"

lemma ureq_parse_shape:
  assumes "length b \<le> max_datagram"
  shows "\<exists>q. ureq_parse r b = Inr (ureq_shape b \<noteq> None, q) \<and>
    (\<forall>k n. ureq_shape b = Some (k, n) \<longrightarrow> q = ureq_fields b k n)"
proof (cases "length b < 4 \<or> b ! 0 \<noteq> 0 \<or> b ! 1 \<noteq> 0 \<or> b ! 2 \<noteq> 0")
  case True
  then show ?thesis
    by (cases "b = []") (auto simp: ureq_parse_def ureq_shape_def)
next
  case False
  then have len: "4 \<le> length b" and z: "b ! 0 = 0" "b ! 1 = 0" "b ! 2 = 0"
    by auto
  have max: "length b - k \<le> string_max_size" for k
    using assms by simp
  have ne: "b \<noteq> []"
    using len by auto
  consider "b ! 3 = 1" | "b ! 3 = 3" "length b = 4" | "b ! 3 = 3" "4 < length b"
    | "b ! 3 = 4" | "b ! 3 \<notin> {1, 3, 4}"
    using len by fastforce
  then show ?thesis
  proof cases
    case 1
    then show ?thesis
      using len ne z max by (auto simp: ureq_parse_def ureq_shape_def ureq_fields_def Let_def)
  next
    case 2
    then show ?thesis
      using len ne z max by (auto simp: ureq_parse_def ureq_shape_def ureq_fields_def Let_def)
  next
    case 3
    then show ?thesis
      using len ne z max by (auto simp: ureq_parse_def ureq_shape_def ureq_fields_def Let_def)
  next
    case 4
    then show ?thesis
      using len ne z max by (auto simp: ureq_parse_def ureq_shape_def ureq_fields_def Let_def)
  next
    case 5
    then show ?thesis
      using len ne z by (simp add: ureq_parse_def ureq_shape_def)
  qed
qed

lemma field_split:
  "k + n + 2 \<le> length b \<Longrightarrow>
   drop k b = take n (drop k b) @ [b ! (k + n), b ! (k + n + 1)] @ drop (k + n + 2) b"
  using append_take_drop_id [of n "drop k b"] drop_pair [of "k + n" b] by (simp add: add.commute)

text \<open>A buffer of the right shape is the serialization of its fields, and conversely.\<close>

lemma ureq_shape_serialize:
  assumes "ureq_shape b = Some (k, n)"
  shows "ureq_wf (ureq_fields b k n) \<and> b = ureq_serialize (ureq_fields b k n)"
proof -
  have len: "4 \<le> length b" and z: "b ! 0 = 0" "b ! 1 = 0" "b ! 2 = 0" and kn: "k + n + 2 \<le> length b"
    using assms by (auto simp: ureq_shape_def split: if_splits)
  have b: "b = [b ! 0, b ! 1, b ! 2, b ! 3] @ drop 4 b"
    by (rule split_four [OF len])
  have d4: "drop 4 b = b ! 4 # drop 5 b" if "4 < length b"
    using Cons_nth_drop_Suc [OF that] by simp
  have n: "n < 256" if "k = 5"
    using assms that unsigned_less [of "b ! 4"] by (auto simp: ureq_shape_def split: if_splits)
  have t: "length (take n (drop k b)) = n"
    using kn by simp
  have ser: "b = [0, 0, 0, b ! 3] @ (if k = 5 then [of_nat n] else []) @ take n (drop k b) @
      [b ! (k + n), b ! (k + n + 1)] @ drop (k + n + 2) b"
    using assms b z d4 field_split [OF kn]
    by (auto simp: ureq_shape_def split: if_splits)
  have k: "b ! 3 = 3 \<and> k = 5 \<or> b ! 3 = 1 \<and> k = 4 \<and> n = 4 \<or> b ! 3 = 4 \<and> k = 4 \<and> n = 16"
    using assms by (auto simp: ureq_shape_def split: if_splits)
  then have "ureq_wf (ureq_fields b k n)"
    using t n by (auto simp: ureq_wf_def ureq_fields_def)
  moreover have "ureq_serialize (ureq_fields b k n) = [0, 0, 0, b ! 3] @ (if k = 5 then [of_nat n] else []) @
      take n (drop k b) @ [b ! (k + n), b ! (k + n + 1)] @ drop (k + n + 2) b"
    using k t by (auto simp: ureq_serialize_def ureq_fields_def)
  ultimately show ?thesis
    using ser by simp
qed

lemma ureq_serialize_shape:
  assumes "ureq_wf q"
  shows "\<exists>k n. ureq_shape (ureq_serialize q) = Some (k, n) \<and> ureq_fields (ureq_serialize q) k n = q"
proof -
  have u: "unat (of_nat (length (ur_dst_addr q)) :: byte) = length (ur_dst_addr q)"
    if "length (ur_dst_addr q) < 256"
    using byte_of_nat [OF refl that] .
  consider "ur_addr_type q = 1" | "ur_addr_type q = 3" | "ur_addr_type q = 4"
    using assms by (auto simp: ureq_wf_def)
  then show ?thesis
    using assms u
    by cases (auto simp: ureq_wf_def ureq_shape_def ureq_serialize_def ureq_fields_def nth_append)
qed

lemma ureq_parse_serialize:
  assumes "ureq_wf q" and "length (ureq_serialize q) \<le> max_datagram"
  shows "ureq_parse r (ureq_serialize q) = Inr (True, q)"
  using ureq_parse_shape [OF assms(2), of r] ureq_serialize_shape [OF assms(1)] by fastforce

lemma ureq_parse_accepts:
  assumes "length b \<le> max_datagram" and "ureq_parse r b = Inr (True, q)"
  shows "ureq_wf q \<and> b = ureq_serialize q"
  using ureq_parse_shape [OF assms(1), of r] ureq_shape_serialize [of b] assms(2) by fastforce

subsection \<open>Properties\<close>

text \<open>C26: on any datagram the relay can receive, the SOCKS5 UDP header parser neither reads out of
  bounds nor throws, and it accepts exactly the serializations of well-formed requests, with the request
  itself as the result.\<close>

theorem ureq_parse_exact:
  assumes "length b \<le> 65535"
  shows "no_fault (ureq_parse r b) \<and>
    (ureq_parse r b = Inr (True, q) \<longleftrightarrow> ureq_wf q \<and> b = ureq_serialize q)"
proof -
  have b: "length b \<le> max_datagram"
    using assms by (simp add: max_datagram_def)
  show ?thesis
    using ureq_parse_shape [OF b, of r] ureq_parse_accepts [OF b, of r q] ureq_parse_serialize [of q r] b
    by auto
qed

theorem ureq_parse_exact_witness:
  "let b = [0, 0, 0, 3, 2, 97, 98, 0, 53, 7]; q = \<lparr>ur_rsv0 = 0, ur_rsv1 = 0, ur_frag = 0, ur_addr_type = 3,
       ur_dst_addr = [97, 98], ur_dst_port = 53, ur_payload = [7]\<rparr>
   in ureq_parse new_udp_request b = Inr (True, q)"
proof -
  let ?q = "\<lparr>ur_rsv0 = 0, ur_rsv1 = 0, ur_frag = 0, ur_addr_type = 3,
       ur_dst_addr = [97, 98], ur_dst_port = 53, ur_payload = [7]\<rparr>"
  have "ureq_wf ?q \<and> [0, 0, 0, 3, 2, 97, 98, 0, 53, 7] = ureq_serialize ?q"
    by (simp add: ureq_wf_def ureq_serialize_def hi8_def lo8_def)
  moreover have "length [0, 0, 0, 3, 2, 97, 98, 0, 53, 7 :: byte] \<le> 65535"
    by simp
  ultimately show ?thesis
    using ureq_parse_exact [of "[0, 0, 0, 3, 2, 97, 98, 0, 53, 7]" new_udp_request ?q]
    unfolding Let_def by blast
qed

end
