(* ===== verification/Socks5.thy ===== *)
theory Socks5
  imports Endpoint Coding
begin

text \<open>
  \<^verbatim>\<open>Protocol/socks5/socks5.{h,cpp}\<close>: the SOCKS5 negotiation, request and reply. Both readers take the
  session's whole receive vector (64 KiB, of which only a prefix was received in this read), and only
  the request reader is told how much was received.
\<close>

subsection \<open>Negotiation\<close>

datatype auth_method =
    NO_AUTHENTICATION | GSSAPI | PASSWORD | IANA_ASSIGNED | RESERVED | NO_ACCEPTABLE_METHODS

text \<open>The enumerators count from 0; this is what \<open>EncodeFixed8(buf, method)\<close> writes.\<close>

fun auth_method_code :: "auth_method \<Rightarrow> byte" where
  "auth_method_code NO_AUTHENTICATION = 0"
| "auth_method_code GSSAPI = 1"
| "auth_method_code PASSWORD = 2"
| "auth_method_code IANA_ASSIGNED = 3"
| "auth_method_code RESERVED = 4"
| "auth_method_code NO_ACCEPTABLE_METHODS = 5"

fun method_to_string :: "auth_method \<Rightarrow> bytes" where
  "method_to_string NO_AUTHENTICATION = ascii ''NO_AUTHENTICATION''"
| "method_to_string GSSAPI = ascii ''GSSAPI''"
| "method_to_string PASSWORD = ascii ''PASSWORD''"
| "method_to_string IANA_ASSIGNED = ascii ''IANA_ASSIGNED''"
| "method_to_string RESERVED = ascii ''RESERVED''"
| "method_to_string NO_ACCEPTABLE_METHODS = ascii ''NO_ACCEPTABLE_METHODS''"

record auth_req =
  aq_version :: byte
  aq_nmethod :: byte
  aq_methods :: "auth_method list"

record auth_res =
  as_version :: byte
  as_method :: auth_method

definition method_of_oct :: "byte \<Rightarrow> auth_method" where
  "method_of_oct c =
     (if c \<le> 0x02 then (if c = 0 then NO_AUTHENTICATION else if c = 1 then GSSAPI else PASSWORD)
      else if c \<le> 0x7e then IANA_ASSIGNED
      else if c \<le> 0xfe then RESERVED
      else NO_ACCEPTABLE_METHODS)"

text \<open>The loop over the methods; the pointer stays on the last octet.\<close>

function auth_loop :: "bytes \<Rightarrow> nat \<Rightarrow> nat \<Rightarrow> nat \<Rightarrow> auth_method list \<Rightarrow> auth_method list res" where
  "auth_loop buf ptr i nmethod ms =
     (if i < nmethod then
        rbind (DecodeFixed8 buf ptr) (\<lambda>method_oct.
          let ptr = (if int i < int nmethod - 1 then ptr + 1 else ptr) in
          auth_loop buf ptr (i + 1) nmethod (ms @ [method_of_oct method_oct]))
      else Inr ms)"
  by pat_completeness auto
termination by (relation "measure (\<lambda>(_, _, i, n, _). n - i)") auto

declare auth_loop.simps [simp del]

definition auth_unstream :: "auth_req \<Rightarrow> bytes \<Rightarrow> (bool \<times> auth_req) res" where
  "auth_unstream r buf =
     rbind (DecodeFixed8 buf 0) (\<lambda>v. let r = r\<lparr>aq_version := v\<rparr> in
       if v \<noteq> 0x05 then Inr (False, r)
       else rbind (DecodeFixed8 buf 1) (\<lambda>n. let r = r\<lparr>aq_nmethod := n\<rparr> in
         rbind (auth_loop buf 2 0 (unat n) (aq_methods r)) (\<lambda>ms.
           Inr (True, r\<lparr>aq_methods := ms\<rparr>))))"

text \<open>\<open>operator<<\<close>: \<open>methods[i]\<close> for every \<open>i < nmethod\<close>.\<close>

fun methods_text :: "auth_method list \<Rightarrow> nat \<Rightarrow> bytes res" where
  "methods_text ms 0 = Inr []"
| "methods_text [] (Suc n) = Inl Oob"
| "methods_text (m # ms) (Suc n) =
     rbind (methods_text ms n) (\<lambda>t. Inr (method_to_string m @ ascii '' '' @ t))"

definition auth_req_print :: "auth_req \<Rightarrow> bytes res" where
  "auth_req_print r =
     rbind (methods_text (aq_methods r) (unat (aq_nmethod r))) (\<lambda>t.
       Inr (ascii ''AuthReq {VER:'' @ to_dec (unat (aq_version r)) @ ascii '', methods: ['' @ t @ ascii '']}''))"

definition auth_res_stream :: "auth_res \<Rightarrow> bytes \<Rightarrow> bytes" where
  "auth_res_stream r buf =
     (let buf = EncodeFixed8 buf (as_version r) in EncodeFixed8 buf (auth_method_code (as_method r)))"

subsection \<open>Request\<close>

definition CMD_CONNECT :: byte where "CMD_CONNECT = 0x01"
definition CMD_BIND :: byte where "CMD_BIND = 0x02"
definition CMD_UDP_ASSOCIATE :: byte where "CMD_UDP_ASSOCIATE = 0x03"

definition ATYP_V4 :: byte where "ATYP_V4 = 0x01"
definition ATYP_DOMAINNAME :: byte where "ATYP_DOMAINNAME = 0x03"
definition ATYP_V6 :: byte where "ATYP_V6 = 0x04"

record socks_request =
  sq_version :: byte
  sq_cmd :: byte
  sq_reserved :: byte
  sq_addrType :: byte
  sq_remote_host :: bytes
  sq_remote_port :: u16

text \<open>\<open>to_string\<close> is the textual form Boost gives an address; \<open>len\<close> is the number of bytes received.\<close>

definition sreq_unsteam ::
    "(ip_addr \<Rightarrow> bytes) \<Rightarrow> socks_request \<Rightarrow> bytes \<Rightarrow> nat \<Rightarrow> (bool \<times> socks_request) res" where
  "sreq_unsteam to_string r buf len =
     rbind (DecodeFixed8 buf 0) (\<lambda>v. let r = r\<lparr>sq_version := v\<rparr> in
     if v \<noteq> 0x05 then Inr (False, r)
     else rbind (DecodeFixed8 buf 1) (\<lambda>c. let r = r\<lparr>sq_cmd := c\<rparr> in
     rbind (DecodeFixed8 buf 2) (\<lambda>z. let r = r\<lparr>sq_reserved := z\<rparr> in
     if z \<noteq> 0x00 then Inr (False, r)
     else rbind (DecodeFixed8 buf 3) (\<lambda>val.
       if val \<noteq> 0x01 \<and> val \<noteq> 0x03 \<and> val \<noteq> 0x04 then Inr (False, r)
       else let r = r\<lparr>sq_addrType := val\<rparr>; ptr = 4 in
         if val = ATYP_V4 then
           (if len \<noteq> 4 + 4 + 2 then Inr (False, r)
            else rbind (DecodeFixed32 buf ptr) (\<lambda>ip. rbind (DecodeFixed16 buf (ptr + 4)) (\<lambda>pt.
              Inr (True, r\<lparr>sq_remote_host := to_string (v4_of_uint (htonl ip)),
                          sq_remote_port := htons pt\<rparr>))))
         else if val = ATYP_DOMAINNAME then
           rbind (DecodeFixed8 buf ptr) (\<lambda>l. let host_length = unat l; ptr = ptr + 1 in
             if len \<noteq> 5 + host_length + 2 then Inr (False, r)
             else rbind (rdn buf ptr host_length) (\<lambda>h.
               rbind (DecodeFixed16 buf (ptr + host_length)) (\<lambda>pt.
                 Inr (True, r\<lparr>sq_remote_host := h, sq_remote_port := htons pt\<rparr>))))
         else Inr (False, r)))))"

definition command_to_string :: "byte \<Rightarrow> bytes" where
  "command_to_string cmd =
     (if cmd = CMD_CONNECT then ascii ''CONNECT''
      else if cmd = CMD_BIND then ascii ''BIND''
      else if cmd = CMD_UDP_ASSOCIATE then ascii ''UDP_ASSOCIATE''
      else ascii ''ERR'')"

definition sreq_print :: "socks_request \<Rightarrow> bytes" where
  "sreq_print r =
     ascii ''Request {VER:'' @ to_dec (unat (sq_version r)) @ ascii '', command:'' @
     command_to_string (sq_cmd r) @ ascii '', remote_host: '' @ sq_remote_host r @
     ascii '', remote_port:'' @ to_dec (unat (sq_remote_port r)) @ ascii '' }''"

subsection \<open>Reply\<close>

record reply =
  rp_version :: byte
  rp_repResult :: byte
  rp_reserved :: byte
  rp_addrtype :: byte
  rp_realRemoteIP :: u32
  rp_realRemotePort :: u16

definition reply_stream :: "reply \<Rightarrow> bytes \<Rightarrow> bytes" where
  "reply_stream r buf =
     (let buf = EncodeFixed8 buf (rp_version r);
          buf = EncodeFixed8 buf (rp_repResult r);
          buf = EncodeFixed8 buf (rp_reserved r);
          buf = EncodeFixed8 buf (rp_addrtype r);
          buf = EncodeFixed32 buf (htonl (rp_realRemoteIP r))
      in EncodeFixed16 buf (htons (rp_realRemotePort r)))"

subsection \<open>Lemmas\<close>

lemma auth_loop_eq:
  "ptr + (n - i) \<le> length buf \<Longrightarrow> i \<le> n \<Longrightarrow>
   auth_loop buf ptr i n ms = Inr (ms @ map method_of_oct (take (n - i) (drop ptr buf)))"
proof (induction buf ptr i n ms rule: auth_loop.induct)
  case (1 buf ptr i n ms)
  show ?case
  proof (cases "i < n")
    case False
    then show ?thesis
      using 1 by (simp add: auth_loop.simps)
  next
    case True
    then have p: "ptr < length buf"
      using 1 by linarith
    then have d: "drop ptr buf = buf ! ptr # drop (ptr + 1) buf"
      by (simp add: Cons_nth_drop_Suc)
    have n: "n - i = Suc (n - (i + 1))"
      using True by simp
    show ?thesis
    proof (cases "i + 1 < n")
      case True
      then have "auth_loop buf (ptr + 1) (i + 1) n (ms @ [method_of_oct (buf ! ptr)]) =
          Inr ((ms @ [method_of_oct (buf ! ptr)]) @ map method_of_oct (take (n - (i + 1)) (drop (ptr + 1) buf)))"
        using 1 p by (auto simp: DecodeFixed8_def)
      then show ?thesis
        using True p d n by (subst auth_loop.simps) (simp add: DecodeFixed8_def)
    next
      case False
      then have "n = i + 1"
        using \<open>i < n\<close> by simp
      then show ?thesis
        using p d by (subst auth_loop.simps, subst auth_loop.simps) (simp add: DecodeFixed8_def)
    qed
  qed
qed

lemma DecodeFixed16_be16: "p + 1 < length b \<Longrightarrow> \<exists>w. DecodeFixed16 b p = Inr w \<and> htons w = be16 (b ! p) (b ! (p + 1))"
proof -
  assume "p + 1 < length b"
  then have "DecodeFixed16 b p = Inr (ucast (b ! p) OR push_bit 8 (ucast (b ! (p + 1))))"
    by (simp add: DecodeFixed16_def)
  moreover have "htons (ucast x OR push_bit 8 (ucast y)) = be16 x y" for x y :: byte
    by (rule bit_word_eqI) (auto simp: htons_def be16_def bit_simps)
  ultimately show ?thesis
    by blast
qed

lemma DecodeFixed32_v4:
  "p + 3 < length b \<Longrightarrow> \<exists>w. DecodeFixed32 b p = Inr w \<and>
     v4_of_uint (htonl w) = Ip4 (b ! p) (b ! (p + 1)) (b ! (p + 2)) (b ! (p + 3))"
proof -
  assume "p + 3 < length b"
  then have "DecodeFixed32 b p = Inr (ucast (b ! p) OR push_bit 8 (ucast (b ! (p + 1))) OR
      push_bit 16 (ucast (b ! (p + 2))) OR push_bit 24 (ucast (b ! (p + 3))))"
    by (simp add: DecodeFixed32_def)
  moreover have "v4_of_uint (htonl (ucast x OR push_bit 8 (ucast y) OR push_bit 16 (ucast z) OR
      push_bit 24 (ucast w))) = Ip4 x y z w" for x y z w :: byte
    unfolding htonl_def word_bytes4 using v4_of_to_uint [of x y z w] by (simp add: v4_to_uint_def)
  ultimately show ?thesis
    by blast
qed

lemma htons_bytes: "EncodeFixed16 buf (htons p) = buf @ [hi8 p, lo8 p]"
proof -
  have "ucast (htons p) = hi8 p" and "ucast (drop_bit 8 (htons p)) = lo8 p"
    by (auto intro!: bit_word_eqI simp: htons_def hi8_def lo8_ucast bit_simps)
  then show ?thesis
    by (simp add: EncodeFixed16_def)
qed

lemma htonl_bytes: "EncodeFixed32 buf (htonl (v4_to_uint (Ip4 a b c d))) = buf @ [a, b, c, d]"
proof -
  have v: "v4_to_uint (Ip4 a b c d) = ucast d OR push_bit 8 (ucast c) OR push_bit 16 (ucast b) OR push_bit 24 (ucast a)"
    by (simp add: v4_to_uint_def ac_simps)
  have h: "htonl (v4_to_uint (Ip4 a b c d)) = ucast a OR push_bit 8 (ucast b) OR push_bit 16 (ucast c) OR push_bit 24 (ucast d)"
    unfolding v htonl_def word_bytes4 by (simp add: ac_simps)
  show ?thesis
    unfolding EncodeFixed32_def h word_bytes4 by simp
qed

text \<open>The request as RFC 1928 lays it out.\<close>

definition sreq_v4_wire :: "byte \<Rightarrow> ip_addr \<Rightarrow> u16 \<Rightarrow> bytes" where
  "sreq_v4_wire cmd a p = [5, cmd, 0, 1] @ addr_bytes a @ [hi8 p, lo8 p]"

definition sreq_dom_wire :: "byte \<Rightarrow> bytes \<Rightarrow> u16 \<Rightarrow> bytes" where
  "sreq_dom_wire cmd h p = [5, cmd, 0, 3, of_nat (length h)] @ h @ [hi8 p, lo8 p]"

lemmas atyp_consts = ATYP_V4_def ATYP_DOMAINNAME_def ATYP_V6_def

lemma sreq_parse_v4:
  assumes "is_v4 a"
  shows "sreq_unsteam ts r (sreq_v4_wire cmd a p @ rest) 10 =
    Inr (True, \<lparr>sq_version = 5, sq_cmd = cmd, sq_reserved = 0, sq_addrType = 1,
                sq_remote_host = ts a, sq_remote_port = p\<rparr>)"
proof -
  obtain b1 b2 b3 b4 where a: "a = Ip4 b1 b2 b3 b4"
    using assms by (cases a) auto
  let ?b = "sreq_v4_wire cmd a p @ rest"
  obtain w where "DecodeFixed32 ?b 4 = Inr w" "v4_of_uint (htonl w) = a"
    using DecodeFixed32_v4 [of 4 ?b] by (auto simp: sreq_v4_wire_def a)
  moreover obtain x where "DecodeFixed16 ?b 8 = Inr x" "htons x = p"
    using DecodeFixed16_be16 [of 8 ?b] by (auto simp: sreq_v4_wire_def a)
  ultimately show ?thesis
    by (simp add: sreq_unsteam_def DecodeFixed8_def atyp_consts Let_def sreq_v4_wire_def a)
qed

lemma sreq_parse_dom:
  assumes "length h < 256"
  shows "sreq_unsteam ts r (sreq_dom_wire cmd h p @ rest) (7 + length h) =
    Inr (True, \<lparr>sq_version = 5, sq_cmd = cmd, sq_reserved = 0, sq_addrType = 3,
                sq_remote_host = h, sq_remote_port = p\<rparr>)"
proof -
  let ?b = "sreq_dom_wire cmd h p @ rest"
  have u: "unat (of_nat (length h) :: byte) = length h"
    using byte_of_nat [OF refl assms] .
  obtain x where "DecodeFixed16 ?b (5 + length h) = Inr x" "htons x = p"
    using DecodeFixed16_be16 [of "5 + length h" ?b] by (auto simp: sreq_dom_wire_def nth_append)
  then show ?thesis
    using assms u
    by (simp add: sreq_unsteam_def sreq_dom_wire_def DecodeFixed8_def atyp_consts Let_def)
qed

lemma sreq_accepts:
  assumes "262 < length buf" and "sreq_unsteam ts r buf n = Inr (True, q)"
  shows "(\<exists>cmd a p. is_v4 a \<and> n = 10 \<and> take n buf = sreq_v4_wire cmd a p) \<or>
    (\<exists>cmd h p. length h < 256 \<and> n = 7 + length h \<and> take n buf = sreq_dom_wire cmd h p)"
proof -
  have ne: "buf \<noteq> []" and len: "10 \<le> length buf"
    using assms(1) by auto
  have hdr: "buf ! 0 = 5" "buf ! 2 = 0" and
    t: "buf ! 3 = 1 \<and> n = 10 \<or> buf ! 3 = 3 \<and> n = 7 + unat (buf ! 4)"
    using assms ne by (auto simp: sreq_unsteam_def DecodeFixed8_def atyp_consts Let_def split: if_splits)
  show ?thesis
  proof (cases "buf ! 3 = 1")
    case True
    then have n: "n = 10"
      using t by auto
    let ?a = "Ip4 (buf ! 4) (buf ! 5) (buf ! 6) (buf ! 7)" and ?p = "be16 (buf ! 8) (buf ! 9)"
    have "take 10 buf = [buf ! 0, buf ! 1, buf ! 2, buf ! 3, buf ! 4, buf ! 5, buf ! 6, buf ! 7, buf ! 8, buf ! 9]"
      using take_frame_split [of 5 10 buf] len drop_four [of 5 buf] by simp
    then have "take n buf = sreq_v4_wire (buf ! 1) ?a ?p"
      using hdr True n by (simp add: sreq_v4_wire_def)
    then show ?thesis
      using n by (intro disjI1 exI [of _ "buf ! 1"] exI [of _ ?a] exI [of _ ?p]) simp
  next
    case False
    let ?k = "unat (buf ! 4)"
    let ?h = "take ?k (drop 5 buf)" and ?p = "be16 (buf ! (5 + ?k)) (buf ! (6 + ?k))"
    have n: "n = 7 + ?k" and t3: "buf ! 3 = 3"
      using t False by auto
    have k: "?k < 256"
      using unsigned_less [of "buf ! 4"] by simp
    then have h: "length ?h = ?k"
      using assms(1) by simp
    have "take n buf = [buf ! 0, buf ! 1, buf ! 2, buf ! 3, buf ! 4] @ ?h @ [buf ! (5 + ?k), buf ! (6 + ?k)]"
      using take_frame_split [of "?k + 2" n buf] n k assms(1) by simp
    moreover have "(of_nat (length ?h) :: byte) = buf ! 4"
      unfolding h by simp
    ultimately have "take n buf = sreq_dom_wire (buf ! 1) ?h ?p"
      using hdr t3 unfolding sreq_dom_wire_def by simp
    then show ?thesis
      using n h k by (intro disjI2 exI [of _ "buf ! 1"] exI [of _ ?h] exI [of _ ?p]) simp
  qed
qed

lemma sreq_no_fault: "262 < length buf \<Longrightarrow> no_fault (sreq_unsteam ts r buf n)"
proof -
  assume len: "262 < length buf"
  then have ne: "buf \<noteq> []"
    by auto
  have k: "unat (buf ! 4) < 256"
    using unsigned_less [of "buf ! 4"] by simp
  have d16: "p + 1 < length buf \<Longrightarrow> \<exists>w. DecodeFixed16 buf p = Inr w" for p
    using DecodeFixed16_be16 by blast
  obtain w x y where "DecodeFixed32 buf 4 = Inr w" "DecodeFixed16 buf 8 = Inr x"
    "DecodeFixed16 buf (5 + unat (buf ! 4)) = Inr y"
    using len k DecodeFixed32_v4 [of 4 buf] d16 [of 8] d16 [of "5 + unat (buf ! 4)"] by auto
  then show ?thesis
    using len k ne
    by (auto simp: sreq_unsteam_def DecodeFixed8_def rdn_def string_max_size_def Let_def)
qed

lemma sreq_unsteam_iff:
  assumes len: "262 < length buf"
  shows "no_fault (sreq_unsteam ts r buf n) \<and>
    (sreq_unsteam ts r buf n = Inr (True, q) \<longleftrightarrow>
      (\<exists>cmd a p. is_v4 a \<and> take n buf = sreq_v4_wire cmd a p \<and>
         q = \<lparr>sq_version = 5, sq_cmd = cmd, sq_reserved = 0, sq_addrType = 1,
              sq_remote_host = ts a, sq_remote_port = p\<rparr>) \<or>
      (\<exists>cmd h p. length h < 256 \<and> take n buf = sreq_dom_wire cmd h p \<and>
         q = \<lparr>sq_version = 5, sq_cmd = cmd, sq_reserved = 0, sq_addrType = 3,
              sq_remote_host = h, sq_remote_port = p\<rparr>))"
    (is "_ \<and> (?L \<longleftrightarrow> ?V \<or> ?D)")
proof -
  have v4: "sreq_unsteam ts r buf n = Inr (True, \<lparr>sq_version = 5, sq_cmd = cmd, sq_reserved = 0, sq_addrType = 1,
      sq_remote_host = ts a, sq_remote_port = p\<rparr>)" if "is_v4 a" "take n buf = sreq_v4_wire cmd a p" for cmd a p
  proof -
    have "n = 10"
      using arg_cong [OF that(2), of length] that(1) len by (cases a) (auto simp: sreq_v4_wire_def min_def split: if_splits)
    then show ?thesis
      using sreq_parse_v4 [OF that(1), of ts r cmd p "drop n buf"] that(2) by (metis append_take_drop_id)
  qed
  have dom: "sreq_unsteam ts r buf n = Inr (True, \<lparr>sq_version = 5, sq_cmd = cmd, sq_reserved = 0, sq_addrType = 3,
      sq_remote_host = h, sq_remote_port = p\<rparr>)" if "length h < 256" "take n buf = sreq_dom_wire cmd h p" for cmd h p
  proof -
    have "n = 7 + length h"
      using arg_cong [OF that(2), of length] that(1) len by (auto simp: sreq_dom_wire_def min_def split: if_splits)
    then show ?thesis
      using sreq_parse_dom [OF that(1), of ts r cmd p "drop n buf"] that(2) by (metis append_take_drop_id)
  qed
  have "?L \<Longrightarrow> ?V \<or> ?D"
    using sreq_accepts [OF len, of ts r n q] v4 dom by fastforce
  then show ?thesis
    using v4 dom sreq_no_fault [OF len, of ts r n] by blast
qed

subsection \<open>Properties\<close>

text \<open>C27: on the session's 64 KiB receive buffer the request reader never reads out of bounds, and it
  accepts exactly the IPv4 and domain requests of RFC 1928 that fill the received length, with their
  command, host and port.\<close>

theorem sreq_unsteam_exact:
  assumes "length buf = 65536"
  shows "no_fault (sreq_unsteam ts r buf n) \<and>
    (sreq_unsteam ts r buf n = Inr (True, q) \<longleftrightarrow>
      (\<exists>cmd a p. is_v4 a \<and> take n buf = sreq_v4_wire cmd a p \<and>
         q = \<lparr>sq_version = 5, sq_cmd = cmd, sq_reserved = 0, sq_addrType = 1,
              sq_remote_host = ts a, sq_remote_port = p\<rparr>) \<or>
      (\<exists>cmd h p. length h < 256 \<and> take n buf = sreq_dom_wire cmd h p \<and>
         q = \<lparr>sq_version = 5, sq_cmd = cmd, sq_reserved = 0, sq_addrType = 3,
              sq_remote_host = h, sq_remote_port = p\<rparr>))"
  by (rule sreq_unsteam_iff) (simp add: assms)

theorem sreq_unsteam_exact_witness:
  "let r = \<lparr>sq_version = 0, sq_cmd = 0, sq_reserved = 0, sq_addrType = 0, sq_remote_host = [],
            sq_remote_port = 0\<rparr>
   in sreq_unsteam (\<lambda>_. []) r (sreq_dom_wire 1 [97] 80 @ replicate 65528 0) 8 =
     Inr (True, \<lparr>sq_version = 5, sq_cmd = 1, sq_reserved = 0, sq_addrType = 3,
                 sq_remote_host = [97], sq_remote_port = 80\<rparr>)"
proof -
  let ?b = "sreq_dom_wire 1 [97] 80 @ replicate 65528 0"
  have len: "length ?b = 65536" and "take 8 ?b = sreq_dom_wire 1 [97] 80"
    by (simp_all add: sreq_dom_wire_def)
  then have "\<exists>cmd h p. length h < 256 \<and> take 8 ?b = sreq_dom_wire cmd h p \<and>
      \<lparr>sq_version = 5, sq_cmd = 1, sq_reserved = 0, sq_addrType = 3, sq_remote_host = [97], sq_remote_port = 80\<rparr> =
      \<lparr>sq_version = 5, sq_cmd = cmd, sq_reserved = 0, sq_addrType = 3, sq_remote_host = h, sq_remote_port = p\<rparr>"
    by (intro exI [of _ 1] exI [of _ "[97]"] exI [of _ 80]) simp
  then show ?thesis
    using sreq_unsteam_exact [OF len, of "\<lambda>_. []" _ 8] unfolding Let_def by blast
qed

text \<open>A negotiation that starts with version 5 is accepted with one classified method per announced
  method, in order, without leaving the 64 KiB buffer even for 255 methods.\<close>

lemma auth_unstream_methods:
  assumes "length buf = 65536" and "buf ! 0 = 5"
  shows "auth_unstream r buf =
    Inr (True, r\<lparr>aq_version := 5, aq_nmethod := buf ! 1,
       aq_methods := aq_methods r @ map method_of_oct (take (unat (buf ! 1)) (drop 2 buf))\<rparr>)"
proof -
  have "unat (buf ! 1) < 256"
    using unsigned_less [of "buf ! 1"] by simp
  then have "auth_loop buf 2 0 (unat (buf ! 1)) (aq_methods r) =
      Inr (aq_methods r @ map method_of_oct (take (unat (buf ! 1)) (drop 2 buf)))"
    using assms(1) by (subst auth_loop_eq) simp_all
  moreover have "buf \<noteq> []"
    using assms(1) by auto
  ultimately show ?thesis
    using assms by (simp add: auth_unstream_def DecodeFixed8_def Let_def)
qed

text \<open>A reply is exactly ten bytes for an IPv4 address, with the address and the port in network
  byte order, appended to the buffer.\<close>

lemma reply_stream_layout:
  "reply_stream \<lparr>rp_version = v, rp_repResult = e, rp_reserved = z, rp_addrtype = t,
                 rp_realRemoteIP = v4_to_uint (Ip4 a b c d), rp_realRemotePort = p\<rparr> buf =
   buf @ [v, e, z, t, a, b, c, d, hi8 p, lo8 p]"
  by (simp add: reply_stream_def htonl_bytes htons_bytes EncodeFixed8_def)

end
