(* ===== verification/CText.thy ===== *)
theory CText
  imports Prelude
begin

text \<open>
  Numbers in text, as the sources read them with the standard library. \<open>std::stoi\<close>: leading white space,
  an optional sign, then digits; \<open>invalid_argument\<close> without digits, \<open>out_of_range\<close> beyond 32 bits; trailing
  characters are ignored. One \<open>%<width>d\<close> conversion of \<open>sscanf\<close>: leading white space outside the width, an
  optional sign and digits within it, and the rest of the text.
\<close>

subsection \<open>Model\<close>

definition is_space :: "byte \<Rightarrow> bool" where
  "is_space c \<longleftrightarrow> c \<in> {32, 9, 10, 11, 12, 13}"

definition is_digit :: "byte \<Rightarrow> bool" where
  "is_digit c \<longleftrightarrow> 48 \<le> c \<and> c \<le> 57"

definition digits_value :: "bytes \<Rightarrow> int" where
  "digits_value ds = foldl (\<lambda>v c. 10 * v + (int (unat c) - 48)) 0 ds"

definition stoi :: "bytes \<Rightarrow> int res" where
  "stoi s =
     (let s = dropWhile is_space s;
          neg = (s \<noteq> [] \<and> hd s = 45);
          s = (if s \<noteq> [] \<and> (hd s = 45 \<or> hd s = 43) then tl s else s);
          ds = takeWhile is_digit s;
          v = (if neg then - digits_value ds else digits_value ds)
      in if ds = [] then Inl Invalid_argument
         else if v < - (2 ^ 31) \<or> 2 ^ 31 \<le> v then Inl Out_of_range
         else Inr v)"

definition scan_d :: "nat \<Rightarrow> bytes \<Rightarrow> (int \<times> bytes) option" where
  "scan_d width s =
     (let s = dropWhile is_space s;
          field = take width s;
          neg = (field \<noteq> [] \<and> hd field = 45);
          sign = (field \<noteq> [] \<and> (hd field = 45 \<or> hd field = 43));
          ds = takeWhile is_digit (if sign then tl field else field);
          v = (if neg then - digits_value ds else digits_value ds)
      in if ds = [] then None else Some (v, drop (length ds + (if sign then 1 else 0)) s))"

subsection \<open>Lemmas\<close>

lemma find_byte_None: "find_str [c] s = None \<longleftrightarrow> c \<notin> set s"
  by (induction s) auto

lemma find_byte_append: "c \<notin> set s \<Longrightarrow> find_str [c] (s @ c # t) = Some (length s)"
  by (induction s) auto

lemma is_digit_to_dec: "c \<in> set (to_dec n) \<Longrightarrow> is_digit c"
  by (auto simp: is_digit_def dest: to_dec_digits)

lemma digits_value_snoc: "digits_value (ds @ [c]) = 10 * digits_value ds + (int (unat c) - 48)"
  by (simp add: digits_value_def)

lemma unat_digit: "m < 10 \<Longrightarrow> unat (48 + of_nat m :: byte) = 48 + m"
  by (simp add: unat_word_ariths unat_of_nat)

lemma digits_value_to_dec: "digits_value (to_dec n) = int n"
proof (induction n rule: to_dec.induct)
  case (1 n)
  show ?case
  proof (cases "n < 10")
    case True
    then show ?thesis
      by (subst to_dec.simps) (simp add: digits_value_def unat_digit del: of_nat_unat)
  next
    case False
    then have "digits_value (to_dec n) = 10 * int (n div 10) + int (n mod 10)"
      using 1 by (subst to_dec.simps) (simp add: digits_value_snoc unat_digit del: of_nat_unat)
    also have "\<dots> = int (10 * (n div 10) + n mod 10)"
      by (simp only: of_nat_add of_nat_mult of_nat_numeral)
    finally show ?thesis
      by (simp only: mult_div_mod_eq)
  qed
qed

lemma stoi_to_dec:
  assumes "n < 2 ^ 31" and "t = [] \<or> \<not> is_digit (hd t)"
  shows "stoi (to_dec n @ t) = Inr (int n)"
proof -
  obtain c cs where d: "to_dec n = c # cs"
    by (cases "to_dec n") auto
  have c: "is_digit c"
    using is_digit_to_dec [of c n] d by simp
  then have nc: "\<not> is_space c" "c \<noteq> 45" "c \<noteq> 43"
    by (auto simp: is_digit_def is_space_def word_le_nat_alt)
  have "takeWhile is_digit (to_dec n @ t) = to_dec n"
    using is_digit_to_dec assms(2) by (cases t) (auto simp: takeWhile_append2)
  moreover have "dropWhile is_space (to_dec n @ t) = to_dec n @ t"
    using nc d by simp
  ultimately show ?thesis
    using nc d assms(1) digits_value_to_dec [of n] by (simp add: stoi_def Let_def)
qed

lemma scan_d_digits:
  assumes "list_all is_digit ds" and "ds \<noteq> []" and "length ds = width"
  shows "scan_d width (ds @ t) = Some (digits_value ds, t)"
proof -
  obtain c cs where ds: "ds = c # cs"
    using assms(2) by (cases ds) auto
  then have "is_digit c"
    using assms(1) by simp
  then have nc: "\<not> is_space c" "c \<noteq> 45" "c \<noteq> 43"
    by (auto simp: is_digit_def is_space_def word_le_nat_alt)
  have "takeWhile is_digit ds = ds"
    using assms(1) by (simp add: takeWhile_eq_all_conv list_all_iff)
  moreover have "dropWhile is_space (ds @ t) = ds @ t" "take width (ds @ t) = ds" "hd ds = c"
    using nc ds assms(3) by auto
  ultimately show ?thesis
    using nc assms(2,3) by (simp add: scan_d_def Let_def del: takeWhile_eq_all_conv)
qed

lemma find_str_skip: "c \<notin> set a \<Longrightarrow> find_str (c # p) (a @ b) = map_option ((+) (length a)) (find_str (c # p) b)"
proof (induction a)
  case Nil
  then show ?case
    by (cases "find_str (c # p) b") auto
next
  case (Cons x a)
  then show ?case
    by (cases "find_str (c # p) b") auto
qed

end
