(* ===== verification/Http.thy ===== *)
theory Http
  imports CText
begin

text \<open>
  \<^verbatim>\<open>Protocol/http/http.{h,cpp}\<close>: the CONNECT request of an HTTP proxy client.
\<close>

subsection \<open>Model\<close>

record http_request =
  hr_host :: bytes
  hr_port :: u16

definition new_http_request :: http_request where
  "new_http_request = \<lparr>hr_host = [], hr_port = 443\<rparr>"

definition connect_prefix :: bytes where
  "connect_prefix = ascii ''CONNECT ''"

text \<open>\<open>static_cast<uint16_t>\<close> keeps the low sixteen bits of the number.\<close>

definition hr_unstream :: "http_request \<Rightarrow> bytes \<Rightarrow> (bool \<times> http_request) res" where
  "hr_unstream r buf =
     (case find_str crlf buf of
        None \<Rightarrow> Inr (False, r)
      | Some line_end \<Rightarrow>
          rbind (substr buf 0 line_end) (\<lambda>line.
          rbind (substr line 0 8) (\<lambda>m.
          if m \<noteq> connect_prefix then Inr (False, r)
          else rbind (substr_from line 8) (\<lambda>address.
          rbind (case find_str [32] address of
                   None \<Rightarrow> Inr address
                 | Some space_pos \<Rightarrow> substr address 0 space_pos) (\<lambda>address.
          case find_str [58] address of
            Some colon_pos \<Rightarrow>
              rbind (substr address 0 colon_pos) (\<lambda>h. let r = r\<lparr>hr_host := h\<rparr> in
              rbind (substr_from address (colon_pos + 1)) (\<lambda>t.
              rbind (stoi t) (\<lambda>v. let r = r\<lparr>hr_port := word_of_int v\<rparr> in
                Inr (hr_host r \<noteq> [], r))))
          | None \<Rightarrow>
              let r = r\<lparr>hr_host := address, hr_port := 443\<rparr> in Inr (hr_host r \<noteq> [], r))))))"

definition http_ok :: "bytes \<Rightarrow> bytes" where
  "http_ok buf = ascii ''HTTP/1.1 200 Connection Established'' @ crlf @ crlf"

subsection \<open>Lemmas\<close>

text \<open>A request line as a client writes it: the authority, then a space and the rest.\<close>

definition connect_line :: "bytes \<Rightarrow> bytes \<Rightarrow> bytes" where
  "connect_line authority version = connect_prefix @ authority @ [32] @ version"

lemma no_crlf_of_no_lf: "10 \<notin> set s \<Longrightarrow> find_str crlf s = None"
proof (induction s)
  case (Cons x s)
  have "take 2 (x # s) \<noteq> crlf"
    using Cons.prems by (cases s) (auto simp: crlf_def numeral_2_eq_2)
  then show ?case
    using Cons by simp
qed (simp add: crlf_def)

lemma hr_unstream_line:
  assumes "10 \<notin> set authority" and "10 \<notin> set version" and "32 \<notin> set authority"
  shows "hr_unstream r (connect_line authority version @ crlf @ rest) =
    (case find_str [58] authority of
       Some colon_pos \<Rightarrow>
         rbind (stoi (drop (colon_pos + 1) authority)) (\<lambda>v.
           Inr (take colon_pos authority \<noteq> [],
                r\<lparr>hr_host := take colon_pos authority, hr_port := word_of_int v\<rparr>))
     | None \<Rightarrow> Inr (authority \<noteq> [], r\<lparr>hr_host := authority, hr_port := 443\<rparr>))"
proof -
  let ?l = "connect_line authority version"
  have p: "10 \<notin> set connect_prefix" "length connect_prefix = 8"
    by (simp_all add: connect_prefix_def ascii_def)
  have "find_str crlf ?l = None"
    using assms p by (intro no_crlf_of_no_lf) (simp add: connect_line_def)
  then have f: "find_str crlf (?l @ crlf @ rest) = Some (length ?l)"
    by (rule find_str_crlf_append)
  have "find_str [58] authority = Some k \<Longrightarrow> k + 1 \<le> length authority" for k
    using find_str_Some_split [of "[58]" authority k] by simp
  then show ?thesis
    using f p find_byte_append [OF assms(3), of version]
    by (simp add: hr_unstream_def Let_def connect_line_def split: option.split)
qed

subsection \<open>Properties\<close>



text \<open>The port text goes to \<open>std::stoi\<close> unchecked, so a request line whose port has no digits, such as
  every bracketed IPv6 authority, or one beyond 32 bits, throws out of the parser instead of being
  rejected.\<close>

theorem hr_port_throws:
  assumes "set host \<inter> {10, 32, 58} = {}" and "10 \<notin> set version"
    and "set t \<inter> {10, 32} = {}" and "t \<noteq> []" and "\<not> is_digit (hd t)" and "\<not> is_space (hd t)"
    and "hd t \<noteq> 43" and "hd t \<noteq> 45"
  shows "hr_unstream r (connect_line (host @ [58] @ t) version @ crlf @ rest) = Inl Invalid_argument"
proof -
  have f: "find_str [58] (host @ [58] @ t) = Some (length host)"
    using assms(1) find_byte_append [of 58 host t] by simp
  have "stoi t = Inl Invalid_argument"
    using assms(4-8) by (cases t) (simp_all add: stoi_def Let_def)
  then show ?thesis
    using hr_unstream_line [of "host @ [58] @ t" version r rest] assms(1-3) f by auto
qed

theorem hr_port_throws_witness:
  "hr_unstream new_http_request
     (connect_line (ascii ''['' @ [58] @ ascii '':1]:443'') (ascii ''HTTP/1.1'') @ crlf @ crlf) =
   Inl Invalid_argument"
  using hr_port_throws [of "ascii ''[''" "ascii ''HTTP/1.1''" "ascii '':1]:443''" new_http_request crlf]
  by (simp add: ascii_def is_digit_def is_space_def)

end
