(* ===== verification/DnsCache.thy ===== *)
theory DnsCache
  imports Endpoint
begin

text \<open>
  \<^verbatim>\<open>Shared/DnsCache.{h,cpp}\<close>: the resolver cache shared by all sessions, two maps from a
  \<open>host:port\<close> text to an endpoint and its expiry. Every public operation holds the mutex, so each is
  one atomic step on the state; \<open>time(nullptr)\<close> is an argument. The interface \<open>expiring_cache\<close> states
  what a client of either map relies on.
\<close>

subsection \<open>Model\<close>

record dns_entry =
  de_endpoint :: endpoint
  de_expire_time :: int

record dns_cache =
  dc_default_ttl :: int
  dc_udp_cache :: "bytes \<Rightarrow> dns_entry option"
  dc_tcp_cache :: "bytes \<Rightarrow> dns_entry option"

definition new_dns_cache :: dns_cache where
  "new_dns_cache = \<lparr>dc_default_ttl = 600, dc_udp_cache = Map.empty, dc_tcp_cache = Map.empty\<rparr>"

definition set_default_ttl :: "dns_cache \<Rightarrow> int \<Rightarrow> dns_cache" where
  "set_default_ttl c ttl = c\<lparr>dc_default_ttl := ttl\<rparr>"

definition get_udp :: "dns_cache \<Rightarrow> int \<Rightarrow> bytes \<Rightarrow> endpoint option" where
  "get_udp c now key = (case dc_udp_cache c key of
     Some e \<Rightarrow> if now < de_expire_time e then Some (de_endpoint e) else None
   | None \<Rightarrow> None)"

definition put_udp :: "dns_cache \<Rightarrow> int \<Rightarrow> bytes \<Rightarrow> endpoint \<Rightarrow> dns_cache" where
  "put_udp c now key ep =
     c\<lparr>dc_udp_cache := (dc_udp_cache c)(key \<mapsto>
        \<lparr>de_endpoint = ep, de_expire_time = now + dc_default_ttl c\<rparr>)\<rparr>"

definition get_tcp :: "dns_cache \<Rightarrow> int \<Rightarrow> bytes \<Rightarrow> endpoint option" where
  "get_tcp c now key = (case dc_tcp_cache c key of
     Some e \<Rightarrow> if now < de_expire_time e then Some (de_endpoint e) else None
   | None \<Rightarrow> None)"

definition put_tcp :: "dns_cache \<Rightarrow> int \<Rightarrow> bytes \<Rightarrow> endpoint \<Rightarrow> dns_cache" where
  "put_tcp c now key ep =
     c\<lparr>dc_tcp_cache := (dc_tcp_cache c)(key \<mapsto>
        \<lparr>de_endpoint = ep, de_expire_time = now + dc_default_ttl c\<rparr>)\<rparr>"

text \<open>The two erase loops of \<open>cleanup_expired\<close>, which visit every entry once.\<close>

definition erase_expired :: "int \<Rightarrow> (bytes \<Rightarrow> dns_entry option) \<Rightarrow> bytes \<Rightarrow> dns_entry option" where
  "erase_expired now m = (\<lambda>key. case m key of
     Some e \<Rightarrow> if now \<ge> de_expire_time e then None else Some e
   | None \<Rightarrow> None)"

definition cleanup_expired :: "dns_cache \<Rightarrow> int \<Rightarrow> dns_cache" where
  "cleanup_expired c now =
     c\<lparr>dc_udp_cache := erase_expired now (dc_udp_cache c),
       dc_tcp_cache := erase_expired now (dc_tcp_cache c)\<rparr>"

text \<open>The key the sessions build, \<open>host + ":" + std::to_string(port)\<close>.\<close>

definition dns_key :: "bytes \<Rightarrow> u16 \<Rightarrow> bytes" where
  "dns_key host port = host @ ascii '':'' @ to_dec (unat port)"

text \<open>The operations as events, each with the time its call reads.\<close>

datatype dns_op =
    Put_udp int bytes endpoint
  | Put_tcp int bytes endpoint
  | Cleanup_expired int
  | Set_default_ttl int

fun dns_step :: "dns_cache \<Rightarrow> dns_op \<Rightarrow> dns_cache" where
  "dns_step c (Put_udp t k ep) = put_udp c t k ep"
| "dns_step c (Put_tcp t k ep) = put_tcp c t k ep"
| "dns_step c (Cleanup_expired t) = cleanup_expired c t"
| "dns_step c (Set_default_ttl ttl) = set_default_ttl c ttl"

subsection \<open>What a client relies on\<close>

text \<open>
  An operation either writes a key (value and expiry) or leaves what a later lookup sees unchanged.
  From that law alone, a lookup after any history gives the last write, unless it has expired.
\<close>

fun last_write ::
    "('s \<Rightarrow> 'p \<Rightarrow> 's) \<Rightarrow> ('s \<Rightarrow> 'p \<Rightarrow> bytes \<Rightarrow> (int \<times> 'v) option) \<Rightarrow> 's \<Rightarrow> 'p list \<Rightarrow> bytes \<Rightarrow> (int \<times> 'v) option"
  where
  "last_write step written c [] k = None"
| "last_write step written c (p # ps) k =
     (case last_write step written (step c p) ps k of
        Some w \<Rightarrow> Some w
      | None \<Rightarrow> written c p k)"

definition live :: "int \<Rightarrow> (int \<times> 'v) option \<Rightarrow> 'v option" where
  "live now w = (case w of Some (e, v) \<Rightarrow> if now < e then Some v else None | None \<Rightarrow> None)"

locale expiring_cache =
  fixes get :: "'s \<Rightarrow> int \<Rightarrow> bytes \<Rightarrow> 'v option"
    and step :: "'s \<Rightarrow> 'p \<Rightarrow> 's"
    and written :: "'s \<Rightarrow> 'p \<Rightarrow> bytes \<Rightarrow> (int \<times> 'v) option"
    and at_or_before :: "'p \<Rightarrow> int \<Rightarrow> bool"
  assumes get_written: "written c p k = Some w \<Longrightarrow> get (step c p) t k = live t (Some w)"
    and get_kept: "written c p k = None \<Longrightarrow> at_or_before p t \<Longrightarrow> get (step c p) t k = get c t k"
begin

lemma get_history:
  "\<forall>p \<in> set ps. at_or_before p t \<Longrightarrow>
   get (foldl step c ps) t k =
     (case last_write step written c ps k of Some w \<Rightarrow> live t (Some w) | None \<Rightarrow> get c t k)"
proof (induction ps arbitrary: c)
  case (Cons p ps)
  then show ?case
    by (cases "written c p k") (auto simp: get_written get_kept split: option.split)
qed simp

end

fun udp_written :: "dns_cache \<Rightarrow> dns_op \<Rightarrow> bytes \<Rightarrow> (int \<times> endpoint) option" where
  "udp_written c (Put_udp t k' ep) k = (if k = k' then Some (t + dc_default_ttl c, ep) else None)"
| "udp_written c _ k = None"

fun tcp_written :: "dns_cache \<Rightarrow> dns_op \<Rightarrow> bytes \<Rightarrow> (int \<times> endpoint) option" where
  "tcp_written c (Put_tcp t k' ep) k = (if k = k' then Some (t + dc_default_ttl c, ep) else None)"
| "tcp_written c _ k = None"

fun dns_before :: "dns_op \<Rightarrow> int \<Rightarrow> bool" where
  "dns_before (Cleanup_expired t) now = (t \<le> now)"
| "dns_before _ now = True"

lemma erase_expired_get:
  "now \<le> t \<Longrightarrow> (case erase_expired now m k of Some e \<Rightarrow> if t < de_expire_time e then Some (de_endpoint e) else None
     | None \<Rightarrow> None) =
   (case m k of Some e \<Rightarrow> if t < de_expire_time e then Some (de_endpoint e) else None | None \<Rightarrow> None)"
  by (auto simp: erase_expired_def split: option.split)

lemmas dns_defs = get_udp_def put_udp_def get_tcp_def put_tcp_def cleanup_expired_def set_default_ttl_def

interpretation udp: expiring_cache get_udp dns_step udp_written dns_before
proof unfold_locales
  fix c p k w t
  show "udp_written c p k = Some w \<Longrightarrow> get_udp (dns_step c p) t k = live t (Some w)"
    by (cases p) (auto simp: dns_defs live_def split: if_splits)
next
  fix c p k t
  show "udp_written c p k = None \<Longrightarrow> dns_before p t \<Longrightarrow> get_udp (dns_step c p) t k = get_udp c t k"
    by (cases p) (auto simp: dns_defs erase_expired_get split: if_splits)
qed

interpretation tcp: expiring_cache get_tcp dns_step tcp_written dns_before
proof unfold_locales
  fix c p k w t
  show "tcp_written c p k = Some w \<Longrightarrow> get_tcp (dns_step c p) t k = live t (Some w)"
    by (cases p) (auto simp: dns_defs live_def split: if_splits)
next
  fix c p k t
  show "tcp_written c p k = None \<Longrightarrow> dns_before p t \<Longrightarrow> get_tcp (dns_step c p) t k = get_tcp c t k"
    by (cases p) (auto simp: dns_defs erase_expired_get split: if_splits)
qed

lemma get_new [simp]: "get_udp new_dns_cache t k = None" "get_tcp new_dns_cache t k = None"
  by (simp_all add: get_udp_def get_tcp_def new_dns_cache_def)

subsection \<open>Properties\<close>

text \<open>C21: whatever puts to either map, cleanups and changes of the default time to live happened before,
  a UDP lookup returns exactly the endpoint most recently put for that key, as long as the time to live
  in force at that put has not passed; a TCP lookup likewise. Cleanup is invisible and the two maps do
  not interfere.\<close>

theorem dns_lookup_history:
  assumes "\<forall>p \<in> set ps. dns_before p now"
  shows "get_udp (foldl dns_step new_dns_cache ps) now key =
      live now (last_write dns_step udp_written new_dns_cache ps key) \<and>
    get_tcp (foldl dns_step new_dns_cache ps) now key =
      live now (last_write dns_step tcp_written new_dns_cache ps key)"
  using udp.get_history [OF assms, of new_dns_cache key] tcp.get_history [OF assms, of new_dns_cache key]
  by (simp add: live_def split: option.split)

theorem dns_lookup_history_witness:
  "let ep = \<lparr>ep_addr = Ip4 1 2 3 4, ep_port = 53\<rparr>;
       ps = [Set_default_ttl 60, Put_udp 100 [97] ep, Cleanup_expired 150] in
   get_udp (foldl dns_step new_dns_cache ps) 159 [97] = Some ep \<and>
   get_udp (foldl dns_step new_dns_cache ps) 160 [97] = None \<and>
   get_tcp (foldl dns_step new_dns_cache ps) 159 [97] = None"
proof -
  let ?ep = "\<lparr>ep_addr = Ip4 1 2 3 4, ep_port = 53\<rparr>"
  let ?ps = "[Set_default_ttl 60, Put_udp 100 [97] ?ep, Cleanup_expired 150]"
  have a: "\<forall>p \<in> set ?ps. dns_before p 159" and b: "\<forall>p \<in> set ?ps. dns_before p 160"
    by simp_all
  show ?thesis
    using dns_lookup_history [OF a, of "[97]"] dns_lookup_history [OF b, of "[97]"]
    by (simp add: Let_def live_def set_default_ttl_def new_dns_cache_def)
qed

text \<open>The text key determines the host and the port, even for hosts that contain colons, so two
  different targets never share a cache entry.\<close>

lemma dns_key_injective:
  "dns_key h p = dns_key h' p' \<longleftrightarrow> h = h' \<and> p = p'"
  unfolding dns_key_def by (rule key_text_inj)

end
