(* ===== verification/IoContextPool.thy ===== *)
theory IoContextPool
  imports Prelude
begin

text \<open>
  \<^verbatim>\<open>Shared/IoContextPool.{h,cpp}\<close>: the pool of \<open>io_context\<close> objects. A context is represented by
  its index; the round-robin counter is an atomic 64-bit \<open>size_t\<close>, so every call is one step and the
  counter wraps.
\<close>

subsection \<open>Model\<close>

record io_pool =
  ip_size :: nat
  ip_running :: "bool list"
  ip_next :: u64

definition pool_new :: "nat \<Rightarrow> io_pool res" where
  "pool_new pool_size =
     (if pool_size = 0 then Inl Runtime_error
      else Inr \<lparr>ip_size = pool_size, ip_running = replicate pool_size False, ip_next = 0\<rparr>)"

text \<open>\<open>run\<close> starts one thread per context; \<open>stop\<close> stops them all.\<close>

definition pool_run :: "io_pool \<Rightarrow> io_pool" where
  "pool_run p = p\<lparr>ip_running := map (\<lambda>_. True) (ip_running p)\<rparr>"

definition pool_stop :: "io_pool \<Rightarrow> io_pool" where
  "pool_stop p = p\<lparr>ip_running := map (\<lambda>_. False) (ip_running p)\<rparr>"

definition get_io_context :: "io_pool \<Rightarrow> nat \<times> io_pool" where
  "get_io_context p = (unat (ip_next p) mod ip_size p, p\<lparr>ip_next := ip_next p + 1\<rparr>)"

text \<open>The contexts handed out by \<open>k\<close> successive calls.\<close>

fun handed_out :: "nat \<Rightarrow> io_pool \<Rightarrow> nat list" where
  "handed_out 0 p = []"
| "handed_out (Suc k) p = fst (get_io_context p) # handed_out k (snd (get_io_context p))"

subsection \<open>Lemmas\<close>

lemma handed_out_eq:
  "unat (ip_next p) + k \<le> 2 ^ 64 \<Longrightarrow>
   handed_out k p = map (\<lambda>j. j mod ip_size p) [unat (ip_next p)..<unat (ip_next p) + k]"
proof (induction k arbitrary: p)
  case (Suc k)
  let ?q = "snd (get_io_context p)"
  have q: "ip_size ?q = ip_size p" "ip_next ?q = ip_next p + 1"
    by (simp_all add: get_io_context_def)
  show ?case
  proof (cases "unat (ip_next p) + 1 < 2 ^ 64")
    case True
    then have u: "unat (ip_next p + 1) = unat (ip_next p) + 1"
      by (simp add: unat_word_ariths)
    then have "handed_out k ?q = map (\<lambda>j. j mod ip_size p) [unat (ip_next p) + 1..<unat (ip_next p) + 1 + k]"
      using Suc q by simp
    then show ?thesis
      by (simp add: get_io_context_def upt_conv_Cons del: upt_Suc)
  next
    case False
    then have "k = 0"
      using Suc.prems by simp
    then show ?thesis
      by (simp add: get_io_context_def)
  qed
qed simp

lemma count_mod_block: "i < n \<Longrightarrow> length (filter (\<lambda>j. j mod n = i) [a..<a + n]) = 1"
proof -
  assume i: "i < n"
  have "\<exists>!j. j \<in> {a..<a + n} \<and> j mod n = i"
  proof -
    let ?j = "a + ((i + n - a mod n) mod n)"
    have "(a + (i + n - a mod n)) mod n = i"
    proof -
      have "a mod n < n"
        using i by simp
      then have "a + (i + n - a mod n) = n * (a div n) + (i + n)"
        by (simp add: minus_mod_eq_mult_div [symmetric])
      then show ?thesis
        using i by simp
    qed
    then have "?j mod n = i"
      by (simp add: mod_add_right_eq)
    moreover have "?j \<in> {a..<a + n}"
      using i by simp
    moreover have "j = j'" if "j \<in> {a..<a + n}" "j' \<in> {a..<a + n}" "j mod n = j' mod n" for j j'
    proof -
      have "j - a < n" "j' - a < n" "(j - a) mod n = (j' - a) mod n" "a \<le> j" "a \<le> j'"
        using that by (auto simp: nat_mod_eq_iff) (metis add.commute le_add_diff_inverse2 nat_mod_eq_iff)
      then show ?thesis
        by simp
    qed
    ultimately show ?thesis
      by blast
  qed
  then obtain j where j: "j \<in> {a..<a + n}" "j mod n = i" "\<And>k. k \<in> {a..<a + n} \<Longrightarrow> k mod n = i \<Longrightarrow> k = j"
    by blast
  have "{k \<in> {a..<a + n}. k mod n = i} = {j}"
    using j by blast
  then show ?thesis
    using distinct_card [of "filter (\<lambda>j. j mod n = i) [a..<a + n]"] by simp
qed

lemma count_mod_blocks:
  "i < n \<Longrightarrow> length (filter (\<lambda>j. j mod n = i) [a..<a + m * n]) = m"
proof (induction m arbitrary: a)
  case (Suc m)
  have "[a..<a + Suc m * n] = [a..<a + n] @ [a + n..<a + n + m * n]"
    using upt_add_eq_append [of a "a + n" "m * n"] by (simp add: add.assoc)
  then show ?case
    using Suc count_mod_block [of i n a] by simp
qed simp

subsection \<open>Properties\<close>

text \<open>C28: a pool is never empty, every context handed out exists, and until the 64-bit counter wraps any
  run of \<open>m\<close> rounds of calls, starting anywhere, uses every context exactly \<open>m\<close> times.\<close>

theorem pool_round_robin:
  assumes "0 < ip_size p" and "unat (ip_next p) + m * ip_size p \<le> 2 ^ 64" and "i < ip_size p"
  shows "pool_new 0 = Inl Runtime_error \<and>
    fst (get_io_context p) < ip_size p \<and>
    length (filter (\<lambda>c. c = i) (handed_out (m * ip_size p) p)) = m"
proof -
  have "filter (\<lambda>c. c = i) (handed_out (m * ip_size p) p) =
      map (\<lambda>j. j mod ip_size p)
        (filter (\<lambda>j. j mod ip_size p = i) [unat (ip_next p)..<unat (ip_next p) + m * ip_size p])"
    using handed_out_eq [OF assms(2)] by (simp add: filter_map comp_def)
  then show ?thesis
    using assms count_mod_blocks [OF assms(3), of "unat (ip_next p)" m]
    by (simp add: pool_new_def get_io_context_def)
qed

theorem pool_round_robin_witness:
  "let p = \<lparr>ip_size = 3, ip_running = [True, True, True], ip_next = 7\<rparr>
   in length (filter (\<lambda>c. c = 2) (handed_out 6 p)) = 2"
proof -
  let ?p = "\<lparr>ip_size = 3, ip_running = [True, True, True], ip_next = 7\<rparr>"
  show ?thesis
    using pool_round_robin [of ?p 2 2] by (simp add: Let_def)
qed

end
