(* ===== verification/SessionBuffer.thy ===== *)
theory SessionBuffer
  imports Prelude
begin

text \<open>
  \<open>SessionBuffer\<close> of \<^verbatim>\<open>Server/Session.h\<close>, the ring buffer between the two sockets of a session, and
  the copy loop of \<open>Session::enqueue_write\<close> that fills it. The interface \<open>byte_fifo\<close> states what the
  session relies on: a bounded queue of bytes.
\<close>

subsection \<open>Model\<close>

record ring =
  rb_buf :: bytes
  rb_capacity :: nat
  rb_read_pos :: nat
  rb_used :: nat

definition ring_new :: "nat \<Rightarrow> ring" where
  "ring_new cap = \<lparr>rb_buf = replicate cap 0, rb_capacity = cap, rb_read_pos = 0, rb_used = 0\<rparr>"

text \<open>\<open>prepare\<close>: the offset of the writable region and its length (the in-out parameter).\<close>

definition ring_prepare :: "ring \<Rightarrow> nat \<Rightarrow> nat \<times> nat" where
  "ring_prepare r len =
     (let avail = sz_sub (rb_capacity r) (rb_used r) in
      if avail = 0 then (0, 0)
      else let n = min len avail;
               wpos = (rb_read_pos r + rb_used r) mod rb_capacity r;
               n = min n (rb_capacity r - wpos)
           in (wpos, n))"

definition ring_commit :: "ring \<Rightarrow> nat \<Rightarrow> ring" where
  "ring_commit r n = r\<lparr>rb_used := rb_used r + n\<rparr>"

definition ring_peek :: "ring \<Rightarrow> bytes" where
  "ring_peek r =
     (let n = min (rb_used r) (rb_capacity r - rb_read_pos r) in take n (drop (rb_read_pos r) (rb_buf r)))"

definition ring_consume :: "ring \<Rightarrow> nat \<Rightarrow> ring" where
  "ring_consume r n =
     r\<lparr>rb_read_pos := (rb_read_pos r + n) mod rb_capacity r, rb_used := sz_sub (rb_used r) n\<rparr>"

definition ring_empty :: "ring \<Rightarrow> bool" where
  "ring_empty r \<longleftrightarrow> rb_used r = 0"

definition ring_size :: "ring \<Rightarrow> nat" where
  "ring_size r = rb_used r"

definition ring_has_space :: "ring \<Rightarrow> nat \<Rightarrow> bool" where
  "ring_has_space r n \<longleftrightarrow> rb_used r + n \<le> rb_capacity r"

definition ring_reset :: "ring \<Rightarrow> ring" where
  "ring_reset r = r\<lparr>rb_read_pos := 0, rb_used := 0\<rparr>"

text \<open>\<open>memcpy(buf.data(), data, n)\<close> into the prepared region.\<close>

definition ring_memcpy :: "ring \<Rightarrow> nat \<Rightarrow> bytes \<Rightarrow> ring" where
  "ring_memcpy r wpos d =
     r\<lparr>rb_buf := take wpos (rb_buf r) @ d @ drop (wpos + length d) (rb_buf r)\<rparr>"

text \<open>The \<open>while (remaining > 0)\<close> loop of \<open>enqueue_write\<close>; \<open>data\<close> is what is left to copy.\<close>

function ring_enqueue :: "ring \<Rightarrow> bytes \<Rightarrow> ring" where
  "ring_enqueue r data =
     (if length data > 0 then
        (let (wpos, n) = ring_prepare r (length data) in
         if n = 0 then r
         else ring_enqueue (ring_commit (ring_memcpy r wpos (take n data)) n) (drop n data))
      else r)"
  by pat_completeness auto
termination
  by (relation "measure (\<lambda>(_, d). length d)") auto

declare ring_enqueue.simps [simp del]

subsection \<open>Invariant and contents\<close>

definition ring_inv :: "ring \<Rightarrow> bool" where
  "ring_inv r \<longleftrightarrow> 0 < rb_capacity r \<and> length (rb_buf r) = rb_capacity r \<and>
     rb_read_pos r < rb_capacity r \<and> rb_used r \<le> rb_capacity r"

definition ring_contents :: "ring \<Rightarrow> bytes" where
  "ring_contents r = take (rb_used r) (drop (rb_read_pos r) (rb_buf r) @ take (rb_read_pos r) (rb_buf r))"

lemma ring_new_inv: "0 < cap \<Longrightarrow> ring_inv (ring_new cap) \<and> ring_contents (ring_new cap) = []"
  by (simp add: ring_inv_def ring_new_def ring_contents_def)

lemma ring_reset_inv: "ring_inv r \<Longrightarrow> ring_inv (ring_reset r) \<and> ring_contents (ring_reset r) = []"
  by (auto simp: ring_inv_def ring_reset_def ring_contents_def)

lemma length_ring_contents: "ring_inv r \<Longrightarrow> length (ring_contents r) = rb_used r"
  by (auto simp: ring_inv_def ring_contents_def)

lemma ring_empty_contents: "ring_inv r \<Longrightarrow> ring_empty r \<longleftrightarrow> ring_contents r = []"
  using length_ring_contents [of r] by (auto simp: ring_empty_def)

lemma ring_has_space_capacity:
  "ring_inv r \<Longrightarrow> ring_has_space r (rb_capacity r) \<longleftrightarrow> ring_contents r = []"
  using length_ring_contents [of r] by (auto simp: ring_has_space_def)

lemma ring_peek_contents:
  assumes "ring_inv r"
  shows "ring_peek r = take (rb_capacity r - rb_read_pos r) (ring_contents r)"
  using assms by (auto simp: ring_peek_def ring_contents_def ring_inv_def Let_def min_def)

lemma ring_peek_prefix:
  assumes "ring_inv r"
  shows "\<exists>rest. ring_contents r = ring_peek r @ rest"
  unfolding ring_peek_contents [OF assms] by (metis append_take_drop_id)

lemma ring_peek_ne:
  assumes "ring_inv r" and "ring_contents r \<noteq> []"
  shows "ring_peek r \<noteq> []"
  using assms unfolding ring_peek_contents [OF assms(1)] by (simp add: ring_inv_def)

lemma ring_consume_contents:
  assumes "ring_inv r" and "n \<le> length (ring_peek r)"
  shows "ring_inv (ring_consume r n) \<and> ring_contents (ring_consume r n) = drop n (ring_contents r)"
proof -
  have n: "n \<le> rb_used r" "n \<le> rb_capacity r - rb_read_pos r"
    using assms by (auto simp: ring_peek_def Let_def ring_inv_def)
  have inv: "ring_inv (ring_consume r n)"
    using assms(1) n by (auto simp: ring_inv_def ring_consume_def)
  show ?thesis
  proof (cases "rb_read_pos r + n < rb_capacity r")
    case True
    let ?x = "drop (rb_read_pos r) (rb_buf r)" and ?y = "take (rb_read_pos r) (rb_buf r)"
    have "drop (rb_read_pos r + n) (rb_buf r) = drop n ?x" "drop n (?x @ ?y) = drop n ?x @ ?y"
      using True assms(1) by (simp_all add: ring_inv_def add.commute)
    then have "drop (rb_read_pos r + n) (rb_buf r) @ take (rb_read_pos r + n) (rb_buf r) =
        drop n (?x @ ?y) @ take n ?x"
      by (simp add: take_add)
    then have "ring_contents (ring_consume r n) = take (rb_used r - n) (drop n (?x @ ?y) @ take n ?x)"
      using True n by (simp add: ring_contents_def ring_consume_def)
    also have "\<dots> = take (rb_used r - n) (drop n (?x @ ?y))"
    proof -
      have "rb_used r - n \<le> length (drop n (?x @ ?y))"
        using assms(1) by (simp add: ring_inv_def) linarith
      moreover have "k \<le> length a \<Longrightarrow> take k (a @ b) = take k a" for k and a b :: bytes
        by simp
      ultimately show ?thesis
        by blast
    qed
    also have "\<dots> = drop n (ring_contents r)"
      by (simp only: ring_contents_def drop_take)
    finally show ?thesis
      using inv by blast
  next
    case False
    then have eq: "rb_read_pos r + n = rb_capacity r"
      using n assms(1) by (auto simp: ring_inv_def)
    then have "rb_used r - n = rb_used r + rb_read_pos r - rb_capacity r"
      by (simp add: eq [symmetric])
    then show ?thesis
      using inv assms(1) n eq
      by (auto simp: ring_contents_def ring_consume_def ring_inv_def drop_take)
  qed
qed

text \<open>One round of the copy loop appends its chunk.\<close>

lemma ring_chunk:
  assumes "ring_inv r" and "ring_prepare r len = (wpos, n)" and "length d = n"
  defines "r' \<equiv> ring_commit (ring_memcpy r wpos d) n"
  shows "ring_inv r' \<and> rb_capacity r' = rb_capacity r \<and> ring_contents r' = ring_contents r @ d"
proof (cases "n = 0")
  case True
  then show ?thesis
    using assms by (auto simp: ring_commit_def ring_memcpy_def)
next
  case False
  have w: "wpos = (rb_read_pos r + rb_used r) mod rb_capacity r"
    and n: "n \<le> rb_capacity r - rb_used r" "n \<le> rb_capacity r - wpos" and u: "rb_used r < rb_capacity r"
    using assms(1,2) False by (auto simp: ring_prepare_def ring_inv_def Let_def split: if_splits)
  have wc: "wpos < rb_capacity r"
    using assms(1) w by (simp add: ring_inv_def)
  have inv: "ring_inv r'"
    using assms(1,3) n wc u by (auto simp: r'_def ring_inv_def ring_commit_def ring_memcpy_def)
  show ?thesis
  proof (cases "rb_read_pos r + rb_used r < rb_capacity r")
    case True
    then have wp: "wpos = rb_read_pos r + rb_used r"
      using w by simp
    let ?o = "take (rb_used r) (drop (rb_read_pos r) (rb_buf r))"
    have len: "length (rb_buf r) = rb_capacity r"
      using assms(1) by (simp add: ring_inv_def)
    have "ring_contents r = ?o"
      using True len by (simp add: ring_contents_def)
    moreover have "drop (rb_read_pos r) (rb_buf r') = ?o @ d @ drop (wpos + n) (rb_buf r)"
      using wp True len assms(3) by (simp add: r'_def ring_commit_def ring_memcpy_def drop_take)
    moreover have o: "length ?o = rb_used r"
      using True len by simp
    moreover have "rb_read_pos r' = rb_read_pos r" "rb_used r' = rb_used r + n" "rb_capacity r' = rb_capacity r"
      by (simp_all add: r'_def ring_commit_def ring_memcpy_def)
    moreover have "take (rb_used r + n) ((?o @ d @ t) @ t') = ?o @ d" for t t'
      using o assms(3) by simp
    ultimately show ?thesis
      using inv by (simp only: ring_contents_def)
  next
    case False
    then have wp: "wpos = rb_read_pos r + rb_used r - rb_capacity r"
      using w assms(1) by (auto simp: ring_inv_def mod_if)
    have len: "length (rb_buf r) = rb_capacity r" and rc: "rb_read_pos r < rb_capacity r"
      using assms(1) by (simp_all add: ring_inv_def)
    let ?x = "drop (rb_read_pos r) (rb_buf r)"
    have wr: "wpos + n \<le> rb_read_pos r" and ur: "rb_used r = length ?x + wpos"
      using wp n(1) u False len rc by auto
    have "ring_contents r = ?x @ take wpos (rb_buf r)"
      using wr ur by (simp add: ring_contents_def min_absorb1)
    moreover have "drop (rb_read_pos r) (rb_buf r') = ?x"
      using wr len rc assms(3) by (simp add: r'_def ring_commit_def ring_memcpy_def)
    moreover have "take (wpos + n) (rb_buf r') = take wpos (rb_buf r) @ d"
      using wr len rc assms(3) by (simp add: r'_def ring_commit_def ring_memcpy_def)
    moreover have "rb_read_pos r' = rb_read_pos r" "rb_used r' = rb_used r + n" "rb_capacity r' = rb_capacity r"
      by (simp_all add: r'_def ring_commit_def ring_memcpy_def)
    ultimately show ?thesis
      using inv wr ur by (simp add: ring_contents_def min_absorb1)
  qed
qed

lemma ring_prepare_pos:
  assumes "ring_inv r" and "0 < len" and "rb_used r < rb_capacity r"
  shows "0 < snd (ring_prepare r len) \<and> snd (ring_prepare r len) \<le> min len (rb_capacity r - rb_used r)"
  using assms by (auto simp: ring_prepare_def ring_inv_def Let_def)

text \<open>The loop copies as much as fits.\<close>

lemma ring_enqueue_contents:
  "ring_inv r \<Longrightarrow>
   ring_inv (ring_enqueue r data) \<and> rb_capacity (ring_enqueue r data) = rb_capacity r \<and>
   ring_contents (ring_enqueue r data) = ring_contents r @ take (rb_capacity r - rb_used r) data"
proof (induction r data rule: ring_enqueue.induct)
  case (1 r data)
  show ?case
  proof (cases "data = [] \<or> rb_used r = rb_capacity r")
    case True
    then show ?thesis
      using 1(2) by (subst ring_enqueue.simps, subst ring_enqueue.simps, subst ring_enqueue.simps)
        (auto simp: ring_prepare_def)
  next
    case False
    obtain wpos n where p: "ring_prepare r (length data) = (wpos, n)"
      by (cases "ring_prepare r (length data)")
    have u: "rb_used r < rb_capacity r"
      using False 1(2) by (auto simp: ring_inv_def)
    have n: "0 < n" "n \<le> length data" "n \<le> rb_capacity r - rb_used r"
      using ring_prepare_pos [OF 1(2) _ u, of "length data"] False p by auto
    let ?r = "ring_commit (ring_memcpy r wpos (take n data)) n"
    have c: "ring_inv ?r" "rb_capacity ?r = rb_capacity r" "ring_contents ?r = ring_contents r @ take n data"
      using ring_chunk [OF 1(2) p, of "take n data"] n by simp_all
    have used: "rb_used ?r = rb_used r + n"
      by (simp add: ring_commit_def ring_memcpy_def)
    have "ring_enqueue r data = ring_enqueue ?r (drop n data)"
      using False n by (subst ring_enqueue.simps) (simp add: p)
    moreover have "ring_inv (ring_enqueue ?r (drop n data)) \<and>
        rb_capacity (ring_enqueue ?r (drop n data)) = rb_capacity ?r \<and>
        ring_contents (ring_enqueue ?r (drop n data)) =
          ring_contents ?r @ take (rb_capacity ?r - rb_used ?r) (drop n data)"
      using 1(1) [of "(wpos, n)" wpos n] False n p c(1) by simp
    moreover have "take n data @ take (rb_capacity r - (rb_used r + n)) (drop n data) =
        take (rb_capacity r - rb_used r) data"
      using n take_add [of n "rb_capacity r - (rb_used r + n)" data] by simp
    ultimately show ?thesis
      using c used by simp
  qed
qed

subsection \<open>The interface\<close>

text \<open>
  A bounded queue of bytes: what is put in comes out in order, the head can be looked at and partly
  consumed. \<open>fifo_history\<close> is what a relay gets from it: over any sequence of operations, what went
  in is what came out followed by what is still inside.
\<close>

datatype fifo_op = Enqueue bytes | Consume nat

locale byte_fifo =
  fixes inv :: "'s \<Rightarrow> bool"
    and contents :: "'s \<Rightarrow> bytes"
    and cap :: "'s \<Rightarrow> nat"
    and enq :: "'s \<Rightarrow> bytes \<Rightarrow> 's"
    and peek :: "'s \<Rightarrow> bytes"
    and consume :: "'s \<Rightarrow> nat \<Rightarrow> 's"
  assumes bounded: "inv q \<Longrightarrow> length (contents q) \<le> cap q"
    and peek_head: "inv q \<Longrightarrow> \<exists>rest. contents q = peek q @ rest"
    and peek_progress: "inv q \<Longrightarrow> contents q \<noteq> [] \<Longrightarrow> peek q \<noteq> []"
    and enq_ok: "inv q \<Longrightarrow> length (contents q) + length d \<le> cap q \<Longrightarrow>
      inv (enq q d) \<and> cap (enq q d) = cap q \<and> contents (enq q d) = contents q @ d"
    and consume_ok: "inv q \<Longrightarrow> n \<le> length (peek q) \<Longrightarrow>
      inv (consume q n) \<and> cap (consume q n) = cap q \<and> contents (consume q n) = drop n (contents q)"
begin

fun run :: "'s \<Rightarrow> fifo_op list \<Rightarrow> 's" where
  "run q [] = q"
| "run q (Enqueue d # ps) = run (enq q d) ps"
| "run q (Consume n # ps) = run (consume q n) ps"

fun admissible :: "'s \<Rightarrow> fifo_op list \<Rightarrow> bool" where
  "admissible q [] = True"
| "admissible q (Enqueue d # ps) = (length (contents q) + length d \<le> cap q \<and> admissible (enq q d) ps)"
| "admissible q (Consume n # ps) = (n \<le> length (peek q) \<and> admissible (consume q n) ps)"

fun put_in :: "fifo_op list \<Rightarrow> bytes" where
  "put_in [] = []"
| "put_in (Enqueue d # ps) = d @ put_in ps"
| "put_in (Consume n # ps) = put_in ps"

fun taken_out :: "'s \<Rightarrow> fifo_op list \<Rightarrow> bytes" where
  "taken_out q [] = []"
| "taken_out q (Enqueue d # ps) = taken_out (enq q d) ps"
| "taken_out q (Consume n # ps) = take n (peek q) @ taken_out (consume q n) ps"

lemma consumed_split:
  assumes "inv q" and "n \<le> length (peek q)"
  shows "contents q = take n (peek q) @ contents (consume q n)"
proof -
  obtain rest where "contents q = peek q @ rest"
    using peek_head [OF assms(1)] by blast
  then have "take n (contents q) = take n (peek q)"
    using assms(2) by simp
  then show ?thesis
    using consume_ok [OF assms] append_take_drop_id [of n "contents q"] by simp
qed

lemma fifo_history:
  "inv q \<Longrightarrow> admissible q ps \<Longrightarrow>
   inv (run q ps) \<and> contents q @ put_in ps = taken_out q ps @ contents (run q ps)"
proof (induction ps arbitrary: q)
  case (Cons p ps)
  show ?case
  proof (cases p)
    case (Enqueue d)
    then show ?thesis
      using Cons.IH [of "enq q d"] Cons.prems enq_ok [of q d] by simp
  next
    case (Consume n)
    then have c: "inv (consume q n)" "admissible (consume q n) ps" "contents q = take n (peek q) @ contents (consume q n)"
      using Cons.prems consume_ok consumed_split by auto
    show ?thesis
      using Cons.IH [OF c(1,2)] c(3) Consume by simp
  qed
qed simp

end

interpretation session_ring: byte_fifo ring_inv ring_contents rb_capacity ring_enqueue ring_peek ring_consume
proof unfold_locales
  fix q n
  assume "ring_inv q" "n \<le> length (ring_peek q)"
  then show "ring_inv (ring_consume q n) \<and> rb_capacity (ring_consume q n) = rb_capacity q \<and>
      ring_contents (ring_consume q n) = drop n (ring_contents q)"
    using ring_consume_contents [of q n] by (simp add: ring_consume_def)
next
  fix q and d :: bytes
  assume "ring_inv q" "length (ring_contents q) + length d \<le> rb_capacity q"
  then show "ring_inv (ring_enqueue q d) \<and> rb_capacity (ring_enqueue q d) = rb_capacity q \<and>
      ring_contents (ring_enqueue q d) = ring_contents q @ d"
    using ring_enqueue_contents [of q d] length_ring_contents [of q] by simp
next
  fix q
  assume "ring_inv q"
  then show "length (ring_contents q) \<le> rb_capacity q" and "\<exists>rest. ring_contents q = ring_peek q @ rest"
    using length_ring_contents [of q] ring_peek_prefix [of q] by (simp_all add: ring_inv_def)
next
  fix q
  assume "ring_inv q" "ring_contents q \<noteq> []"
  then show "ring_peek q \<noteq> []"
    by (rule ring_peek_ne)
qed

subsection \<open>Properties\<close>

text \<open>C4: the ring buffer refines a bounded queue of bytes: the copy loop of enqueue_write always ends and
  appends exactly the part of its data that fits, wherever the write position is and however the region
  wraps; peek shows a non-empty head of a non-empty queue; consuming part of what peek shows removes
  exactly that part; and the buffer's invariant is kept.\<close>

theorem ring_refines_queue:
  assumes "ring_inv r" and "n \<le> length (ring_peek r)"
  shows "ring_inv (ring_enqueue r data) \<and>
    ring_contents (ring_enqueue r data) = ring_contents r @ take (rb_capacity r - rb_used r) data \<and>
    (ring_empty r \<longleftrightarrow> ring_contents r = []) \<and>
    (ring_peek r = [] \<longleftrightarrow> ring_contents r = []) \<and>
    ring_inv (ring_consume r n) \<and>
    ring_contents r = take n (ring_peek r) @ ring_contents (ring_consume r n)"
proof -
  have "ring_peek r = [] \<longleftrightarrow> ring_contents r = []"
    using ring_peek_ne [OF assms(1)] ring_peek_contents [OF assms(1)] by auto
  then show ?thesis
    using assms ring_enqueue_contents [of r data] ring_empty_contents [of r]
      session_ring.consume_ok [OF assms] session_ring.consumed_split [OF assms] by blast
qed

theorem ring_refines_queue_witness:
  "let r = \<lparr>rb_buf = [4, 0, 1, 2, 3], rb_capacity = 5, rb_read_pos = 2, rb_used = 4\<rparr>
   in ring_contents r = [1, 2, 3, 4] \<and> ring_contents (ring_enqueue r [7, 8]) = [1, 2, 3, 4, 7] \<and>
      ring_contents (ring_consume r 2) = [3, 4]"
proof -
  let ?r = "\<lparr>rb_buf = [4, 0, 1, 2, 3], rb_capacity = 5, rb_read_pos = 2, rb_used = 4\<rparr>"
  have inv: "ring_inv ?r" and c: "ring_contents ?r = [1, 2, 3, 4]" and p: "ring_peek ?r = [1, 2, 3]"
    by (simp_all add: ring_inv_def ring_contents_def ring_peek_def)
  have "2 \<le> length (ring_peek ?r)"
    by (simp add: p)
  from ring_refines_queue [OF inv this, of "[7, 8]"] show ?thesis
    by (simp add: Let_def c p)
qed

end
