(* ===== verification/Asio.thy ===== *)
theory Asio
  imports Endpoint "HOL-Library.Multiset"
begin

text \<open>
  What the sessions use of Boost.Asio. An asynchronous operation that was started stays in a session's list of
  pending operations until it completes; its handler gets a \<open>completion\<close>. The list is compared as a
  multiset, since any pending operation may complete next.
\<close>

datatype session_kind = Tls | Websocket

datatype errc = Eof | Aborted | Failed

datatype completion = Error errc | Done | Data bytes | Sent nat | Results "endpoint list"

text \<open>\<open>async_read_some\<close> into a fixed vector overwrites its beginning.\<close>

definition fill :: "bytes \<Rightarrow> bytes \<Rightarrow> bytes" where
  "fill buf d = d @ drop (length d) buf"

lemma fill_take [simp]: "take (length d) (fill buf d) = d"
  by (simp add: fill_def)

lemma length_fill [simp]: "length d \<le> length buf \<Longrightarrow> length (fill buf d) = length buf"
  by (simp add: fill_def)

text \<open>Replacing one of two outstanding operations.\<close>

lemma pair_remove:
  assumes "mset xs = {#d, u#}" and "d \<noteq> u"
  shows "mset (remove1 d xs @ [q]) = {#q, u#} \<and> mset (remove1 u xs @ [q]) = {#d, q#} \<and> set xs = {d, u}"
proof -
  have "set xs = set_mset {#d, u#}"
    using assms(1) by (metis set_mset_mset)
  then show ?thesis
    using assms by (simp add: add_mset_commute)
qed

end
