(* ===== verification/ServerSession.thy ===== *)
theory ServerSession
  imports Asio SessionBuffer Trojan VRequest DnsCache
begin

text \<open>
  \<^verbatim>\<open>Server/Session.{h,cpp}\<close> with \<^verbatim>\<open>Server/TlsSession.cpp\<close> and \<^verbatim>\<open>Server/WebsocketSession.cpp\<close>: a proxy
  session on the server. The C++ class is a web of asynchronous operations and completion handlers run
  on one thread. Here an operation that was started and has not completed is an element of
  \<open>ss_pending\<close>; the methods of the class are functions on the session record that may add pending
  operations; a completion handler is applied by \<open>on_complete\<close> to an operation and its outcome. Any
  pending operation may complete next, with any outcome that fits it, so every interleaving of the
  handlers is covered. What the network, the resolver and the clock return are inputs.
\<close>

subsection \<open>Operations and outcomes\<close>

datatype session_state = HANDSHAKE | FORWARD | DESTROY

datatype direction = DIR_DOWN | DIR_UP | DIR_BOTH

datatype srv_op =
    Handshake
  | Ws_accept
  | Read_protocol
  | Tcp_resolve bytes bytes bytes
  | Connect endpoint
  | Write_payload bytes
  | Read_upstream
  | Read_downstream
  | Send_downstream bytes
  | Send_upstream bytes
  | Udp_first_read
  | Udp_first_resolve udp_packet bytes
  | Udp_first_send bytes endpoint
  | Udp_read_upstream
  | Udp_receive
  | Udp_resolve udp_packet bytes
  | Udp_send bytes endpoint
  | Udp_write_upstream bytes

text \<open>What a handler reads synchronously: the clock, and whether opening the UDP socket succeeds.\<close>

record sync_input =
  si_now :: int
  si_open_ok :: bool

definition MAX_BUFF_SIZE :: nat where
  "MAX_BUFF_SIZE = 64 * 1024"

record srv_session =
  ss_kind :: session_kind
  ss_state :: session_state
  ss_in_buf :: bytes
  ss_out_buf :: bytes
  ss_trojanReq :: trojan_req
  ss_v_req :: vrequest
  ss_password :: bytes
  ss_vprotocol :: bool
  ss_udp_buff :: bytes
  ss_udp_off :: nat
  ss_ring_down :: ring
  ss_ring_up :: ring
  ss_sending_down :: bool
  ss_sending_up :: bool
  ss_pausing_down :: bool
  ss_pausing_up :: bool
  ss_remote_host :: bytes
  ss_remote_port :: bytes
  ss_upstream_open :: bool
  ss_downstream_open :: bool
  ss_udp_open :: bool
  ss_dns :: dns_cache
  ss_pending :: "srv_op list"

definition new_socks5_address :: socks5_address where
  "new_socks5_address = \<lparr>sa_type = IPv4, sa_address = [], sa_port = 0\<rparr>"

definition new_udp_packet :: udp_packet where
  "new_udp_packet = \<lparr>up_address = new_socks5_address, up_length = 0, up_payload = []\<rparr>"

definition srv_new :: "session_kind \<Rightarrow> dns_cache \<Rightarrow> srv_session" where
  "srv_new kind dns =
     \<lparr>ss_kind = kind, ss_state = HANDSHAKE,
      ss_in_buf = replicate MAX_BUFF_SIZE 0, ss_out_buf = replicate MAX_BUFF_SIZE 0,
      ss_trojanReq = \<lparr>tr_command = T_CONNECT, tr_password = [], tr_address = new_socks5_address, tr_payload = []\<rparr>,
      ss_v_req = \<lparr>vr_version = 0, vr_len = 0, vr_user_name = [], vr_password = [], vr_address = [],
                  vr_port = 0, vr_packed_buff = []\<rparr>,
      ss_password = [], ss_vprotocol = False, ss_udp_buff = [], ss_udp_off = 0,
      ss_ring_down = ring_new (64 * 1024), ss_ring_up = ring_new (64 * 1024),
      ss_sending_down = False, ss_sending_up = False, ss_pausing_down = False, ss_pausing_up = False,
      ss_remote_host = [], ss_remote_port = [],
      ss_upstream_open = True, ss_downstream_open = False, ss_udp_open = False,
      ss_dns = dns, ss_pending = []\<rparr>"

definition start_op :: "srv_op \<Rightarrow> srv_session \<Rightarrow> srv_session" where
  "start_op p s = s\<lparr>ss_pending := ss_pending s @ [p]\<rparr>"

subsection \<open>Destroy\<close>

text \<open>\<open>Session<T>::destroy\<close>, then the overrides in \<open>TlsSession\<close> and \<open>WebsocketSession\<close>, which differ in the
  order in which the two sides are closed, and the virtual call.\<close>

definition base_destroy :: "srv_session \<Rightarrow> srv_session" where
  "base_destroy s =
     s\<lparr>ss_ring_down := ring_reset (ss_ring_down s), ss_ring_up := ring_reset (ss_ring_up s),
       ss_sending_down := False, ss_sending_up := False,
       ss_pausing_down := False, ss_pausing_up := False,
       ss_udp_open := False, ss_downstream_open := False\<rparr>"

definition tls_destroy :: "srv_session \<Rightarrow> srv_session" where
  "tls_destroy s =
     (if ss_state s = DESTROY then s
      else (base_destroy (s\<lparr>ss_state := DESTROY\<rparr>))\<lparr>ss_upstream_open := False\<rparr>)"

definition ws_destroy :: "srv_session \<Rightarrow> srv_session" where
  "ws_destroy s =
     (if ss_state s = DESTROY then s
      else base_destroy (s\<lparr>ss_state := DESTROY, ss_upstream_open := False\<rparr>))"

definition srv_destroy :: "srv_session \<Rightarrow> srv_session" where
  srv_destroy_virtual: "srv_destroy s = (case ss_kind s of Tls \<Rightarrow> tls_destroy s | Websocket \<Rightarrow> ws_destroy s)"

lemma srv_destroy_def:
  "srv_destroy s =
     (if ss_state s = DESTROY then s
      else (base_destroy (s\<lparr>ss_state := DESTROY\<rparr>))\<lparr>ss_upstream_open := False\<rparr>)"
  by (simp add: srv_destroy_virtual tls_destroy_def ws_destroy_def base_destroy_def split: session_kind.splits)

subsection \<open>TCP relay\<close>

definition async_bidirectional_read :: "direction \<Rightarrow> srv_session \<Rightarrow> srv_session" where
  "async_bidirectional_read dir s =
     (let s = (if dir = DIR_DOWN \<or> dir = DIR_BOTH then start_op Read_upstream s else s)
      in if dir = DIR_UP \<or> dir = DIR_BOTH then start_op Read_downstream s else s)"

definition do_send_down :: "srv_session \<Rightarrow> srv_session" where
  "do_send_down s =
     (if ring_empty (ss_ring_down s) then
        let s = s\<lparr>ss_sending_down := False\<rparr> in
        if ss_pausing_down s then async_bidirectional_read DIR_DOWN (s\<lparr>ss_pausing_down := False\<rparr>) else s
      else start_op (Send_downstream (ring_peek (ss_ring_down s))) s)"

definition do_send_up :: "srv_session \<Rightarrow> srv_session" where
  "do_send_up s =
     (if ring_empty (ss_ring_up s) then
        let s = s\<lparr>ss_sending_up := False\<rparr> in
        if ss_pausing_up s then async_bidirectional_read DIR_UP (s\<lparr>ss_pausing_up := False\<rparr>) else s
      else start_op (Send_upstream (ring_peek (ss_ring_up s))) s)"

definition enqueue_write :: "direction \<Rightarrow> bytes \<Rightarrow> srv_session \<Rightarrow> srv_session" where
  "enqueue_write dir data s =
     (if dir = DIR_DOWN then
        let s = s\<lparr>ss_ring_down := ring_enqueue (ss_ring_down s) data\<rparr> in
        if \<not> ss_sending_down s then do_send_down (s\<lparr>ss_sending_down := True\<rparr>) else s
      else
        let s = s\<lparr>ss_ring_up := ring_enqueue (ss_ring_up s) data\<rparr> in
        if \<not> ss_sending_up s then do_send_up (s\<lparr>ss_sending_up := True\<rparr>) else s)"

definition async_bidirectional_write :: "direction \<Rightarrow> nat \<Rightarrow> srv_session \<Rightarrow> srv_session" where
  "async_bidirectional_write dir len s = (case dir of
     DIR_DOWN \<Rightarrow>
       let s = enqueue_write DIR_DOWN (take len (ss_in_buf s)) s in
       if ring_has_space (ss_ring_down s) MAX_BUFF_SIZE then async_bidirectional_read DIR_DOWN s
       else s\<lparr>ss_pausing_down := True\<rparr>
   | DIR_UP \<Rightarrow>
       let s = enqueue_write DIR_UP (take len (ss_out_buf s)) s in
       if ring_has_space (ss_ring_up s) MAX_BUFF_SIZE then async_bidirectional_read DIR_UP s
       else s\<lparr>ss_pausing_up := True\<rparr>
   | DIR_BOTH \<Rightarrow> s)"

definition on_read_upstream :: "completion \<Rightarrow> srv_session \<Rightarrow> srv_session" where
  "on_read_upstream c s =
     (if ss_state s = DESTROY then s
      else case c of
        Data d \<Rightarrow> async_bidirectional_write DIR_DOWN (length d) (s\<lparr>ss_in_buf := fill (ss_in_buf s) d\<rparr>)
      | _ \<Rightarrow> srv_destroy s)"

definition on_read_downstream :: "completion \<Rightarrow> srv_session \<Rightarrow> srv_session" where
  "on_read_downstream c s =
     (if ss_state s = DESTROY then s
      else case c of
        Data d \<Rightarrow> async_bidirectional_write DIR_UP (length d) (s\<lparr>ss_out_buf := fill (ss_out_buf s) d\<rparr>)
      | _ \<Rightarrow> srv_destroy s)"

definition on_send_downstream :: "completion \<Rightarrow> srv_session \<Rightarrow> srv_session" where
  "on_send_downstream c s = (case c of
     Sent n \<Rightarrow> do_send_down (s\<lparr>ss_ring_down := ring_consume (ss_ring_down s) n\<rparr>)
   | _ \<Rightarrow> srv_destroy s)"

definition on_send_upstream :: "completion \<Rightarrow> srv_session \<Rightarrow> srv_session" where
  "on_send_upstream c s = (case c of
     Sent n \<Rightarrow> do_send_up (s\<lparr>ss_ring_up := ring_consume (ss_ring_up s) n\<rparr>)
   | _ \<Rightarrow> srv_destroy s)"

subsection \<open>Connecting\<close>

definition srv_payload :: "srv_session \<Rightarrow> bytes" where
  "srv_payload s = (if ss_vprotocol s then vr_packed_buff (ss_v_req s) else tr_payload (ss_trojanReq s))"

definition do_connect :: "endpoint \<Rightarrow> srv_session \<Rightarrow> srv_session" where
  "do_connect ep s = start_op (Connect ep) (s\<lparr>ss_state := FORWARD, ss_downstream_open := True\<rparr>)"

definition on_connect :: "completion \<Rightarrow> srv_session \<Rightarrow> srv_session" where
  "on_connect c s = (case c of
     Done \<Rightarrow>
       if srv_payload s \<noteq> [] then start_op (Write_payload (srv_payload s)) s
       else async_bidirectional_read DIR_BOTH s
   | _ \<Rightarrow> srv_destroy s)"

definition on_write_payload :: "completion \<Rightarrow> srv_session \<Rightarrow> srv_session" where
  "on_write_payload c s = (case c of
     Sent n \<Rightarrow> async_bidirectional_read DIR_BOTH s
   | _ \<Rightarrow> srv_destroy s)"

definition do_resolve :: "sync_input \<Rightarrow> srv_session \<Rightarrow> srv_session" where
  "do_resolve inp s =
     (let host = (if ss_vprotocol s then vr_address (ss_v_req s) else sa_address (tr_address (ss_trojanReq s)));
          port = (if ss_vprotocol s then vr_port (ss_v_req s) else sa_port (tr_address (ss_trojanReq s)));
          s = s\<lparr>ss_remote_host := host, ss_remote_port := to_dec (unat port)\<rparr>;
          key = dns_key host port
      in case get_tcp (ss_dns s) (si_now inp) key of
           Some ep \<Rightarrow> do_connect ep s
         | None \<Rightarrow> start_op (Tcp_resolve host (to_dec (unat port)) key) s)"

definition on_tcp_resolve :: "sync_input \<Rightarrow> bytes \<Rightarrow> completion \<Rightarrow> srv_session \<Rightarrow> srv_session" where
  "on_tcp_resolve inp key c s = (case c of
     Results (ep # _) \<Rightarrow> do_connect ep (s\<lparr>ss_dns := put_tcp (ss_dns s) (si_now inp) key ep\<rparr>)
   | _ \<Rightarrow> srv_destroy s)"

subsection \<open>UDP over the session\<close>

text \<open>The first IPv4 result, or the first result.\<close>

fun pick_v4 :: "endpoint \<Rightarrow> endpoint list \<Rightarrow> endpoint" where
  "pick_v4 dflt [] = dflt"
| "pick_v4 dflt (e # es) = (if is_v4 (ep_addr e) then e else pick_v4 dflt es)"

definition udp_key :: "udp_packet \<Rightarrow> bytes" where
  "udp_key u = dns_key (sa_address (up_address u)) (sa_port (up_address u))"

definition udp_upstream_read :: "srv_session \<Rightarrow> srv_session" where
  "udp_upstream_read s = start_op Udp_first_read s"

text \<open>The bytes not yet parsed, and the bookkeeping after a packet was taken off.\<close>

definition udp_remaining :: "srv_session \<Rightarrow> bytes res" where
  "udp_remaining s = rdn (ss_udp_buff s) (ss_udp_off s) (sz_sub (length (ss_udp_buff s)) (ss_udp_off s))"

definition udp_advance :: "nat \<Rightarrow> srv_session \<Rightarrow> srv_session" where
  "udp_advance packet_len s =
     (let s = s\<lparr>ss_udp_off := ss_udp_off s + packet_len\<rparr> in
      if ss_udp_off s > MAX_BUFF_SIZE div 2 \<and> ss_udp_off s < length (ss_udp_buff s) then
        s\<lparr>ss_udp_buff := drop (ss_udp_off s) (ss_udp_buff s), ss_udp_off := 0\<rparr>
      else s)"

definition udp_first_send :: "sync_input \<Rightarrow> bytes \<Rightarrow> endpoint \<Rightarrow> srv_session \<Rightarrow> srv_session" where
  "udp_first_send inp payload ep s =
     (if \<not> ss_udp_open s then
        (if \<not> si_open_ok inp then srv_destroy s
         else start_op (Udp_first_send payload ep) (s\<lparr>ss_udp_open := True\<rparr>))
      else start_op (Udp_first_send payload ep) s)"

definition handle_trojan_udp_proxy :: "sync_input \<Rightarrow> srv_session \<Rightarrow> srv_session res" where
  "handle_trojan_udp_proxy inp s =
     (let s = s\<lparr>ss_state := FORWARD\<rparr> in
      rbind (udp_remaining s) (\<lambda>remaining.
      rbind (up_parse new_udp_packet remaining 0) (\<lambda>(is_packet_valid, u, packet_len).
        if \<not> is_packet_valid then
          (if sz_sub (length (ss_udp_buff s)) (ss_udp_off s) > MAX_BUFF_SIZE then Inr (srv_destroy s)
           else Inr (udp_upstream_read s))
        else
          let s = udp_advance packet_len s in
          case get_udp (ss_dns s) (si_now inp) (udp_key u) of
            Some ep \<Rightarrow> Inr (udp_first_send inp (up_payload u) ep s)
          | None \<Rightarrow> Inr (start_op (Udp_first_resolve u (udp_key u)) s))))"

definition on_udp_first_read :: "sync_input \<Rightarrow> completion \<Rightarrow> srv_session \<Rightarrow> srv_session res" where
  "on_udp_first_read inp c s = (case c of
     Data d \<Rightarrow>
       handle_trojan_udp_proxy inp (s\<lparr>ss_in_buf := fill (ss_in_buf s) d, ss_udp_buff := ss_udp_buff s @ d\<rparr>)
   | _ \<Rightarrow> Inr (srv_destroy s))"

definition on_udp_first_resolve :: "sync_input \<Rightarrow> udp_packet \<Rightarrow> bytes \<Rightarrow> completion \<Rightarrow> srv_session \<Rightarrow> srv_session" where
  "on_udp_first_resolve inp u key c s = (case c of
     Results (e # es) \<Rightarrow>
       let ep = pick_v4 e (e # es) in
       udp_first_send inp (up_payload u) ep (s\<lparr>ss_dns := put_udp (ss_dns s) (si_now inp) key ep\<rparr>)
   | _ \<Rightarrow> srv_destroy s)"

definition udp_async_bidirectional_read :: "direction \<Rightarrow> srv_session \<Rightarrow> srv_session" where
  "udp_async_bidirectional_read dir s =
     (let s = (if dir = DIR_DOWN \<or> dir = DIR_BOTH then start_op Udp_read_upstream s else s)
      in if dir = DIR_UP \<or> dir = DIR_BOTH then start_op Udp_receive s else s)"

definition udp_async_bidirectional_write :: "direction \<Rightarrow> bytes \<Rightarrow> endpoint \<Rightarrow> srv_session \<Rightarrow> srv_session" where
  "udp_async_bidirectional_write dir packet ep s = (case dir of
     DIR_DOWN \<Rightarrow> start_op (Udp_send packet ep) s
   | DIR_UP \<Rightarrow> start_op (Udp_write_upstream packet) s
   | DIR_BOTH \<Rightarrow> s)"

definition on_udp_first_send :: "completion \<Rightarrow> srv_session \<Rightarrow> srv_session" where
  "on_udp_first_send c s = (case c of
     Sent n \<Rightarrow> udp_async_bidirectional_read DIR_BOTH s
   | _ \<Rightarrow> srv_destroy s)"

definition on_udp_read_upstream :: "sync_input \<Rightarrow> completion \<Rightarrow> srv_session \<Rightarrow> srv_session res" where
  "on_udp_read_upstream inp c s = (case c of
     Data d \<Rightarrow>
       let s = s\<lparr>ss_in_buf := fill (ss_in_buf s) d, ss_udp_buff := ss_udp_buff s @ d\<rparr> in
       rbind (udp_remaining s) (\<lambda>remaining.
       rbind (up_parse new_udp_packet remaining 0) (\<lambda>(is_packet_valid, u, packet_len).
         if is_packet_valid then
           let s = udp_advance packet_len s in
           case get_udp (ss_dns s) (si_now inp) (udp_key u) of
             Some ep \<Rightarrow> Inr (udp_async_bidirectional_write DIR_DOWN (up_payload u) ep s)
           | None \<Rightarrow> Inr (start_op (Udp_resolve u (udp_key u)) s)
         else if sz_sub (length (ss_udp_buff s)) (ss_udp_off s) > MAX_BUFF_SIZE then Inr (srv_destroy s)
         else Inr (udp_async_bidirectional_read DIR_DOWN s)))
   | _ \<Rightarrow> Inr (srv_destroy s))"

definition on_udp_resolve :: "sync_input \<Rightarrow> udp_packet \<Rightarrow> bytes \<Rightarrow> completion \<Rightarrow> srv_session \<Rightarrow> srv_session" where
  "on_udp_resolve inp u key c s = (case c of
     Results (e # es) \<Rightarrow>
       let ep = pick_v4 e (e # es) in
       udp_async_bidirectional_write DIR_DOWN (up_payload u) ep
         (s\<lparr>ss_dns := put_udp (ss_dns s) (si_now inp) key ep\<rparr>)
   | _ \<Rightarrow> srv_destroy s)"

definition on_udp_send :: "completion \<Rightarrow> srv_session \<Rightarrow> srv_session" where
  "on_udp_send c s = (case c of
     Sent n \<Rightarrow> udp_async_bidirectional_read DIR_DOWN s
   | _ \<Rightarrow> srv_destroy s)"

text \<open>The handler of \<open>async_receive_from\<close> captured \<open>udp_sender_endpoint\<close> by value when the operation was
  started, before the sender was known: it always sees the default endpoint.\<close>

definition on_udp_receive :: "completion \<Rightarrow> srv_session \<Rightarrow> srv_session" where
  "on_udp_receive c s = (case c of
     Data d \<Rightarrow>
       let s = s\<lparr>ss_out_buf := fill (ss_out_buf s) d\<rparr>;
           packet = up_generate_ep default_endpoint (take (length d) (ss_out_buf s))
       in udp_async_bidirectional_write DIR_UP packet default_endpoint s
   | _ \<Rightarrow> srv_destroy s)"

definition tls_on_udp_write_upstream :: "completion \<Rightarrow> srv_session \<Rightarrow> srv_session" where
  "tls_on_udp_write_upstream c s = (case c of
     Sent n \<Rightarrow> udp_async_bidirectional_read DIR_UP s
   | _ \<Rightarrow> tls_destroy s)"

definition ws_on_udp_write_upstream :: "completion \<Rightarrow> srv_session \<Rightarrow> srv_session" where
  "ws_on_udp_write_upstream c s = (case c of
     Sent n \<Rightarrow> udp_async_bidirectional_read DIR_UP s
   | _ \<Rightarrow> ws_destroy s)"

definition on_udp_write_upstream :: "completion \<Rightarrow> srv_session \<Rightarrow> srv_session" where
  on_udp_write_upstream_virtual: "on_udp_write_upstream c s = (case ss_kind s of
     Tls \<Rightarrow> tls_on_udp_write_upstream c s | Websocket \<Rightarrow> ws_on_udp_write_upstream c s)"

lemma on_udp_write_upstream_def:
  "on_udp_write_upstream c s = (case c of
     Sent n \<Rightarrow> udp_async_bidirectional_read DIR_UP s
   | _ \<Rightarrow> srv_destroy s)"
  by (simp add: on_udp_write_upstream_virtual tls_on_udp_write_upstream_def ws_on_udp_write_upstream_def
      srv_destroy_virtual split: session_kind.splits completion.splits)

subsection \<open>Opening\<close>

definition handle_custom_protocol :: "srv_session \<Rightarrow> srv_session" where
  "handle_custom_protocol s = start_op Read_protocol s"

definition srv_parse_request :: "bytes \<Rightarrow> srv_session \<Rightarrow> (bool \<times> srv_session) res" where
  "srv_parse_request d s =
     rbind (is_v_protocol (ss_in_buf s)) (\<lambda>v.
       if v then
         rbind (vr_unstream (ss_v_req s) d) (\<lambda>(valid, q).
           Inr (valid, s\<lparr>ss_v_req := q, ss_password := vr_password q, ss_vprotocol := True\<rparr>))
       else
         rbind (tr_parse (ss_trojanReq s) d) (\<lambda>(k, q).
           Inr (k \<noteq> -1, s\<lparr>ss_trojanReq := q, ss_password := tr_password q\<rparr>)))"

definition on_read_protocol ::
    "bytes list \<Rightarrow> sync_input \<Rightarrow> completion \<Rightarrow> srv_session \<Rightarrow> srv_session res" where
  "on_read_protocol allowed_passwords inp c s = (case c of
     Data d \<Rightarrow>
       rbind (srv_parse_request d (s\<lparr>ss_in_buf := fill (ss_in_buf s) d\<rparr>)) (\<lambda>(valid, s).
         if valid then
           if ss_password s \<notin> set allowed_passwords then Inr (srv_destroy s)
           else if \<not> ss_vprotocol s \<and> tr_command (ss_trojanReq s) = T_UDP_ASSOCIATE then
             handle_trojan_udp_proxy inp (s\<lparr>ss_udp_buff := tr_payload (ss_trojanReq s)\<rparr>)
           else Inr (do_resolve inp s)
         else Inr (srv_destroy s))
   | _ \<Rightarrow> Inr (srv_destroy s))"

definition tls_start :: "srv_session \<Rightarrow> srv_session" where
  "tls_start s = start_op Handshake s"

definition tls_on_handshake :: "completion \<Rightarrow> srv_session \<Rightarrow> srv_session" where
  "tls_on_handshake c s = (case c of Done \<Rightarrow> handle_custom_protocol s | _ \<Rightarrow> tls_destroy s)"

definition ws_start :: "srv_session \<Rightarrow> srv_session" where
  "ws_start s = start_op Handshake s"

text \<open>The timeouts and the response decorator set here have no part in the session's state.\<close>

definition ws_on_handshake :: "completion \<Rightarrow> srv_session \<Rightarrow> srv_session" where
  "ws_on_handshake c s = (case c of Done \<Rightarrow> start_op Ws_accept s | _ \<Rightarrow> ws_destroy s)"

definition on_accept :: "completion \<Rightarrow> srv_session \<Rightarrow> srv_session" where
  "on_accept c s = (case c of Done \<Rightarrow> handle_custom_protocol s | _ \<Rightarrow> srv_destroy s)"

definition srv_start :: "srv_session \<Rightarrow> srv_session" where
  srv_start_virtual: "srv_start s = (case ss_kind s of Tls \<Rightarrow> tls_start s | Websocket \<Rightarrow> ws_start s)"

lemma srv_start_def: "srv_start s = start_op Handshake s"
  by (simp add: srv_start_virtual tls_start_def ws_start_def split: session_kind.splits)

definition on_handshake :: "completion \<Rightarrow> srv_session \<Rightarrow> srv_session" where
  on_handshake_virtual: "on_handshake c s = (case ss_kind s of
     Tls \<Rightarrow> tls_on_handshake c s | Websocket \<Rightarrow> ws_on_handshake c s)"

lemma on_handshake_def:
  "on_handshake c s = (case c of
     Done \<Rightarrow> (case ss_kind s of Tls \<Rightarrow> handle_custom_protocol s | Websocket \<Rightarrow> start_op Ws_accept s)
   | _ \<Rightarrow> srv_destroy s)"
  by (simp add: on_handshake_virtual tls_on_handshake_def ws_on_handshake_def srv_destroy_virtual
      split: session_kind.splits completion.splits)

subsection \<open>Completions\<close>

fun on_complete ::
    "bytes list \<Rightarrow> sync_input \<Rightarrow> srv_op \<Rightarrow> completion \<Rightarrow> srv_session \<Rightarrow> srv_session res" where
  "on_complete allowed inp Handshake c s = Inr (on_handshake c s)"
| "on_complete allowed inp Ws_accept c s = Inr (on_accept c s)"
| "on_complete allowed inp Read_protocol c s = on_read_protocol allowed inp c s"
| "on_complete allowed inp (Tcp_resolve host port key) c s = Inr (on_tcp_resolve inp key c s)"
| "on_complete allowed inp (Connect ep) c s = Inr (on_connect c s)"
| "on_complete allowed inp (Write_payload b) c s = Inr (on_write_payload c s)"
| "on_complete allowed inp Read_upstream c s = Inr (on_read_upstream c s)"
| "on_complete allowed inp Read_downstream c s = Inr (on_read_downstream c s)"
| "on_complete allowed inp (Send_downstream b) c s = Inr (on_send_downstream c s)"
| "on_complete allowed inp (Send_upstream b) c s = Inr (on_send_upstream c s)"
| "on_complete allowed inp Udp_first_read c s = on_udp_first_read inp c s"
| "on_complete allowed inp (Udp_first_resolve u key) c s = Inr (on_udp_first_resolve inp u key c s)"
| "on_complete allowed inp (Udp_first_send pl ep) c s = Inr (on_udp_first_send c s)"
| "on_complete allowed inp Udp_read_upstream c s = on_udp_read_upstream inp c s"
| "on_complete allowed inp Udp_receive c s = Inr (on_udp_receive c s)"
| "on_complete allowed inp (Udp_resolve u key) c s = Inr (on_udp_resolve inp u key c s)"
| "on_complete allowed inp (Udp_send pl ep) c s = Inr (on_udp_send c s)"
| "on_complete allowed inp (Udp_write_upstream b) c s = Inr (on_udp_write_upstream c s)"

text \<open>Which outcomes an operation can have: a read fills at most the 64 KiB buffer, \<open>async_write\<close> sends
  everything, \<open>async_send\<close> and \<open>async_write_some\<close> send a part.\<close>

fun fits :: "srv_op \<Rightarrow> completion \<Rightarrow> bool" where
  "fits p (Error e) = True"
| "fits p Done = (case p of Handshake \<Rightarrow> True | Ws_accept \<Rightarrow> True | Connect _ \<Rightarrow> True | _ \<Rightarrow> False)"
| "fits p (Data d) = (length d \<le> MAX_BUFF_SIZE \<and>
     (case p of Read_protocol \<Rightarrow> True | Read_upstream \<Rightarrow> True | Read_downstream \<Rightarrow> True | Udp_first_read \<Rightarrow> True
      | Udp_read_upstream \<Rightarrow> True | Udp_receive \<Rightarrow> True | _ \<Rightarrow> False))"
| "fits p (Sent n) =
     (case p of Write_payload b \<Rightarrow> n = length b | Send_downstream b \<Rightarrow> n \<le> length b
      | Send_upstream b \<Rightarrow> n \<le> length b | Udp_first_send b _ \<Rightarrow> True | Udp_send b _ \<Rightarrow> True
      | Udp_write_upstream b \<Rightarrow> n = length b | _ \<Rightarrow> False)"
| "fits p (Results es) = (case p of Tcp_resolve _ _ _ \<Rightarrow> True | Udp_first_resolve _ _ \<Rightarrow> True
      | Udp_resolve _ _ \<Rightarrow> True | _ \<Rightarrow> False)"

definition finish :: "srv_op \<Rightarrow> srv_session \<Rightarrow> srv_session" where
  "finish p s = s\<lparr>ss_pending := remove1 p (ss_pending s)\<rparr>"

type_synonym srv_trace = "(srv_op \<times> completion) list"

text \<open>
  The sessions that can be reached, with the completions so far. The shared resolver cache may change
  between any two steps, since other sessions use it.
\<close>

inductive srv_reach :: "bytes list \<Rightarrow> session_kind \<Rightarrow> srv_session \<Rightarrow> srv_trace \<Rightarrow> bool"
  for allowed kind where
  Init: "srv_reach allowed kind (srv_start (srv_new kind dns)) []"
| Step: "srv_reach allowed kind s tr \<Longrightarrow> p \<in> set (ss_pending s) \<Longrightarrow> fits p c \<Longrightarrow>
    on_complete allowed inp p c (finish p s) = Inr s' \<Longrightarrow> srv_reach allowed kind s' (tr @ [(p, c)])"
| Dns: "srv_reach allowed kind s tr \<Longrightarrow> srv_reach allowed kind (s\<lparr>ss_dns := dns\<rparr>) tr"

end
