(* ===== verification/ServerRelay.thy ===== *)
theory ServerRelay
  imports ServerSession
begin

text \<open>
  What a server session guarantees, over every interleaving of its completions: nothing is resolved,
  connected or sent before a configured password was received; the two directions of the TCP relay
  neither lose, duplicate nor reorder bytes and always have exactly one operation outstanding; a destroyed
  session stays destroyed.
\<close>

subsection \<open>What was received and sent\<close>

fun rx_down :: "srv_op \<times> completion \<Rightarrow> bytes" where
  "rx_down (Read_upstream, Data d) = d"
| "rx_down _ = []"

fun tx_down :: "srv_op \<times> completion \<Rightarrow> bytes" where
  "tx_down (Write_payload b, Sent n) = take n b"
| "tx_down (Send_downstream b, Sent n) = take n b"
| "tx_down _ = []"

fun rx_up :: "srv_op \<times> completion \<Rightarrow> bytes" where
  "rx_up (Read_downstream, Data d) = d"
| "rx_up _ = []"

fun tx_up :: "srv_op \<times> completion \<Rightarrow> bytes" where
  "tx_up (Send_upstream b, Sent n) = take n b"
| "tx_up _ = []"

definition hist :: "(srv_op \<times> completion \<Rightarrow> bytes) \<Rightarrow> srv_trace \<Rightarrow> bytes" where
  "hist f tr = concat (map f tr)"

lemma hist_simps [simp]: "hist f [] = []" "hist f (tr @ [x]) = hist f tr @ f x"
  by (simp_all add: hist_def)

subsection \<open>Phases of a session\<close>

fun opening_op :: "srv_op \<Rightarrow> bool" where
  "opening_op Handshake = True"
| "opening_op Ws_accept = True"
| "opening_op Read_protocol = True"
| "opening_op (Tcp_resolve _ _ _) = True"
| "opening_op (Connect _) = True"
| "opening_op (Write_payload _) = True"
| "opening_op Udp_first_read = True"
| "opening_op (Udp_first_resolve _ _) = True"
| "opening_op (Udp_first_send _ _) = True"
| "opening_op _ = False"

fun udp_down_op :: "srv_op \<Rightarrow> bool" where
  "udp_down_op Udp_read_upstream = True"
| "udp_down_op (Udp_resolve _ _) = True"
| "udp_down_op (Udp_send _ _) = True"
| "udp_down_op _ = False"

fun udp_up_op :: "srv_op \<Rightarrow> bool" where
  "udp_up_op Udp_receive = True"
| "udp_up_op (Udp_write_upstream _) = True"
| "udp_up_op _ = False"

definition ring_ok :: "ring \<Rightarrow> bool" where
  "ring_ok r \<longleftrightarrow> ring_inv r \<and> rb_capacity r = MAX_BUFF_SIZE"

text \<open>A direction either reads with an empty buffer, or sends the head of a non-empty one.\<close>

definition down_ok :: "srv_session \<Rightarrow> srv_op \<Rightarrow> bool" where
  "down_ok s p \<longleftrightarrow> ring_ok (ss_ring_down s) \<and> ss_pausing_down s = ss_sending_down s \<and>
     (if ss_sending_down s
      then ring_contents (ss_ring_down s) \<noteq> [] \<and> p = Send_downstream (ring_peek (ss_ring_down s))
      else ring_contents (ss_ring_down s) = [] \<and> p = Read_upstream)"

definition up_ok :: "srv_session \<Rightarrow> srv_op \<Rightarrow> bool" where
  "up_ok s p \<longleftrightarrow> ring_ok (ss_ring_up s) \<and> ss_pausing_up s = ss_sending_up s \<and>
     (if ss_sending_up s
      then ring_contents (ss_ring_up s) \<noteq> [] \<and> p = Send_upstream (ring_peek (ss_ring_up s))
      else ring_contents (ss_ring_up s) = [] \<and> p = Read_downstream)"

definition relay_idle :: "srv_session \<Rightarrow> bool" where
  "relay_idle s \<longleftrightarrow> down_ok s Read_upstream \<and> up_ok s Read_downstream \<and>
     \<not> ss_sending_down s \<and> \<not> ss_sending_up s"

definition no_relay :: "srv_trace \<Rightarrow> bool" where
  "no_relay tr \<longleftrightarrow> hist rx_down tr = [] \<and> hist tx_down tr = [] \<and> hist rx_up tr = [] \<and> hist tx_up tr = []"

definition inv_open :: "srv_session \<Rightarrow> srv_trace \<Rightarrow> bool" where
  "inv_open s tr \<longleftrightarrow> ss_state s \<noteq> DESTROY \<and> relay_idle s \<and> no_relay tr \<and>
     (\<exists>p. ss_pending s = [p] \<and> opening_op p \<and> (\<forall>b. p = Write_payload b \<longrightarrow> b = srv_payload s))"

definition inv_tcp :: "srv_session \<Rightarrow> srv_trace \<Rightarrow> bool" where
  "inv_tcp s tr \<longleftrightarrow> ss_state s \<noteq> DESTROY \<and>
     (\<exists>d u. mset (ss_pending s) = {#d, u#} \<and> down_ok s d \<and> up_ok s u) \<and>
     srv_payload s @ hist rx_down tr = hist tx_down tr @ ring_contents (ss_ring_down s) \<and>
     hist rx_up tr = hist tx_up tr @ ring_contents (ss_ring_up s)"

definition inv_udp :: "srv_session \<Rightarrow> srv_trace \<Rightarrow> bool" where
  "inv_udp s tr \<longleftrightarrow> ss_state s \<noteq> DESTROY \<and> no_relay tr \<and>
     (\<exists>d u. mset (ss_pending s) = {#d, u#} \<and> udp_down_op d \<and> udp_up_op u)"

definition inv_dead :: "srv_session \<Rightarrow> bool" where
  "inv_dead s \<longleftrightarrow> ss_state s = DESTROY \<and> (\<forall>p \<in> set (ss_pending s). \<not> opening_op p)"

definition srv_inv :: "srv_session \<Rightarrow> srv_trace \<Rightarrow> bool" where
  "srv_inv s tr \<longleftrightarrow> inv_open s tr \<or> inv_tcp s tr \<or> inv_udp s tr \<or> inv_dead s"

subsection \<open>Each direction of the TCP relay\<close>

lemma MAX_pos: "0 < MAX_BUFF_SIZE"
  by (simp add: MAX_BUFF_SIZE_def)

lemma ring_ok_enqueue:
  assumes "ring_ok r" and "ring_contents r = []" and "length d \<le> MAX_BUFF_SIZE"
  shows "ring_ok (ring_enqueue r d) \<and> ring_contents (ring_enqueue r d) = d"
proof -
  have "rb_used r = 0"
    using assms(1,2) length_ring_contents [of r] by (simp add: ring_ok_def)
  then show ?thesis
    using assms ring_enqueue_contents [of r d] by (simp add: ring_ok_def)
qed

lemma ring_ok_consume:
  assumes "ring_ok r" and "n \<le> length (ring_peek r)"
  shows "ring_ok (ring_consume r n) \<and> ring_contents r = take n (ring_peek r) @ ring_contents (ring_consume r n)"
  using assms session_ring.consume_ok [of r n] session_ring.consumed_split [of r n] by (simp add: ring_ok_def)

lemma ring_ok_space: "ring_ok r \<Longrightarrow> ring_has_space r MAX_BUFF_SIZE \<longleftrightarrow> ring_contents r = []"
  using ring_has_space_capacity [of r] by (simp add: ring_ok_def)

lemma ring_ok_empty: "ring_ok r \<Longrightarrow> ring_empty r \<longleftrightarrow> ring_contents r = []"
  by (simp add: ring_ok_def ring_empty_contents)

lemmas relay_defs = on_read_upstream_def on_read_downstream_def on_send_downstream_def on_send_upstream_def
  async_bidirectional_write_def async_bidirectional_read_def enqueue_write_def do_send_down_def do_send_up_def
  start_op_def Let_def

text \<open>
  Completing the outstanding operation of one direction leaves one new operation outstanding for it,
  keeps the direction's bookkeeping, moves bytes without loss, and does not touch the other direction.
\<close>

lemma read_upstream_step:
  assumes "down_ok s Read_upstream" and "ss_state s \<noteq> DESTROY" and "length d \<le> MAX_BUFF_SIZE"
  defines "s' \<equiv> on_read_upstream (Data d) s"
  shows "\<exists>p. ss_pending s' = ss_pending s @ [p] \<and> down_ok s' p \<and> ring_contents (ss_ring_down s') = d"
    and "ss_state s' = ss_state s" "srv_payload s' = srv_payload s" "up_ok s' u = up_ok s u"
      "ss_ring_up s' = ss_ring_up s"
proof -
  have idle: "\<not> ss_sending_down s" "\<not> ss_pausing_down s" "ring_contents (ss_ring_down s) = []"
      "ring_ok (ss_ring_down s)"
    using assms(1) by (auto simp: down_ok_def split: if_splits)
  have r: "ring_ok (ring_enqueue (ss_ring_down s) d)" "ring_contents (ring_enqueue (ss_ring_down s) d) = d"
    using ring_ok_enqueue [of "ss_ring_down s" d] idle assms(3) by simp_all
  show "\<exists>p. ss_pending s' = ss_pending s @ [p] \<and> down_ok s' p \<and> ring_contents (ss_ring_down s') = d"
    using idle r assms(2) ring_ok_space [OF r(1)] ring_ok_empty [OF r(1)]
    by (cases "d = []") (simp_all add: s'_def relay_defs down_ok_def)
  show "ss_state s' = ss_state s" "srv_payload s' = srv_payload s" "up_ok s' u = up_ok s u"
      "ss_ring_up s' = ss_ring_up s"
    using assms(2) by (simp_all add: s'_def relay_defs srv_payload_def up_ok_def)
qed

lemma read_downstream_step:
  assumes "up_ok s Read_downstream" and "ss_state s \<noteq> DESTROY" and "length d \<le> MAX_BUFF_SIZE"
  defines "s' \<equiv> on_read_downstream (Data d) s"
  shows "\<exists>p. ss_pending s' = ss_pending s @ [p] \<and> up_ok s' p \<and> ring_contents (ss_ring_up s') = d"
    and "ss_state s' = ss_state s" "srv_payload s' = srv_payload s" "down_ok s' u = down_ok s u"
      "ss_ring_down s' = ss_ring_down s"
proof -
  have idle: "\<not> ss_sending_up s" "\<not> ss_pausing_up s" "ring_contents (ss_ring_up s) = []"
      "ring_ok (ss_ring_up s)"
    using assms(1) by (auto simp: up_ok_def split: if_splits)
  have r: "ring_ok (ring_enqueue (ss_ring_up s) d)" "ring_contents (ring_enqueue (ss_ring_up s) d) = d"
    using ring_ok_enqueue [of "ss_ring_up s" d] idle assms(3) by simp_all
  show "\<exists>p. ss_pending s' = ss_pending s @ [p] \<and> up_ok s' p \<and> ring_contents (ss_ring_up s') = d"
    using idle r assms(2) ring_ok_space [OF r(1)] ring_ok_empty [OF r(1)]
    by (cases "d = []") (simp_all add: s'_def relay_defs up_ok_def)
  show "ss_state s' = ss_state s" "srv_payload s' = srv_payload s" "down_ok s' u = down_ok s u"
      "ss_ring_down s' = ss_ring_down s"
    using assms(2) by (simp_all add: s'_def relay_defs srv_payload_def down_ok_def)
qed

lemma send_downstream_step:
  assumes "down_ok s (Send_downstream b)" and "n \<le> length b"
  defines "s' \<equiv> on_send_downstream (Sent n) s"
  shows "\<exists>p. ss_pending s' = ss_pending s @ [p] \<and> down_ok s' p"
    and "ring_contents (ss_ring_down s) = take n b @ ring_contents (ss_ring_down s')"
    and "ss_state s' = ss_state s" "srv_payload s' = srv_payload s" "up_ok s' u = up_ok s u"
      "ss_ring_up s' = ss_ring_up s"
proof -
  have busy: "ss_sending_down s" "ss_pausing_down s" "b = ring_peek (ss_ring_down s)"
      "ring_ok (ss_ring_down s)"
    using assms(1) by (auto simp: down_ok_def split: if_splits)
  have r: "ring_ok (ring_consume (ss_ring_down s) n)"
    "ring_contents (ss_ring_down s) = take n b @ ring_contents (ring_consume (ss_ring_down s) n)"
    using ring_ok_consume [of "ss_ring_down s" n] busy assms(2) by simp_all
  show "\<exists>p. ss_pending s' = ss_pending s @ [p] \<and> down_ok s' p"
    using busy r(1) ring_ok_empty [OF r(1)]
    by (cases "ring_contents (ring_consume (ss_ring_down s) n) = []")
      (simp_all add: s'_def relay_defs down_ok_def)
  show "ring_contents (ss_ring_down s) = take n b @ ring_contents (ss_ring_down s')"
    using r by (simp add: s'_def relay_defs)
  show "ss_state s' = ss_state s" "srv_payload s' = srv_payload s" "up_ok s' u = up_ok s u"
      "ss_ring_up s' = ss_ring_up s"
    by (simp_all add: s'_def relay_defs srv_payload_def up_ok_def)
qed

lemma send_upstream_step:
  assumes "up_ok s (Send_upstream b)" and "n \<le> length b"
  defines "s' \<equiv> on_send_upstream (Sent n) s"
  shows "\<exists>p. ss_pending s' = ss_pending s @ [p] \<and> up_ok s' p"
    and "ring_contents (ss_ring_up s) = take n b @ ring_contents (ss_ring_up s')"
    and "ss_state s' = ss_state s" "srv_payload s' = srv_payload s" "down_ok s' u = down_ok s u"
      "ss_ring_down s' = ss_ring_down s"
proof -
  have busy: "ss_sending_up s" "ss_pausing_up s" "b = ring_peek (ss_ring_up s)"
      "ring_ok (ss_ring_up s)"
    using assms(1) by (auto simp: up_ok_def split: if_splits)
  have r: "ring_ok (ring_consume (ss_ring_up s) n)"
    "ring_contents (ss_ring_up s) = take n b @ ring_contents (ring_consume (ss_ring_up s) n)"
    using ring_ok_consume [of "ss_ring_up s" n] busy assms(2) by simp_all
  show "\<exists>p. ss_pending s' = ss_pending s @ [p] \<and> up_ok s' p"
    using busy r(1) ring_ok_empty [OF r(1)]
    by (cases "ring_contents (ring_consume (ss_ring_up s) n) = []")
      (simp_all add: s'_def relay_defs up_ok_def)
  show "ring_contents (ss_ring_up s) = take n b @ ring_contents (ss_ring_up s')"
    using r by (simp add: s'_def relay_defs)
  show "ss_state s' = ss_state s" "srv_payload s' = srv_payload s" "down_ok s' u = down_ok s u"
      "ss_ring_down s' = ss_ring_down s"
    by (simp_all add: s'_def relay_defs srv_payload_def down_ok_def)
qed

subsection \<open>The invariant is kept\<close>

lemma finish_simps [simp]:
  "ss_state (finish p s) = ss_state s" "srv_payload (finish p s) = srv_payload s"
  "down_ok (finish p s) q = down_ok s q" "up_ok (finish p s) q = up_ok s q"
  "ss_ring_down (finish p s) = ss_ring_down s" "ss_ring_up (finish p s) = ss_ring_up s"
  "relay_idle (finish p s) = relay_idle s" "ss_password (finish p s) = ss_password s"
  "ss_pending (finish p s) = remove1 p (ss_pending s)"
  by (simp_all add: finish_def srv_payload_def down_ok_def up_ok_def relay_idle_def)

lemma destroy_simps [simp]:
  "ss_state (srv_destroy s) = DESTROY" "ss_pending (srv_destroy s) = ss_pending s"
  "ss_password (srv_destroy s) = ss_password s"
  by (simp_all add: srv_destroy_def base_destroy_def)

lemma destroy_dead: "\<forall>q \<in> set (ss_pending s). \<not> opening_op q \<Longrightarrow> inv_dead (srv_destroy s)"
  by (simp add: inv_dead_def)

lemma tcp_op_not_opening: "down_ok s p \<or> up_ok s p \<Longrightarrow> \<not> opening_op p"
  by (auto simp: down_ok_def up_ok_def split: if_splits)

text \<open>The live part of the TCP invariant, with the two outstanding operations named.\<close>

definition tcp_live :: "srv_session \<Rightarrow> srv_trace \<Rightarrow> srv_op \<Rightarrow> srv_op \<Rightarrow> bool" where
  "tcp_live s tr d u \<longleftrightarrow> ss_state s \<noteq> DESTROY \<and> mset (ss_pending s) = {#d, u#} \<and> down_ok s d \<and> up_ok s u \<and>
     srv_payload s @ hist rx_down tr = hist tx_down tr @ ring_contents (ss_ring_down s) \<and>
     hist rx_up tr = hist tx_up tr @ ring_contents (ss_ring_up s)"

lemma inv_tcp_live: "inv_tcp s tr \<longleftrightarrow> (\<exists>d u. tcp_live s tr d u)"
  by (auto simp: inv_tcp_def tcp_live_def)

lemma tcp_live_ops:
  assumes "tcp_live s tr d u"
  shows "d \<noteq> u" "set (ss_pending s) = {d, u}" "\<forall>q \<in> set (remove1 p (ss_pending s)). \<not> opening_op q"
proof -
  show du: "d \<noteq> u"
    using assms by (auto simp: tcp_live_def down_ok_def up_ok_def split: if_splits)
  then show set: "set (ss_pending s) = {d, u}"
    using assms pair_remove [of "ss_pending s" d u] by (auto simp: tcp_live_def)
  have "\<not> opening_op d" "\<not> opening_op u"
    using assms tcp_op_not_opening [of s d] tcp_op_not_opening [of s u] by (auto simp: tcp_live_def)
  then show "\<forall>q \<in> set (remove1 p (ss_pending s)). \<not> opening_op q"
    using set set_remove1_subset [of p "ss_pending s"] by auto
qed

lemma tcp_live_read_upstream:
  assumes "tcp_live s tr Read_upstream u" and "length x \<le> MAX_BUFF_SIZE"
  shows "inv_tcp (on_read_upstream (Data x) (finish Read_upstream s)) (tr @ [(Read_upstream, Data x)])"
proof -
  let ?s = "finish Read_upstream s" and ?s' = "on_read_upstream (Data x) (finish Read_upstream s)"
  have ok: "down_ok ?s Read_upstream" "ss_state ?s \<noteq> DESTROY"
    using assms(1) by (simp_all add: tcp_live_def)
  have e: "ring_contents (ss_ring_down s) = []"
    using assms(1) by (auto simp: tcp_live_def down_ok_def split: if_splits)
  note step = read_upstream_step [OF ok assms(2)]
  obtain q where q: "ss_pending ?s' = remove1 Read_upstream (ss_pending s) @ [q]" "down_ok ?s' q"
    "ring_contents (ss_ring_down ?s') = x"
    using step(1) by auto
  moreover have "mset (ss_pending ?s') = {#q, u#}"
    using assms(1) q(1) tcp_live_ops(1) [OF assms(1)] pair_remove [of "ss_pending s" Read_upstream u q]
    by (simp add: tcp_live_def)
  ultimately show ?thesis
    using assms(1) e step(2-5) unfolding inv_tcp_live tcp_live_def
    by (intro exI [of _ q] exI [of _ u] conjI) simp_all
qed

lemma tcp_live_read_downstream:
  assumes "tcp_live s tr d Read_downstream" and "length x \<le> MAX_BUFF_SIZE"
  shows "inv_tcp (on_read_downstream (Data x) (finish Read_downstream s)) (tr @ [(Read_downstream, Data x)])"
proof -
  let ?s = "finish Read_downstream s" and ?s' = "on_read_downstream (Data x) (finish Read_downstream s)"
  have ok: "up_ok ?s Read_downstream" "ss_state ?s \<noteq> DESTROY"
    using assms(1) by (simp_all add: tcp_live_def)
  have e: "ring_contents (ss_ring_up s) = []"
    using assms(1) by (auto simp: tcp_live_def up_ok_def split: if_splits)
  note step = read_downstream_step [OF ok assms(2)]
  obtain q where q: "ss_pending ?s' = remove1 Read_downstream (ss_pending s) @ [q]" "up_ok ?s' q"
    "ring_contents (ss_ring_up ?s') = x"
    using step(1) by auto
  moreover have "mset (ss_pending ?s') = {#d, q#}"
    using assms(1) q(1) tcp_live_ops(1) [OF assms(1)] pair_remove [of "ss_pending s" d Read_downstream q]
    by (simp add: tcp_live_def)
  ultimately show ?thesis
    using assms(1) e step(2-5) unfolding inv_tcp_live tcp_live_def
    by (intro exI [of _ d] exI [of _ q] conjI) simp_all
qed

lemma tcp_live_send_downstream:
  assumes "tcp_live s tr (Send_downstream b) u" and "n \<le> length b"
  shows "inv_tcp (on_send_downstream (Sent n) (finish (Send_downstream b) s))
    (tr @ [(Send_downstream b, Sent n)])"
proof -
  let ?s = "finish (Send_downstream b) s" and ?s' = "on_send_downstream (Sent n) (finish (Send_downstream b) s)"
  have ok: "down_ok ?s (Send_downstream b)"
    using assms(1) by (simp add: tcp_live_def)
  note step = send_downstream_step [OF ok assms(2)]
  obtain q where q: "ss_pending ?s' = remove1 (Send_downstream b) (ss_pending s) @ [q]" "down_ok ?s' q"
    using step(1) by auto
  moreover have "mset (ss_pending ?s') = {#q, u#}"
    using assms(1) q(1) tcp_live_ops(1) [OF assms(1)] pair_remove [of "ss_pending s" "Send_downstream b" u q]
    by (simp add: tcp_live_def)
  ultimately show ?thesis
    using assms(1) step(2-6) unfolding inv_tcp_live tcp_live_def
    by (intro exI [of _ q] exI [of _ u] conjI) simp_all
qed

lemma tcp_live_send_upstream:
  assumes "tcp_live s tr d (Send_upstream b)" and "n \<le> length b"
  shows "inv_tcp (on_send_upstream (Sent n) (finish (Send_upstream b) s))
    (tr @ [(Send_upstream b, Sent n)])"
proof -
  let ?s = "finish (Send_upstream b) s" and ?s' = "on_send_upstream (Sent n) (finish (Send_upstream b) s)"
  have ok: "up_ok ?s (Send_upstream b)"
    using assms(1) by (simp add: tcp_live_def)
  note step = send_upstream_step [OF ok assms(2)]
  obtain q where q: "ss_pending ?s' = remove1 (Send_upstream b) (ss_pending s) @ [q]" "up_ok ?s' q"
    using step(1) by auto
  moreover have "mset (ss_pending ?s') = {#d, q#}"
    using assms(1) q(1) tcp_live_ops(1) [OF assms(1)] pair_remove [of "ss_pending s" d "Send_upstream b" q]
    by (simp add: tcp_live_def)
  ultimately show ?thesis
    using assms(1) step(2-6) unfolding inv_tcp_live tcp_live_def
    by (intro exI [of _ d] exI [of _ q] conjI) simp_all
qed

lemma tcp_live_cases:
  assumes "tcp_live s tr d u" and "p \<in> set (ss_pending s)"
  obtains "p = Read_upstream" "d = p" | b where "p = Send_downstream b" "d = p"
    | "p = Read_downstream" "u = p" | b where "p = Send_upstream b" "u = p"
  using assms tcp_live_ops(2) [OF assms(1)]
  by (auto simp: tcp_live_def down_ok_def up_ok_def split: if_splits)

lemma inv_tcp_step:
  assumes "inv_tcp s tr" and p: "p \<in> set (ss_pending s)" and fit: "fits p c"
    and run: "on_complete allowed inp p c (finish p s) = Inr s'"
  shows "inv_tcp s' (tr @ [(p, c)]) \<or> inv_dead s'"
proof -
  obtain d u where live: "tcp_live s tr d u"
    using assms(1) by (auto simp: inv_tcp_live)
  have dead: "inv_dead (srv_destroy (finish p s))"
    using tcp_live_ops(3) [OF live] by (intro destroy_dead) simp
  have st: "ss_state (finish p s) \<noteq> DESTROY"
    using live by (simp add: tcp_live_def)
  from live p show ?thesis
  proof (cases rule: tcp_live_cases)
    case 1
    then show ?thesis
      using tcp_live_read_upstream [of s tr u] live run fit dead st
      by (cases c) (auto simp: on_read_upstream_def [of "Error _"])
  next
    case (2 b)
    then show ?thesis
      using tcp_live_send_downstream [of s tr b u] live run fit dead
      by (cases c) (auto simp: on_send_downstream_def [of "Error _"])
  next
    case 3
    then show ?thesis
      using tcp_live_read_downstream [of s tr d] live run fit dead st
      by (cases c) (auto simp: on_read_downstream_def [of "Error _"])
  next
    case (4 b)
    then show ?thesis
      using tcp_live_send_upstream [of s tr d b] live run fit dead
      by (cases c) (auto simp: on_send_upstream_def [of "Error _"])
  qed
qed

text \<open>A handler that runs after the session was destroyed leaves it destroyed.\<close>

lemmas udp_defs = on_udp_read_upstream_def on_udp_receive_def on_udp_resolve_def on_udp_send_def
  on_udp_write_upstream_def udp_async_bidirectional_read_def udp_async_bidirectional_write_def
  udp_advance_def start_op_def Let_def

lemma udp_read_upstream_next:
  assumes "on_udp_read_upstream inp c s = Inr s'"
  shows "ss_state s' = DESTROY \<and> ss_pending s' = ss_pending s \<or>
    ss_state s' = ss_state s \<and> (\<exists>q. udp_down_op q \<and> ss_pending s' = ss_pending s @ [q])"
proof (cases c)
  case (Data d)
  let ?s = "s\<lparr>ss_in_buf := fill (ss_in_buf s) d, ss_udp_buff := ss_udp_buff s @ d\<rparr>"
  obtain rm ok u n where up: "udp_remaining ?s = Inr rm" "up_parse new_udp_packet rm 0 = Inr (ok, u, n)"
    using assms Data by (auto simp: on_udp_read_upstream_def Let_def rbind_eq_Inr)
  have adv: "ss_state (udp_advance n t) = ss_state t" "ss_pending (udp_advance n t) = ss_pending t" for t
    by (simp_all add: udp_advance_def Let_def)
  show ?thesis
  proof (cases ok)
    case True
    then show ?thesis
      using assms Data up
      by (cases "get_udp (ss_dns (udp_advance n ?s)) (si_now inp) (udp_key u)")
        (auto simp: on_udp_read_upstream_def udp_async_bidirectional_write_def start_op_def Let_def adv)
  next
    case False
    then show ?thesis
      using assms Data up
      by (auto simp: on_udp_read_upstream_def udp_async_bidirectional_read_def start_op_def Let_def split: if_splits)
  qed
qed (use assms in \<open>auto simp: on_udp_read_upstream_def\<close>)

lemma udp_down_step:
  assumes "udp_down_op p" and "on_complete allowed inp p c s = Inr s'"
  shows "ss_state s' = DESTROY \<and> ss_pending s' = ss_pending s \<or>
    ss_state s' = ss_state s \<and> (\<exists>q. udp_down_op q \<and> ss_pending s' = ss_pending s @ [q])"
proof (cases p)
  case Udp_read_upstream
  then show ?thesis
    using assms udp_read_upstream_next by simp
next
  case (Udp_resolve u key)
  then show ?thesis
    using assms(2) by (auto simp: on_udp_resolve_def udp_async_bidirectional_write_def start_op_def Let_def
        split: completion.splits list.splits)
next
  case (Udp_send b ep)
  then show ?thesis
    using assms(2) by (auto simp: on_udp_send_def udp_async_bidirectional_read_def start_op_def
        split: completion.splits)
qed (use assms(1) in auto)

lemma udp_up_step:
  assumes "udp_up_op p" and "on_complete allowed inp p c s = Inr s'"
  shows "ss_state s' = DESTROY \<and> ss_pending s' = ss_pending s \<or>
    ss_state s' = ss_state s \<and> (\<exists>q. udp_up_op q \<and> ss_pending s' = ss_pending s @ [q])"
proof (cases p)
  case Udp_receive
  then show ?thesis
    using assms(2) by (auto simp: on_udp_receive_def udp_async_bidirectional_write_def start_op_def Let_def
        split: completion.splits)
next
  case (Udp_write_upstream b)
  then show ?thesis
    using assms(2) by (auto simp: on_udp_write_upstream_def udp_async_bidirectional_read_def start_op_def
        split: completion.splits)
qed (use assms(1) in auto)

fun tcp_relay_op :: "srv_op \<Rightarrow> bool" where
  "tcp_relay_op Read_upstream = True"
| "tcp_relay_op Read_downstream = True"
| "tcp_relay_op (Send_downstream _) = True"
| "tcp_relay_op (Send_upstream _) = True"
| "tcp_relay_op _ = False"

lemma op_kinds: "opening_op p \<or> tcp_relay_op p \<or> udp_down_op p \<or> udp_up_op p"
  by (cases p) auto

lemma udp_not_opening: "udp_down_op p \<or> udp_up_op p \<or> tcp_relay_op p \<Longrightarrow> \<not> opening_op p"
  by (cases p) auto

lemma tcp_relay_dead_step:
  assumes "tcp_relay_op p" and "on_complete allowed inp p c s = Inr s'" and "ss_state s = DESTROY"
  shows "ss_state s' = DESTROY \<and> (ss_pending s' = ss_pending s \<or> (\<exists>q. tcp_relay_op q \<and> ss_pending s' = ss_pending s @ [q]))"
proof (cases p)
  case Read_upstream
  then show ?thesis
    using assms by (auto simp: on_read_upstream_def)
next
  case Read_downstream
  then show ?thesis
    using assms by (auto simp: on_read_downstream_def)
next
  case (Send_downstream b)
  then show ?thesis
    using assms by (auto simp: on_send_downstream_def do_send_down_def async_bidirectional_read_def
        start_op_def Let_def split: completion.splits if_splits)
next
  case (Send_upstream b)
  then show ?thesis
    using assms by (auto simp: on_send_upstream_def do_send_up_def async_bidirectional_read_def
        start_op_def Let_def split: completion.splits if_splits)
qed (use assms(1) in auto)

lemma inv_dead_step:
  assumes "inv_dead s" and "p \<in> set (ss_pending s)"
    and "on_complete allowed inp p c (finish p s) = Inr s'"
  shows "inv_dead s'"
proof -
  have st: "ss_state (finish p s) = DESTROY" and np: "\<not> opening_op p"
    and rest: "\<forall>q \<in> set (ss_pending (finish p s)). \<not> opening_op q"
    using assms(1,2) set_remove1_subset [of p "ss_pending s"] by (auto simp: inv_dead_def)
  have "ss_state s' = DESTROY \<and> (ss_pending s' = ss_pending (finish p s) \<or>
      (\<exists>q. \<not> opening_op q \<and> ss_pending s' = ss_pending (finish p s) @ [q]))"
    using op_kinds [of p] np tcp_relay_dead_step [OF _ assms(3) st] udp_down_step [OF _ assms(3)]
      udp_up_step [OF _ assms(3)] st udp_not_opening by metis
  then show ?thesis
    using rest by (auto simp: inv_dead_def)
qed

lemma inv_udp_step:
  assumes inv: "inv_udp s tr" and p: "p \<in> set (ss_pending s)"
    and run: "on_complete allowed inp p c (finish p s) = Inr s'"
  shows "inv_udp s' (tr @ [(p, c)]) \<or> inv_dead s'"
proof -
  obtain d u where pend: "mset (ss_pending s) = {#d, u#}" and d: "udp_down_op d" and u: "udp_up_op u"
    and st: "ss_state s \<noteq> DESTROY" and nr: "no_relay tr"
    using inv by (auto simp: inv_udp_def)
  have du: "d \<noteq> u"
    using d u by (cases d) auto
  note pr = pair_remove [OF pend du]
  have pdu: "p = d \<or> p = u"
    using p pr by auto
  have nr': "no_relay (tr @ [(p, c)])"
    using nr pdu d u by (cases p; cases c) (auto simp: no_relay_def)
  have rest: "\<forall>q \<in> set (remove1 p (ss_pending s)). \<not> opening_op q"
    using pr d u udp_not_opening set_remove1_subset [of p "ss_pending s"] by fastforce
  from pdu have "ss_state s' = DESTROY \<and> ss_pending s' = remove1 p (ss_pending s) \<or>
    ss_state s' = ss_state s \<and> (\<exists>d u. mset (ss_pending s') = {#d, u#} \<and> udp_down_op d \<and> udp_up_op u)"
  proof
    assume "p = d"
    then show ?thesis
      using udp_down_step [OF _ run] d u pr by fastforce
  next
    assume "p = u"
    then show ?thesis
      using udp_up_step [OF _ run] d u pr by fastforce
  qed
  then show ?thesis
    using nr' rest st by (auto simp: inv_udp_def inv_dead_def)
qed

text \<open>
  While a session opens it has one outstanding operation. Completing it destroys the session, starts
  the next opening operation, or starts one of the two relays.
\<close>

definition opening_next :: "srv_op \<Rightarrow> completion \<Rightarrow> srv_session \<Rightarrow> srv_session \<Rightarrow> bool" where
  "opening_next p c s s' \<longleftrightarrow>
     ss_state s' = DESTROY \<and> ss_pending s' = [] \<or>
     ss_state s' \<noteq> DESTROY \<and> relay_idle s' \<and>
     ((\<exists>q. ss_pending s' = [q] \<and> opening_op q \<and> (\<forall>b. q = Write_payload b \<longrightarrow> b = srv_payload s')) \<or>
      ss_pending s' = [Read_upstream, Read_downstream] \<and>
        ((\<exists>ep. p = Connect ep) \<and> srv_payload s' = [] \<or>
         (\<exists>b. p = Write_payload b \<and> c = Sent (length b)) \<and> srv_payload s' = srv_payload s) \<or>
      ss_pending s' = [Udp_read_upstream, Udp_receive])"

definition fresh :: "srv_session \<Rightarrow> bool" where
  "fresh s \<longleftrightarrow> ss_pending s = [] \<and> ss_state s \<noteq> DESTROY \<and> relay_idle s"

lemma destroy_next: "fresh s \<Longrightarrow> opening_next p c s0 (srv_destroy s)"
  by (simp add: opening_next_def fresh_def)

lemma relay_idle_start [simp]: "relay_idle (start_op q s) = relay_idle s" "srv_payload (start_op q s) = srv_payload s"
  "ss_state (start_op q s) = ss_state s" "ss_pending (start_op q s) = ss_pending s @ [q]"
  "ss_password (start_op q s) = ss_password s"
  by (simp_all add: start_op_def relay_idle_def down_ok_def up_ok_def srv_payload_def)

lemma start_next: "fresh s \<Longrightarrow> opening_op q \<Longrightarrow> \<forall>b. q = Write_payload b \<longrightarrow> b = srv_payload s \<Longrightarrow>
    opening_next p c s0 (start_op q s)"
  by (simp add: opening_next_def fresh_def)

lemma fresh_updates [simp]:
  "fresh (s\<lparr>ss_dns := x1\<rparr>) = fresh s"
  "fresh (s\<lparr>ss_in_buf := x2\<rparr>) = fresh s"
  "fresh (s\<lparr>ss_udp_buff := x3\<rparr>) = fresh s"
  "fresh (s\<lparr>ss_udp_off := x4\<rparr>) = fresh s"
  "fresh (s\<lparr>ss_udp_open := x5\<rparr>) = fresh s"
  "fresh (s\<lparr>ss_remote_host := x6, ss_remote_port := x7\<rparr>) = fresh s"
  "fresh (s\<lparr>ss_trojanReq := x8, ss_password := x9\<rparr>) = fresh s"
  "fresh (s\<lparr>ss_v_req := x10, ss_password := x11, ss_vprotocol := x12\<rparr>) = fresh s"
  by (simp_all add: fresh_def relay_idle_def down_ok_def up_ok_def)

lemma fresh_forward: "fresh s \<Longrightarrow> fresh (s\<lparr>ss_state := FORWARD\<rparr>)" "fresh s \<Longrightarrow> fresh (s\<lparr>ss_state := FORWARD, ss_downstream_open := x\<rparr>)"
  by (simp_all add: fresh_def relay_idle_def down_ok_def up_ok_def)

lemma fresh_advance: "fresh s \<Longrightarrow> fresh (udp_advance n s)"
  by (simp add: udp_advance_def Let_def fresh_def relay_idle_def down_ok_def up_ok_def)

lemma udp_first_send_next: "fresh s \<Longrightarrow> opening_next p c s0 (udp_first_send inp pl ep s)"
  by (auto simp: udp_first_send_def intro!: destroy_next start_next)

lemma handle_udp_next:
  assumes "fresh s" and "handle_trojan_udp_proxy inp s = Inr s'"
  shows "opening_next p c s0 s'"
proof -
  let ?s = "s\<lparr>ss_state := FORWARD\<rparr>"
  have f: "fresh ?s"
    using assms(1) by (rule fresh_forward)
  obtain rm ok u n where up: "udp_remaining ?s = Inr rm" "up_parse new_udp_packet rm 0 = Inr (ok, u, n)"
    using assms(2) by (auto simp: handle_trojan_udp_proxy_def Let_def rbind_eq_Inr)
  have s': "s' = (if \<not> ok then (if sz_sub (length (ss_udp_buff ?s)) (ss_udp_off ?s) > MAX_BUFF_SIZE
        then srv_destroy ?s else udp_upstream_read ?s)
      else case get_udp (ss_dns (udp_advance n ?s)) (si_now inp) (udp_key u) of
        Some ep \<Rightarrow> udp_first_send inp (up_payload u) ep (udp_advance n ?s)
      | None \<Rightarrow> start_op (Udp_first_resolve u (udp_key u)) (udp_advance n ?s))"
    using assms(2) up by (auto simp: handle_trojan_udp_proxy_def Let_def split: option.splits if_splits)
  show ?thesis
    unfolding s' using f fresh_advance [OF f]
    by (auto simp: udp_upstream_read_def intro!: destroy_next start_next udp_first_send_next split: option.split)
qed

lemma do_connect_next: "fresh s \<Longrightarrow> opening_next p c s0 (do_connect ep s)"
  using fresh_forward(2) [of s True] by (simp add: do_connect_def start_next)

lemma do_resolve_next:
  assumes "fresh s"
  shows "opening_next p c s0 (do_resolve inp s)"
proof -
  have "opening_next p c s0 (do_connect ep (s\<lparr>ss_remote_host := h, ss_remote_port := t\<rparr>))"
    "opening_next p c s0 (start_op (Tcp_resolve h t k) (s\<lparr>ss_remote_host := h, ss_remote_port := t\<rparr>))" for ep h t k
    using assms by (simp_all add: do_connect_next start_next)
  then show ?thesis
    by (simp add: do_resolve_def Let_def split: option.split)
qed

lemma srv_parse_request_fresh:
  "srv_parse_request d s = Inr (ok, s') \<Longrightarrow> fresh s \<Longrightarrow> fresh s'"
  by (auto simp: srv_parse_request_def rbind_eq_Inr split: if_splits)

lemma on_read_protocol_next:
  assumes "fresh s" and "on_read_protocol allowed inp c s = Inr s'"
  shows "opening_next p c s0 s'"
proof (cases c)
  case (Data d)
  let ?s = "s\<lparr>ss_in_buf := fill (ss_in_buf s) d\<rparr>"
  obtain ok t where t: "srv_parse_request d ?s = Inr (ok, t)"
    using assms(2) Data by (auto simp: on_read_protocol_def rbind_eq_Inr)
  have f: "fresh t"
    using srv_parse_request_fresh [OF t] assms(1) by simp
  show ?thesis
    using assms(2) Data t f do_resolve_next [OF f] destroy_next [OF f]
      handle_udp_next [of "t\<lparr>ss_udp_buff := tr_payload (ss_trojanReq t)\<rparr>"]
    by (auto simp: on_read_protocol_def split: if_splits)
qed (use assms destroy_next in \<open>auto simp: on_read_protocol_def\<close>)

lemma opening_step:
  assumes "opening_op p" and "fresh s" and "fits p c" and "on_complete allowed inp p c s = Inr s'"
    and "\<forall>b. p = Write_payload b \<longrightarrow> b = srv_payload s"
  shows "opening_next p c s s'"
proof (cases p)
  case Handshake
  then show ?thesis
    using assms(2,4) destroy_next start_next
    by (auto simp: on_handshake_def handle_custom_protocol_def split: completion.splits session_kind.splits)
next
  case Ws_accept
  then show ?thesis
    using assms(2,4) destroy_next start_next
    by (auto simp: on_accept_def handle_custom_protocol_def split: completion.splits)
next
  case Read_protocol
  then show ?thesis
    using assms(2,4) on_read_protocol_next by simp
next
  case (Tcp_resolve h t k)
  then show ?thesis
    using assms(2,4) destroy_next do_connect_next
    by (auto simp: on_tcp_resolve_def split: completion.splits list.splits)
next
  case (Connect ep)
  then show ?thesis
  proof (cases c)
    case Done
    then show ?thesis
      using assms(2,4) Connect start_next
      by (cases "srv_payload s = []")
        (auto simp: on_connect_def async_bidirectional_read_def opening_next_def fresh_def)
  qed (use assms(2,4) Connect destroy_next in \<open>auto simp: on_connect_def\<close>)
next
  case (Write_payload b)
  then show ?thesis
  proof (cases c)
    case (Sent n)
    then show ?thesis
      using assms(2-4) Write_payload
      by (auto simp: on_write_payload_def async_bidirectional_read_def opening_next_def fresh_def)
  qed (use assms(2,4) Write_payload destroy_next in \<open>auto simp: on_write_payload_def\<close>)
next
  case Udp_first_read
  then show ?thesis
  proof (cases c)
    case (Data d)
    have "fresh (s\<lparr>ss_in_buf := fill (ss_in_buf s) d, ss_udp_buff := ss_udp_buff s @ d\<rparr>)"
      using assms(2) by simp
    from handle_udp_next [OF this] show ?thesis
      using assms(4) Udp_first_read Data by (simp add: on_udp_first_read_def)
  qed (use assms(2,4) Udp_first_read destroy_next in \<open>auto simp: on_udp_first_read_def\<close>)
next
  case (Udp_first_resolve u k)
  then show ?thesis
    using assms(2,4) destroy_next udp_first_send_next
    by (auto simp: on_udp_first_resolve_def Let_def split: completion.splits list.splits)
next
  case (Udp_first_send pl ep)
  then show ?thesis
    using assms(2,4) destroy_next
    by (auto simp: on_udp_first_send_def udp_async_bidirectional_read_def opening_next_def fresh_def
        split: completion.splits)
qed (use assms(1) in auto)

lemma relay_idle_ok: "relay_idle s \<longleftrightarrow> down_ok s Read_upstream \<and> up_ok s Read_downstream"
  by (auto simp: relay_idle_def down_ok_def up_ok_def)

lemma relay_idle_contents: "relay_idle s \<Longrightarrow> ring_contents (ss_ring_down s) = [] \<and> ring_contents (ss_ring_up s) = []"
  by (auto simp: relay_idle_def down_ok_def up_ok_def)

lemma opening_hist:
  "opening_op p \<Longrightarrow> no_relay tr \<Longrightarrow> hist rx_down (tr @ [(p, c)]) = [] \<and> hist rx_up (tr @ [(p, c)]) = [] \<and>
     hist tx_up (tr @ [(p, c)]) = [] \<and>
     hist tx_down (tr @ [(p, c)]) = (case (p, c) of (Write_payload b, Sent n) \<Rightarrow> take n b | _ \<Rightarrow> [])"
  by (cases p; cases c) (auto simp: no_relay_def)

lemma inv_open_step:
  assumes inv: "inv_open s tr" and p: "p \<in> set (ss_pending s)" and fit: "fits p c"
    and run: "on_complete allowed inp p c (finish p s) = Inr s'"
  shows "srv_inv s' (tr @ [(p, c)])"
proof -
  have pend: "ss_pending s = [p]" and op: "opening_op p" and nr: "no_relay tr"
    and pl: "\<forall>b. p = Write_payload b \<longrightarrow> b = srv_payload s"
    using inv p by (auto simp: inv_open_def)
  have f: "fresh (finish p s)"
    using inv pend by (auto simp: inv_open_def fresh_def)
  note h = opening_hist [OF op nr, of c]
  have next_ok: "opening_next p c (finish p s) s'"
    using opening_step [OF op f fit run] pl by simp
  have nb: "no_relay (tr @ [(p, c)])" if "\<not> (\<exists>b. p = Write_payload b \<and> c = Sent (length b))"
    using h that fit by (cases p; cases c) (auto simp: no_relay_def)
  from next_ok consider (dead) "ss_state s' = DESTROY" "ss_pending s' = []"
    | (opn) q where "ss_state s' \<noteq> DESTROY" "relay_idle s'" "ss_pending s' = [q]" "opening_op q"
        "\<forall>b. q = Write_payload b \<longrightarrow> b = srv_payload s'"
    | (tcp) "ss_state s' \<noteq> DESTROY" "relay_idle s'" "ss_pending s' = [Read_upstream, Read_downstream]"
        "(\<exists>ep. p = Connect ep) \<and> srv_payload s' = [] \<or>
         (\<exists>b. p = Write_payload b \<and> c = Sent (length b)) \<and> srv_payload s' = srv_payload (finish p s)"
    | (udp) "ss_state s' \<noteq> DESTROY" "relay_idle s'" "ss_pending s' = [Udp_read_upstream, Udp_receive]"
    unfolding opening_next_def by blast
  then show ?thesis
  proof cases
    case dead
    then show ?thesis
      by (simp add: srv_inv_def inv_dead_def)
  next
    case opn
    have "\<not> (\<exists>b. p = Write_payload b \<and> c = Sent (length b))"
      using run opn(3,4) by (auto simp: on_write_payload_def async_bidirectional_read_def)
    then show ?thesis
      using opn nb by (auto simp: srv_inv_def inv_open_def)
  next
    case tcp
    have "srv_payload s' = hist tx_down (tr @ [(p, c)])"
      using tcp(4)
    proof (elim disjE conjE exE)
      fix ep
      assume "p = Connect ep" "srv_payload s' = []"
      then show ?thesis
        using h by simp
    next
      fix b
      assume "srv_payload s' = srv_payload (finish p s)" "p = Write_payload b" "c = Sent (length b)"
      then show ?thesis
        using h pl by simp
    qed
    moreover have "down_ok s' Read_upstream" "up_ok s' Read_downstream"
      using tcp(2) by (simp_all add: relay_idle_ok)
    ultimately have "inv_tcp s' (tr @ [(p, c)])"
      using tcp(1,3) h relay_idle_contents [OF tcp(2)] unfolding inv_tcp_def
      by (intro conjI exI [of _ Read_upstream] exI [of _ Read_downstream]) simp_all
    then show ?thesis
      by (simp add: srv_inv_def)
  next
    case udp
    have "\<not> (\<exists>b. p = Write_payload b \<and> c = Sent (length b))"
      using run udp(3) by (auto simp: on_write_payload_def async_bidirectional_read_def)
    then have "inv_udp s' (tr @ [(p, c)])"
      using udp nb unfolding inv_udp_def
      by (intro conjI exI [of _ Udp_read_upstream] exI [of _ Udp_receive]) simp_all
    then show ?thesis
      by (simp add: srv_inv_def)
  qed
qed

lemma srv_inv_dns [simp]: "srv_inv (s\<lparr>ss_dns := x\<rparr>) tr = srv_inv s tr"
  by (simp add: srv_inv_def inv_open_def inv_tcp_def inv_udp_def inv_dead_def relay_idle_def down_ok_def
      up_ok_def srv_payload_def)

lemma srv_inv_step:
  assumes "srv_inv s tr" and "p \<in> set (ss_pending s)" and "fits p c"
    and "on_complete allowed inp p c (finish p s) = Inr s'"
  shows "srv_inv s' (tr @ [(p, c)])"
  using assms inv_open_step [of s tr p c] inv_tcp_step [of s tr p c] inv_udp_step [of s tr p]
    inv_dead_step [of s p] unfolding srv_inv_def by blast

lemma srv_inv_init: "srv_inv (srv_start (srv_new kind dns)) []"
proof -
  have "ring_ok (ring_new 65536)" "ring_contents (ring_new 65536) = []"
    using ring_new_inv [of 65536] by (simp_all add: ring_ok_def ring_new_def MAX_BUFF_SIZE_def)
  then show ?thesis
    by (simp add: srv_inv_def inv_open_def srv_start_def srv_new_def start_op_def relay_idle_def down_ok_def
        up_ok_def no_relay_def)
qed

lemma srv_reach_inv: "srv_reach allowed kind s tr \<Longrightarrow> srv_inv s tr"
  by (induction rule: srv_reach.induct) (auto intro: srv_inv_init srv_inv_step)

subsection \<open>Authentication\<close>

text \<open>Operations that may happen before the request was read.\<close>

fun preauth :: "srv_op \<Rightarrow> bool" where
  "preauth Handshake = True"
| "preauth Ws_accept = True"
| "preauth Read_protocol = True"
| "preauth _ = False"

text \<open>A handler that keeps the password and starts nothing that belongs before authentication.\<close>

definition kept :: "srv_session \<Rightarrow> srv_session \<Rightarrow> bool" where
  "kept s s' \<longleftrightarrow> ss_password s' = ss_password s \<and>
     (\<forall>q \<in> set (ss_pending s'). q \<in> set (ss_pending s) \<or> \<not> preauth q)"

lemma kept_destroy: "kept s (srv_destroy s)"
  by (simp add: kept_def)

lemma kept_udp_first_send: "kept s (udp_first_send inp pl ep s)"
  by (simp add: udp_first_send_def kept_def start_op_def)

lemma kept_do_connect: "kept s (do_connect ep s)"
  by (simp add: do_connect_def kept_def start_op_def)

lemma kept_do_resolve: "kept s (do_resolve inp s)"
  by (simp add: do_resolve_def do_connect_def kept_def start_op_def Let_def split: option.split)

lemma kept_advance: "ss_password (udp_advance n s) = ss_password s" "ss_pending (udp_advance n s) = ss_pending s"
  by (simp_all add: udp_advance_def Let_def)

lemma kept_handle_udp: "handle_trojan_udp_proxy inp s = Inr s' \<Longrightarrow> kept s s'"
  by (auto simp: handle_trojan_udp_proxy_def udp_first_send_def udp_upstream_read_def kept_def kept_advance
      start_op_def Let_def rbind_eq_Inr split: if_splits option.splits)

lemma kept_udp_read_upstream: "on_udp_read_upstream inp c s = Inr s' \<Longrightarrow> kept s s'"
  by (cases c) (auto simp: on_udp_read_upstream_def udp_async_bidirectional_write_def
      udp_async_bidirectional_read_def kept_def kept_advance start_op_def Let_def rbind_eq_Inr
      split: if_splits option.splits)

lemma kept_relay: "kept s (on_read_upstream c s)" "kept s (on_read_downstream c s)"
  "kept s (on_send_downstream c s)" "kept s (on_send_upstream c s)"
  by (cases c; simp add: relay_defs kept_def)+

lemma kept_step:
  assumes "\<not> preauth p" and "on_complete allowed inp p c s = Inr s'"
  shows "kept s s'"
proof (cases p)
  case (Tcp_resolve h t k)
  then show ?thesis
    using assms(2) by (auto simp: on_tcp_resolve_def do_connect_def kept_def start_op_def split: completion.splits list.splits)
next
  case (Connect ep)
  then show ?thesis
    using assms(2) by (auto simp: on_connect_def async_bidirectional_read_def kept_def start_op_def Let_def split: completion.splits if_splits)
next
  case (Write_payload b)
  then show ?thesis
    using assms(2) by (auto simp: on_write_payload_def async_bidirectional_read_def kept_def start_op_def Let_def split: completion.splits)
next
  case Udp_first_read
  then show ?thesis
    using assms(2) kept_handle_udp by (cases c) (fastforce simp: on_udp_first_read_def kept_def)+
next
  case (Udp_first_resolve u k)
  then show ?thesis
    using assms(2) by (auto simp: on_udp_first_resolve_def udp_first_send_def kept_def start_op_def Let_def split: completion.splits list.splits if_splits)
next
  case (Udp_first_send b ep)
  then show ?thesis
    using assms(2) by (auto simp: on_udp_first_send_def udp_async_bidirectional_read_def kept_def start_op_def Let_def split: completion.splits)
next
  case (Udp_resolve u k)
  then show ?thesis
    using assms(2) by (auto simp: on_udp_resolve_def udp_async_bidirectional_write_def kept_def start_op_def Let_def split: completion.splits list.splits)
next
  case Udp_read_upstream
  then show ?thesis
    using assms(2) kept_udp_read_upstream by simp
next
  case Udp_receive
  then show ?thesis
    using assms(2) by (auto simp: on_udp_receive_def udp_async_bidirectional_write_def kept_def start_op_def Let_def split: completion.splits)
next
  case (Udp_send b ep)
  then show ?thesis
    using assms(2) by (auto simp: on_udp_send_def udp_async_bidirectional_read_def kept_def start_op_def split: completion.splits)
next
  case (Udp_write_upstream b)
  then show ?thesis
    using assms(2) by (auto simp: on_udp_write_upstream_def udp_async_bidirectional_read_def kept_def start_op_def split: completion.splits)
qed (use assms in \<open>auto simp: kept_relay\<close>)

text \<open>After the request was read, either the session is destroyed or the password is allowed.\<close>

lemma read_protocol_auth:
  assumes "on_read_protocol allowed inp c s = Inr s'" and "ss_pending s = []"
  shows "ss_pending s' = [] \<or> ss_password s' \<in> set allowed \<and> (\<forall>q \<in> set (ss_pending s'). \<not> preauth q)"
proof (cases c)
  case (Data d)
  let ?s = "s\<lparr>ss_in_buf := fill (ss_in_buf s) d\<rparr>"
  obtain ok t where t: "srv_parse_request d ?s = Inr (ok, t)"
    using assms(1) Data by (auto simp: on_read_protocol_def rbind_eq_Inr)
  have p: "ss_pending t = []"
    using t assms(2) by (auto simp: srv_parse_request_def rbind_eq_Inr split: if_splits)
  show ?thesis
    using assms(1) Data t p kept_do_resolve [of t inp]
      kept_handle_udp [of inp "t\<lparr>ss_udp_buff := tr_payload (ss_trojanReq t)\<rparr>" s']
    by (auto simp: on_read_protocol_def kept_def split: if_splits)
qed (use assms in \<open>auto simp: on_read_protocol_def\<close>)

definition auth_inv :: "bytes list \<Rightarrow> srv_session \<Rightarrow> srv_trace \<Rightarrow> bool" where
  "auth_inv allowed s tr \<longleftrightarrow>
     (\<forall>q \<in> set (ss_pending s) \<union> fst ` set tr. preauth q) \<or>
     ss_password s \<in> set allowed \<and> (\<forall>q \<in> set (ss_pending s). \<not> preauth q)"

lemma preauth_single:
  assumes "srv_inv s tr" and "p \<in> set (ss_pending s)" and "preauth p"
  shows "ss_pending s = [p]"
proof -
  have op: "opening_op p"
    using assms(3) by (cases p) auto
  have "inv_open s tr"
    using assms(1)
  proof (unfold srv_inv_def, elim disjE)
    assume "inv_tcp s tr"
    then obtain d u where "tcp_live s tr d u"
      by (auto simp: inv_tcp_live)
    then have "p = d \<or> p = u" "down_ok s d" "up_ok s u"
      using tcp_live_ops(2) assms(2) by (auto simp: tcp_live_def)
    then show ?thesis
      using op tcp_op_not_opening by blast
  next
    assume "inv_udp s tr"
    then obtain d u where "mset (ss_pending s) = {#d, u#}" "udp_down_op d" "udp_up_op u"
      by (auto simp: inv_udp_def)
    moreover from this have "d \<noteq> u"
      by (cases d) auto
    ultimately show ?thesis
      using pair_remove [of "ss_pending s" d u] assms(2) op udp_not_opening by auto
  qed (use assms(2) op in \<open>auto simp: inv_dead_def\<close>)
  then show ?thesis
    using assms(2) by (auto simp: inv_open_def)
qed

lemma auth_inv_step:
  assumes inv: "srv_inv s tr" and auth: "auth_inv allowed s tr" and p: "p \<in> set (ss_pending s)"
    and run: "on_complete allowed inp p c (finish p s) = Inr s'"
  shows "auth_inv allowed s' (tr @ [(p, c)])"
proof (cases "preauth p")
  case True
  note single = preauth_single [OF inv p True]
  then have e: "ss_pending (finish p s) = []"
    by simp
  have tr: "\<forall>q \<in> fst ` set (tr @ [(p, c)]). preauth q"
    using auth single True by (auto simp: auth_inv_def)
  show ?thesis
  proof (cases p)
    case Handshake
    then have "\<forall>q \<in> set (ss_pending s'). preauth q"
      using run e by (auto simp: on_handshake_def handle_custom_protocol_def split: completion.splits session_kind.splits)
    then show ?thesis
      using tr by (auto simp: auth_inv_def)
  next
    case Ws_accept
    then have "\<forall>q \<in> set (ss_pending s'). preauth q"
      using run e by (auto simp: on_accept_def handle_custom_protocol_def split: completion.splits)
    then show ?thesis
      using tr by (auto simp: auth_inv_def)
  next
    case Read_protocol
    then show ?thesis
      using read_protocol_auth [of allowed inp c "finish p s" s'] run e tr by (auto simp: auth_inv_def)
  qed (use True in auto)
next
  case False
  then have "ss_password s \<in> set allowed" "\<forall>q \<in> set (ss_pending s). \<not> preauth q"
    using auth p by (auto simp: auth_inv_def)
  then show ?thesis
    using kept_step [OF False run] set_remove1_subset [of p "ss_pending s"]
    by (auto simp: auth_inv_def kept_def)
qed

lemma srv_reach_auth: "srv_reach allowed kind s tr \<Longrightarrow> auth_inv allowed s tr"
proof (induction rule: srv_reach.induct)
  case (Init dns)
  then show ?case
    by (simp add: auth_inv_def srv_start_def srv_new_def start_op_def)
next
  case (Step s tr p c inp s')
  then show ?case
    using auth_inv_step srv_reach_inv by blast
next
  case (Dns s tr dns)
  then show ?case
    by (simp add: auth_inv_def)
qed

lemma srv_reach_tcp:
  assumes "srv_reach allowed kind s tr" and "ss_state s \<noteq> DESTROY"
    and q: "q \<in> set (ss_pending s)" and t: "tcp_relay_op q"
  shows "inv_tcp s tr"
proof -
  have "\<not> inv_udp s tr"
  proof
    assume "inv_udp s tr"
    then obtain d u where du: "mset (ss_pending s) = {#d, u#}" "udp_down_op d" "udp_up_op u"
      by (auto simp: inv_udp_def)
    moreover from this have "d \<noteq> u"
      by (cases d) auto
    ultimately have "q = d \<or> q = u"
      using pair_remove [of "ss_pending s" d u] q by blast
    then show False
      using t du by (cases q) auto
  qed
  moreover have "\<not> inv_open s tr"
    using q t udp_not_opening [of q] by (auto simp: inv_open_def)
  ultimately show ?thesis
    using srv_reach_inv [OF assms(1)] assms(2) by (auto simp: srv_inv_def inv_dead_def)
qed

subsection \<open>A concrete session\<close>

text \<open>A client with password \<open>p\<close> connects to \<open>x:80\<close>, sends one byte with its request and three more after it.\<close>

definition ex_req :: bytes where
  "ex_req = tr_generate [112] [120] 80 True @ [7]"

definition ex_ep :: endpoint where
  "ex_ep = \<lparr>ep_addr = Ip4 10 0 0 1, ep_port = 80\<rparr>"

definition ex_trace :: srv_trace where
  "ex_trace = [(Handshake, Done), (Read_protocol, Data ex_req),
     (Tcp_resolve [120] (to_dec 80) (dns_key [120] 80), Results [ex_ep]), (Connect ex_ep, Done),
     (Write_payload [7], Sent 1), (Read_upstream, Data [1, 2, 3])]"

lemma ex_not_v: "is_v_protocol (fill (replicate MAX_BUFF_SIZE 0) ex_req) = Inr False"
  by (simp add: is_v_protocol_def fill_def ex_req_def tr_generate_def crlf_def identifier_len_def v_identifier_def ascii_def)

lemma ex_parse:
  "tr_parse r ex_req = Inr (12, \<lparr>tr_command = T_CONNECT, tr_password = [112],
     tr_address = \<lparr>sa_type = DOMAINNAME, sa_address = [120], sa_port = 80\<rparr>, tr_payload = [7]\<rparr>)"
proof -
  have "find_str crlf [112] = None" "dom_ok [120]"
    by (simp_all add: crlf_def dom_ok_def)
  from tr_parse_generated [OF this, of r 80 True "[7]"] show ?thesis
    by (simp add: ex_req_def tr_generate_def)
qed

lemma ex_len: "length ex_req \<le> MAX_BUFF_SIZE"
  by (simp add: ex_req_def tr_generate_def MAX_BUFF_SIZE_def)

lemma ex_reach:
  "\<exists>s b. srv_reach [[112]] Tls s ex_trace \<and> ss_state s \<noteq> DESTROY \<and> ss_password s = [112] \<and>
     srv_payload s = [7] \<and> ring_contents (ss_ring_down s) = [1, 2, 3] \<and> ring_contents (ss_ring_up s) = [] \<and>
     ss_pending s = [Read_downstream, Send_downstream b]"
proof -
  let ?inp = "\<lparr>si_now = 0, si_open_ok = True\<rparr>"
  let ?K = "\<lambda>s. ss_trojanReq s = \<lparr>tr_command = T_CONNECT, tr_password = [112],
     tr_address = \<lparr>sa_type = DOMAINNAME, sa_address = [120], sa_port = 80\<rparr>, tr_payload = [7]\<rparr> \<and>
     \<not> ss_vprotocol s \<and> ss_password s = [112]"
  define s0 where "s0 = srv_start (srv_new Tls new_dns_cache)"
  have r0: "srv_reach [[112]] Tls s0 []"
    unfolding s0_def by (rule Init)
  have p0: "ss_pending s0 = [Handshake]" "ss_kind s0 = Tls" "ss_in_buf s0 = replicate MAX_BUFF_SIZE 0"
    "\<not> ss_vprotocol s0" "ss_dns s0 = new_dns_cache"
    by (simp_all add: s0_def srv_start_def srv_new_def start_op_def)
  define s1 where "s1 = handle_custom_protocol (finish Handshake s0)"
  have p1: "ss_pending s1 = [Read_protocol]" "ss_in_buf s1 = replicate MAX_BUFF_SIZE 0"
    "\<not> ss_vprotocol s1" "ss_dns s1 = new_dns_cache"
    by (simp_all add: s1_def handle_custom_protocol_def start_op_def p0 finish_def)
  have r1: "srv_reach [[112]] Tls s1 [(Handshake, Done)]"
    using Step [OF r0, of Handshake Done ?inp s1] p0 by (simp add: on_handshake_def s1_def finish_def)
  define k where "k = dns_key [120] 80"
  have "\<exists>s2. on_complete [[112]] ?inp Read_protocol (Data ex_req) (finish Read_protocol s1) = Inr s2 \<and>
      ss_pending s2 = [Tcp_resolve [120] (to_dec 80) k] \<and> ?K s2"
    using ex_not_v ex_parse
    by (simp add: on_read_protocol_def srv_parse_request_def p1 finish_def do_resolve_def Let_def start_op_def k_def)
  then obtain s2 where s2: "on_complete [[112]] ?inp Read_protocol (Data ex_req) (finish Read_protocol s1) = Inr s2"
    and p2: "ss_pending s2 = [Tcp_resolve [120] (to_dec 80) k]" "?K s2"
    by blast
  have r2: "srv_reach [[112]] Tls s2 [(Handshake, Done), (Read_protocol, Data ex_req)]"
    using Step [OF r1 _ _ s2] p1 ex_len by simp
  define s3 where "s3 = on_tcp_resolve ?inp k (Results [ex_ep]) (finish (Tcp_resolve [120] (to_dec 80) k) s2)"
  have p3: "ss_pending s3 = [Connect ex_ep]" "ss_state s3 = FORWARD" "?K s3"
    using p2 by (simp_all add: s3_def on_tcp_resolve_def do_connect_def start_op_def finish_def)
  have r3: "srv_reach [[112]] Tls s3 [(Handshake, Done), (Read_protocol, Data ex_req),
      (Tcp_resolve [120] (to_dec 80) k, Results [ex_ep])]"
    using Step [OF r2, of "Tcp_resolve [120] (to_dec 80) k" "Results [ex_ep]" ?inp s3] p2 by (simp add: s3_def)
  define s4 where "s4 = on_connect Done (finish (Connect ex_ep) s3)"
  have p4: "ss_pending s4 = [Write_payload [7]]" "ss_state s4 = FORWARD" "?K s4"
    using p3 by (simp_all add: s4_def on_connect_def start_op_def finish_def srv_payload_def)
  have r4: "srv_reach [[112]] Tls s4 [(Handshake, Done), (Read_protocol, Data ex_req),
      (Tcp_resolve [120] (to_dec 80) k, Results [ex_ep]), (Connect ex_ep, Done)]"
    using Step [OF r3, of "Connect ex_ep" Done ?inp s4] p3 by (simp add: s4_def)
  define s5 where "s5 = on_write_payload (Sent 1) (finish (Write_payload [7]) s4)"
  have p5: "ss_pending s5 = [Read_upstream, Read_downstream]" "ss_state s5 = FORWARD" "?K s5"
    using p4 by (simp_all add: s5_def on_write_payload_def async_bidirectional_read_def start_op_def finish_def)
  have r5: "srv_reach [[112]] Tls s5 [(Handshake, Done), (Read_protocol, Data ex_req),
      (Tcp_resolve [120] (to_dec 80) k, Results [ex_ep]), (Connect ex_ep, Done), (Write_payload [7], Sent 1)]"
    using Step [OF r4, of "Write_payload [7]" "Sent 1" ?inp s5] p4 by (simp add: s5_def)
  define s6 where "s6 = on_read_upstream (Data [1, 2, 3]) (finish Read_upstream s5)"
  have r6: "srv_reach [[112]] Tls s6 ex_trace"
    using Step [OF r5, of Read_upstream "Data [1, 2, 3]" ?inp s6] p5
    by (simp add: s6_def ex_trace_def k_def MAX_BUFF_SIZE_def)
  have "inv_tcp s5 [(Handshake, Done), (Read_protocol, Data ex_req),
      (Tcp_resolve [120] (to_dec 80) k, Results [ex_ep]), (Connect ex_ep, Done), (Write_payload [7], Sent 1)]"
    using srv_reach_tcp [OF r5, of Read_upstream] p5 by simp
  then obtain d u where live: "tcp_live s5 [(Handshake, Done), (Read_protocol, Data ex_req),
      (Tcp_resolve [120] (to_dec 80) k, Results [ex_ep]), (Connect ex_ep, Done), (Write_payload [7], Sent 1)] d u"
    by (auto simp: inv_tcp_live)
  then have du: "down_ok s5 d" "up_ok s5 u" "{Read_upstream, Read_downstream} = {d, u}"
    using tcp_live_ops(2) [OF live] p5(1) by (simp_all add: tcp_live_def)
  then have "d = Read_upstream" "u = Read_downstream"
    by (auto simp: doubleton_eq_iff down_ok_def up_ok_def split: if_splits)
  then have ok: "down_ok s5 Read_upstream" "up_ok s5 Read_downstream"
    using du by simp_all
  have f: "down_ok (finish Read_upstream s5) Read_upstream" "ss_state (finish Read_upstream s5) \<noteq> DESTROY"
    "length [1, 2, 3 :: byte] \<le> MAX_BUFF_SIZE"
    using ok p5 by (simp_all add: MAX_BUFF_SIZE_def)
  note step = read_upstream_step [OF f, folded s6_def]
  obtain q where q: "ss_pending s6 = [Read_downstream, q]" "down_ok s6 q" "ring_contents (ss_ring_down s6) = [1, 2, 3]"
    using step(1) p5(1) by auto
  obtain b where "q = Send_downstream b"
    using q(2,3) by (auto simp: down_ok_def split: if_splits)
  moreover have "ring_contents (ss_ring_up s5) = []"
    using ok(2) by (auto simp: up_ok_def split: if_splits)
  moreover have "srv_payload s6 = [7]" "ss_password s6 = [112]"
    using p5 step(3) kept_relay(1) [of "finish Read_upstream s5" "Data [1, 2, 3]", folded s6_def]
    by (simp_all add: srv_payload_def [of s5] kept_def)
  ultimately show ?thesis
    using r6 q step(2,5) p5(2) by (intro exI [of _ s6] exI [of _ b]) simp
qed

subsection \<open>Properties\<close>

text \<open>C2: authentication comes first. In every reachable session, if any operation other than the handshakes
  and the read of the request was ever completed or is outstanding (a name resolution, a connection, a write
  to a target, a relay), then the password the client sent is one of the configured ones.\<close>

theorem srv_no_proxy_before_auth:
  assumes "srv_reach allowed kind s tr" and "q \<in> set (ss_pending s) \<union> fst ` set tr"
    and "q \<notin> {Handshake, Ws_accept, Read_protocol}"
  shows "ss_password s \<in> set allowed"
proof -
  have "\<not> preauth q"
    using assms(3) by (cases q) auto
  then show ?thesis
    using srv_reach_auth [OF assms(1)] assms(2) by (auto simp: auth_inv_def)
qed

theorem srv_no_proxy_before_auth_witness:
  "\<exists>s. srv_reach [[112]] Tls s ex_trace \<and> ss_password s \<in> set [[112]]"
proof -
  obtain s b where s: "srv_reach [[112]] Tls s ex_trace" "ss_pending s = [Read_downstream, Send_downstream b]"
    using ex_reach by blast
  then show ?thesis
    using srv_no_proxy_before_auth [OF s(1), of Read_downstream] by auto
qed

text \<open>C3: the TCP relay is transparent. In every reachable live session that relays, under every
  interleaving, the bytes received from the client, with the payload that came with the request in front,
  are exactly the bytes written to the target followed by those waiting in the buffer, and likewise from the
  target to the client: nothing is lost, duplicated, altered or reordered, and the directions do not mix.\<close>

theorem srv_relay_transparent:
  assumes "srv_reach allowed kind s tr" and "ss_state s \<noteq> DESTROY"
    and "q \<in> set (ss_pending s)" and "tcp_relay_op q"
  shows "srv_payload s @ hist rx_down tr = hist tx_down tr @ ring_contents (ss_ring_down s) \<and>
    hist rx_up tr = hist tx_up tr @ ring_contents (ss_ring_up s)"
  using srv_reach_tcp [OF assms] by (simp add: inv_tcp_def)

theorem srv_relay_transparent_witness:
  "\<exists>s. srv_reach [[112]] Tls s ex_trace \<and> ss_state s \<noteq> DESTROY \<and>
     [7] @ [1, 2, 3] = hist tx_down ex_trace @ ring_contents (ss_ring_down s)"
proof -
  obtain s b where s: "srv_reach [[112]] Tls s ex_trace" "ss_state s \<noteq> DESTROY" "srv_payload s = [7]"
    "ss_pending s = [Read_downstream, Send_downstream b]"
    using ex_reach by blast
  then show ?thesis
    using srv_relay_transparent [OF s(1,2), of Read_downstream]
    by (intro exI [of _ s]) (simp add: ex_trace_def hist_def)
qed

text \<open>C5: the TCP relay never stalls and never overlaps: while it is live, each direction has exactly one
  operation outstanding. It reads exactly when its buffer is empty, and otherwise it is sending the head of
  the buffer with reading paused, so two reads or two writes on one socket never coexist.\<close>

theorem srv_relay_progress:
  assumes "srv_reach allowed kind s tr" and "ss_state s \<noteq> DESTROY"
    and "q \<in> set (ss_pending s)" and "tcp_relay_op q"
  shows "mset (ss_pending s) =
    {# if ring_contents (ss_ring_down s) = [] then Read_upstream
       else Send_downstream (ring_peek (ss_ring_down s)),
       if ring_contents (ss_ring_up s) = [] then Read_downstream
       else Send_upstream (ring_peek (ss_ring_up s)) #}"
  using srv_reach_tcp [OF assms] by (auto simp: inv_tcp_def down_ok_def up_ok_def)

theorem srv_relay_progress_witness:
  "\<exists>s. srv_reach [[112]] Tls s ex_trace \<and>
     mset (ss_pending s) = {# Send_downstream (ring_peek (ss_ring_down s)), Read_downstream #}"
proof -
  obtain s b where s: "srv_reach [[112]] Tls s ex_trace" "ss_state s \<noteq> DESTROY"
    "ring_contents (ss_ring_down s) = [1, 2, 3]" "ring_contents (ss_ring_up s) = []"
    "ss_pending s = [Read_downstream, Send_downstream b]"
    using ex_reach by blast
  then show ?thesis
    using srv_relay_progress [OF s(1,2), of Read_downstream] by (intro exI [of _ s]) simp
qed



end
