(* ===== verification/ServerSafety.thy ===== *)
theory ServerSafety
  imports ServerRelay
begin

text \<open>
  More about the server session of \<^verbatim>\<open>Server/Session.cpp\<close>, over every interleaving of its completions: its buffers
  keep their sizes and its offsets stay inside them, which exceptions its handlers can raise, and that a UDP session
  sends the datagrams of its client once each and in order.
\<close>

subsection \<open>Buffers\<close>

definition bufs :: "srv_session \<Rightarrow> bytes \<times> bytes \<times> bytes \<times> nat" where
  "bufs s = (ss_in_buf s, ss_out_buf s, ss_udp_buff s, ss_udp_off s)"

lemma bufs_start [simp]: "bufs (start_op q s) = bufs s"
  by (simp add: start_op_def bufs_def)

lemma bufs_destroy [simp]: "bufs (srv_destroy s) = bufs s"
  by (simp add: srv_destroy_def base_destroy_def bufs_def)

lemma bufs_finish [simp]: "bufs (finish p s) = bufs s"
  by (simp add: finish_def bufs_def)

lemma bufs_handlers [simp]:
  "bufs (do_connect ep s) = bufs s" "bufs (do_resolve inp s) = bufs s" "bufs (udp_first_send inp pl ep s) = bufs s"
  "bufs (async_bidirectional_read dir s) = bufs s" "bufs (udp_async_bidirectional_read dir s) = bufs s"
  "bufs (udp_async_bidirectional_write dir pl ep s) = bufs s" "bufs (do_send_down s) = bufs s" "bufs (do_send_up s) = bufs s"
  "bufs (enqueue_write dir d s) = bufs s" "bufs (async_bidirectional_write dir n s) = bufs s"
  by (auto simp: do_connect_def do_resolve_def udp_first_send_def async_bidirectional_read_def udp_async_bidirectional_read_def
      udp_async_bidirectional_write_def do_send_down_def do_send_up_def enqueue_write_def async_bidirectional_write_def Let_def
      start_op_def bufs_def srv_destroy_def base_destroy_def split: option.splits direction.splits)

text \<open>The size of everything, after \<open>n\<close> completions; before the request was read the datagram buffer is empty.\<close>

definition bufs_ok :: "nat \<Rightarrow> bytes \<times> bytes \<times> bytes \<times> nat \<Rightarrow> bool" where
  "bufs_ok n = (\<lambda>(in_buf, out_buf, udp, off).
     length in_buf = MAX_BUFF_SIZE \<and> length out_buf = MAX_BUFF_SIZE \<and> off \<le> length udp \<and> length udp \<le> MAX_BUFF_SIZE * n)"

definition sized :: "nat \<Rightarrow> srv_session \<Rightarrow> bool" where
  "sized n s \<longleftrightarrow> bufs_ok n (bufs s) \<and> ((\<exists>q \<in> set (ss_pending s). preauth q) \<longrightarrow> ss_udp_buff s = [] \<and> ss_udp_off s = 0)"

lemma bufs_ok_mono: "bufs_ok m b \<Longrightarrow> m \<le> n \<Longrightarrow> bufs_ok n b"
  unfolding bufs_ok_def by (auto intro: order_trans [OF _ mult_le_mono2])

lemma bufs_ok_advance:
  assumes "bufs_ok n (bufs s)" and "ss_udp_off s + k \<le> length (ss_udp_buff s)"
  shows "bufs_ok n (bufs (udp_advance k s))"
  using assms by (auto simp: bufs_ok_def bufs_def udp_advance_def Let_def)

lemma bufs_ok_fill:
  assumes "bufs_ok n (bufs s)" and "length d \<le> MAX_BUFF_SIZE"
  shows "bufs_ok (Suc n) (bufs (s\<lparr>ss_in_buf := fill (ss_in_buf s) d, ss_udp_buff := ss_udp_buff s @ d\<rparr>))"
    and "bufs_ok n (bufs (s\<lparr>ss_in_buf := fill (ss_in_buf s) d\<rparr>))"
    and "bufs_ok n (bufs (s\<lparr>ss_out_buf := fill (ss_out_buf s) d\<rparr>))"
  using assms by (auto simp: bufs_ok_def bufs_def)

lemma udp_remaining_in:
  assumes "ss_udp_off s \<le> length (ss_udp_buff s)" and "length (ss_udp_buff s) \<le> string_max_size"
  shows "udp_remaining s = Inr (drop (ss_udp_off s) (ss_udp_buff s))"
  using assms by (simp add: udp_remaining_def)

lemma udp_remaining_eq: "ss_udp_off s \<le> length (ss_udp_buff s) \<Longrightarrow> udp_remaining s = Inr x \<Longrightarrow> x = drop (ss_udp_off s) (ss_udp_buff s)"
  by (auto simp: udp_remaining_def rdn_def split: if_splits)

lemma up_parse_len: "up_parse u x n = Inr (True, v, m) \<Longrightarrow> m \<le> length x"
  using up_parse_append [of u x n v m "[]"] by simp

lemma bufs_ok_handle_udp:
  assumes "bufs_ok n (bufs s)" and "handle_trojan_udp_proxy inp s = Inr s'"
  shows "bufs_ok n (bufs s')"
proof -
  let ?s = "s\<lparr>ss_state := FORWARD\<rparr>"
  have ok: "bufs_ok n (bufs ?s)" and off: "ss_udp_off ?s \<le> length (ss_udp_buff ?s)"
    using assms(1) by (simp_all add: bufs_def bufs_ok_def)
  obtain rm v u m where r: "udp_remaining ?s = Inr rm" "up_parse new_udp_packet rm 0 = Inr (v, u, m)"
    using assms(2) by (auto simp: handle_trojan_udp_proxy_def Let_def rbind_eq_Inr)
  have "bufs_ok n (bufs (udp_advance m ?s))" if v
    using r that udp_remaining_eq [OF off r(1)] up_parse_len [of new_udp_packet rm 0 u m] off
    by (intro bufs_ok_advance [OF ok]) simp
  then show ?thesis
    using assms(2) r ok
    by (auto simp: handle_trojan_udp_proxy_def Let_def udp_upstream_read_def split: if_splits option.splits)
qed

lemma bufs_ok_udp_read:
  assumes "bufs_ok n (bufs s)" and "fits Udp_read_upstream c" and "on_udp_read_upstream inp c s = Inr s'"
  shows "bufs_ok (Suc n) (bufs s')"
proof (cases c)
  case (Data d)
  let ?s = "s\<lparr>ss_in_buf := fill (ss_in_buf s) d, ss_udp_buff := ss_udp_buff s @ d\<rparr>"
  have ok: "bufs_ok (Suc n) (bufs ?s)"
    using assms(1,2) Data bufs_ok_fill(1) by simp
  then have off: "ss_udp_off ?s \<le> length (ss_udp_buff ?s)"
    by (simp add: bufs_def bufs_ok_def)
  obtain rm v u m where r: "udp_remaining ?s = Inr rm" "up_parse new_udp_packet rm 0 = Inr (v, u, m)"
    using assms(3) Data by (auto simp: on_udp_read_upstream_def Let_def rbind_eq_Inr)
  have "bufs_ok (Suc n) (bufs (udp_advance m ?s))" if v
    using r that udp_remaining_eq [OF off r(1)] up_parse_len [of new_udp_packet rm 0 u m] off
    by (intro bufs_ok_advance [OF ok]) simp
  then show ?thesis
    using assms(3) Data r ok by (auto simp: on_udp_read_upstream_def Let_def split: if_splits option.splits)
qed (use assms bufs_ok_mono [OF assms(1), of "Suc n"] in \<open>auto simp: on_udp_read_upstream_def\<close>)

lemma bufs_update [simp]:
  "bufs (s\<lparr>ss_dns := dns\<rparr>) = bufs s" "bufs (s\<lparr>ss_ring_down := r\<rparr>) = bufs s" "bufs (s\<lparr>ss_ring_up := r\<rparr>) = bufs s"
  by (simp_all add: bufs_def)

lemma bufs_ok_step:
  assumes "\<not> preauth p" and ok: "bufs_ok n (bufs s)" and fit: "fits p c" and run: "on_complete allowed inp p c s = Inr s'"
  shows "bufs_ok (Suc n) (bufs s')"
proof -
  have up: "bufs_ok (Suc n) b" if "bufs_ok n b" for b
    using bufs_ok_mono [OF that] by simp
  show ?thesis
  proof (cases p)
    case Udp_read_upstream
    then show ?thesis
      using bufs_ok_udp_read [OF ok] fit run by simp
  next
    case Udp_first_read
    then show ?thesis
      using run fit up [OF ok] bufs_ok_handle_udp [OF bufs_ok_fill(1) [OF ok]]
      by (cases c) (auto simp: on_udp_first_read_def)
  next
    case Read_upstream
    then show ?thesis
      using run fit up [OF ok] up [OF bufs_ok_fill(2) [OF ok]] by (cases c) (auto simp: on_read_upstream_def)
  next
    case Read_downstream
    then show ?thesis
      using run fit up [OF ok] up [OF bufs_ok_fill(3) [OF ok]] by (cases c) (auto simp: on_read_downstream_def)
  next
    case Udp_receive
    then show ?thesis
      using run fit up [OF ok] up [OF bufs_ok_fill(3) [OF ok]] by (cases c) (auto simp: on_udp_receive_def Let_def)
  qed (use assms(1) run up [OF ok] in \<open>auto simp: on_tcp_resolve_def on_connect_def on_write_payload_def on_send_downstream_def
      on_send_upstream_def on_udp_first_resolve_def on_udp_first_send_def on_udp_resolve_def on_udp_send_def
      on_udp_write_upstream_def Let_def split: completion.splits list.splits if_splits\<close>)
qed

text \<open>The request: its payload is a part of the bytes read, and nothing was buffered before.\<close>

lemma tr_payload_le: "tr_parse r d = Inr (k, q) \<Longrightarrow> k \<noteq> - 1 \<Longrightarrow> length (tr_payload q) \<le> length d"
proof -
  assume a: "tr_parse r d = Inr (k, q)" "k \<noteq> - 1"
  then show ?thesis
  proof (cases d r rule: tr_parse_cases)
    case (split pw pl)
    then show ?thesis
      using tr_parse_accepts [OF split(2), of r pl k q] a by auto
  qed simp
qed

lemma srv_parse_request_bufs:
  assumes "srv_parse_request d s = Inr (ok, t)"
  shows "bufs t = bufs s" and "ss_pending t = ss_pending s"
    and "ok \<Longrightarrow> \<not> ss_vprotocol t \<Longrightarrow> length (tr_payload (ss_trojanReq t)) \<le> length d"
  using assms tr_payload_le [of "ss_trojanReq s" d]
  by (auto simp: srv_parse_request_def rbind_eq_Inr bufs_def split: if_splits)

lemma bufs_ok_read_protocol:
  assumes "bufs_ok n (bufs s)" and "ss_udp_off s = 0" and "fits Read_protocol c" and "on_read_protocol allowed inp c s = Inr s'"
  shows "bufs_ok (Suc n) (bufs s')"
proof (cases c)
  case (Data d)
  let ?s = "s\<lparr>ss_in_buf := fill (ss_in_buf s) d\<rparr>"
  obtain ok t where t: "srv_parse_request d ?s = Inr (ok, t)"
    using assms(4) Data by (auto simp: on_read_protocol_def rbind_eq_Inr)
  have s: "bufs_ok n (bufs ?s)" "ss_udp_off ?s = 0" "length d \<le> MAX_BUFF_SIZE"
    using assms(1-3) Data bufs_ok_fill(2) by simp_all
  have ok_t: "bufs_ok (Suc n) (bufs t)"
    using s(1) bufs_ok_mono srv_parse_request_bufs(1) [OF t] by simp
  have off: "ss_udp_off t = 0"
    using s(2) srv_parse_request_bufs(1) [OF t] by (simp add: bufs_def)
  have "bufs_ok (Suc n) (bufs (t\<lparr>ss_udp_buff := tr_payload (ss_trojanReq t)\<rparr>))" if "ok" "\<not> ss_vprotocol t"
    using ok_t off srv_parse_request_bufs(3) [OF t that] s(3) by (simp add: bufs_ok_def bufs_def)
  then show ?thesis
    using assms(4) Data t ok_t bufs_ok_handle_udp by (auto simp: on_read_protocol_def split: if_splits)
qed (use assms bufs_ok_mono [OF assms(1), of "Suc n"] in \<open>auto simp: on_read_protocol_def\<close>)

lemma sized_step:
  assumes inv: "srv_inv s tr" and "sized n s" and p: "p \<in> set (ss_pending s)" and fit: "fits p c"
    and run: "on_complete allowed inp p c (finish p s) = Inr s'"
  shows "sized (Suc n) s'"
proof (cases "preauth p")
  case True
  note single = preauth_single [OF inv p True]
  have s: "bufs_ok n (bufs (finish p s))" "ss_udp_buff (finish p s) = []" "ss_udp_off (finish p s) = 0" "ss_pending (finish p s) = []"
    using assms(2) p True single by (auto simp: sized_def) (simp_all add: finish_def)
  have keep: "sized (Suc n) t" if "bufs t = bufs (finish p s)" for t
    using that s(1-3) bufs_ok_mono [OF s(1)] by (auto simp: sized_def bufs_def)
  show ?thesis
  proof (cases p)
    case Handshake
    then show ?thesis
      using run by (intro keep) (auto simp: on_handshake_def handle_custom_protocol_def split: completion.splits session_kind.splits)
  next
    case Ws_accept
    then show ?thesis
      using run by (intro keep) (auto simp: on_accept_def handle_custom_protocol_def split: completion.splits)
  next
    case Read_protocol
    then show ?thesis
      using bufs_ok_read_protocol [OF s(1,3)] read_protocol_auth [of allowed inp c "finish p s" s'] run fit s(4)
      by (auto simp: sized_def)
  qed (use True in auto)
next
  case False
  have none: "\<not> preauth q" if "q \<in> set (ss_pending s)" for q
    using preauth_single [OF inv that] p False by auto
  have "bufs_ok (Suc n) (bufs s')"
    using assms(2) by (intro bufs_ok_step [OF False _ fit run]) (simp add: sized_def)
  then show ?thesis
    using none kept_step [OF False run] set_remove1_subset [of p "ss_pending s"] by (auto simp: sized_def kept_def)
qed

lemma srv_reach_sized: "srv_reach allowed kind s tr \<Longrightarrow> sized (length tr) s"
proof (induction rule: srv_reach.induct)
  case (Init dns)
  then show ?case
    by (simp add: sized_def bufs_ok_def srv_start_def srv_new_def start_op_def bufs_def)
next
  case (Step s tr p c inp s')
  then show ?case
    using sized_step srv_reach_inv by fastforce
next
  case (Dns s tr dns)
  then show ?case
    by (simp add: sized_def)
qed

subsection \<open>Rings\<close>

definition rings :: "srv_session \<Rightarrow> (ring \<times> ring) option" where
  "rings s = (if ss_state s = DESTROY then None else Some (ss_ring_down s, ss_ring_up s))"

lemma rings_simps [simp]:
  "rings (start_op q s) = rings s" "rings (finish p s) = rings s" "rings (srv_destroy s) = None" "rings (s\<lparr>ss_dns := dns\<rparr>) = rings s"
  "rings (s\<lparr>ss_in_buf := b\<rparr>) = rings s" "rings (s\<lparr>ss_out_buf := b\<rparr>) = rings s" "rings (s\<lparr>ss_udp_open := b2\<rparr>) = rings s"
  "rings (udp_advance k s) = rings s" "rings (udp_async_bidirectional_read dir s) = rings s"
  "rings (udp_async_bidirectional_write dir pl ep s) = rings s" "rings (async_bidirectional_read dir s) = rings s"
  by (auto simp: rings_def start_op_def finish_def udp_advance_def udp_async_bidirectional_read_def udp_async_bidirectional_write_def
      async_bidirectional_read_def Let_def split: direction.splits)

definition rings_kept :: "srv_session \<Rightarrow> srv_session \<Rightarrow> bool" where
  "rings_kept s s' \<longleftrightarrow> (\<forall>r. rings s' = Some r \<longrightarrow> r = (ss_ring_down s, ss_ring_up s))"

lemma rings_same: "rings s' = rings s \<or> rings s' = None \<Longrightarrow> rings_kept s s'"
  by (auto simp: rings_kept_def rings_def split: if_splits)

lemma rings_kept_forward: "rings_kept s (s\<lparr>ss_state := FORWARD\<rparr>)" "rings_kept s (do_connect ep s)"
  by (auto simp: rings_kept_def rings_def do_connect_def start_op_def)

lemma rings_kept_handle_udp: "handle_trojan_udp_proxy inp s = Inr s' \<Longrightarrow> rings_kept s s'"
  by (auto simp: handle_trojan_udp_proxy_def rings_kept_def udp_first_send_def udp_upstream_read_def Let_def rbind_eq_Inr
      split: if_splits option.splits) (auto simp: rings_def)

lemma rings_kept_do_resolve: "rings_kept s (do_resolve inp s)"
  by (auto simp: do_resolve_def rings_kept_def do_connect_def start_op_def rings_def Let_def split: option.splits if_splits)

lemma rings_kept_read_protocol:
  assumes "on_read_protocol allowed inp c s = Inr s'"
  shows "rings_kept s s'"
proof (cases c)
  case (Data d)
  let ?s = "s\<lparr>ss_in_buf := fill (ss_in_buf s) d\<rparr>"
  obtain ok t where t: "srv_parse_request d ?s = Inr (ok, t)"
    using assms Data by (auto simp: on_read_protocol_def rbind_eq_Inr)
  have same: "ss_ring_down t = ss_ring_down s" "ss_ring_up t = ss_ring_up s"
    using t by (auto simp: srv_parse_request_def rbind_eq_Inr split: if_splits)
  show ?thesis
    using assms Data t same rings_kept_do_resolve [of t inp]
      rings_kept_handle_udp [of inp "t\<lparr>ss_udp_buff := tr_payload (ss_trojanReq t)\<rparr>" s']
    by (auto simp: on_read_protocol_def rings_kept_def split: if_splits)
qed (use assms in \<open>auto simp: on_read_protocol_def rings_kept_def\<close>)

lemma rings_kept_udp_read: "on_udp_read_upstream inp c s = Inr s' \<Longrightarrow> rings_kept s s'"
  by (cases c) (auto simp: on_udp_read_upstream_def rings_kept_def Let_def rbind_eq_Inr split: if_splits option.splits,
      auto simp: rings_def split: if_splits)

lemma rings_kept_step:
  assumes "\<not> tcp_relay_op p" and run: "on_complete allowed inp p c s = Inr s'"
  shows "rings_kept s s'"
proof (cases p)
  case Read_protocol
  then show ?thesis
    using rings_kept_read_protocol run by simp
next
  case Udp_first_read
  then show ?thesis
    using run rings_kept_handle_udp by (cases c) (fastforce simp: on_udp_first_read_def rings_kept_def)+
next
  case Udp_read_upstream
  then show ?thesis
    using run rings_kept_udp_read by simp
next
  case (Tcp_resolve h t k)
  then show ?thesis
    using run rings_kept_forward(2) by (auto simp: on_tcp_resolve_def rings_kept_def do_connect_def rings_def split: completion.splits list.splits)
qed (rule rings_same; use assms in \<open>auto simp: on_handshake_def on_accept_def handle_custom_protocol_def on_connect_def on_write_payload_def
    on_udp_first_resolve_def udp_first_send_def on_udp_first_send_def on_udp_receive_def on_udp_resolve_def on_udp_send_def
    on_udp_write_upstream_def Let_def split: completion.splits list.splits session_kind.splits if_splits\<close>)+

lemma srv_reach_rings: "srv_reach allowed kind s tr \<Longrightarrow> ss_state s \<noteq> DESTROY \<Longrightarrow> ring_ok (ss_ring_down s) \<and> ring_ok (ss_ring_up s)"
proof (induction rule: srv_reach.induct)
  case (Init dns)
  have "ring_ok (ring_new 65536)"
    using ring_new_inv [of 65536] by (simp add: ring_ok_def ring_new_def MAX_BUFF_SIZE_def)
  then show ?case
    by (simp add: srv_start_def srv_new_def start_op_def)
next
  case (Step s tr p c inp s')
  have inv: "srv_inv s tr"
    using Step.hyps(1) by (rule srv_reach_inv)
  have alive: "ss_state s \<noteq> DESTROY"
    using inv_dead_step [OF _ Step.hyps(2,4)] inv Step.prems
    by (auto simp: srv_inv_def inv_open_def inv_tcp_def inv_udp_def inv_dead_def)
  show ?case
  proof (cases "tcp_relay_op p")
    case True
    then have "inv_tcp s' (tr @ [(p, c)])"
      using inv_tcp_step [OF srv_reach_tcp [OF Step.hyps(1) alive Step.hyps(2)] Step.hyps(2,3,4)] Step.prems by (auto simp: inv_dead_def)
    then show ?thesis
      by (auto simp: inv_tcp_def down_ok_def up_ok_def)
  next
    case False
    then show ?thesis
      using rings_kept_step [OF False Step.hyps(4)] Step.IH [OF alive] Step.prems by (simp add: rings_kept_def rings_def)
  qed
qed simp

subsection \<open>Exceptions\<close>

lemma udp_handlers_no_fault:
  assumes "bufs_ok n (bufs s)" and "MAX_BUFF_SIZE * Suc n \<le> string_max_size"
  shows "fits Udp_first_read c \<Longrightarrow> \<exists>s'. on_udp_first_read inp c s = Inr s'"
    and "fits Udp_read_upstream c \<Longrightarrow> \<exists>s'. on_udp_read_upstream inp c s = Inr s'"
    and "\<exists>s'. handle_trojan_udp_proxy inp s = Inr s'"
proof -
  have rem: "udp_remaining t = Inr (drop (ss_udp_off t) (ss_udp_buff t))" if "bufs_ok (Suc n) (bufs t)" for t
    using that assms(2) by (intro udp_remaining_in) (auto simp: bufs_ok_def bufs_def)
  have handle: "\<exists>s'. handle_trojan_udp_proxy inp t = Inr s'" if "bufs_ok (Suc n) (bufs t)" for t
    using up_parse_no_fault [of new_udp_packet "drop (ss_udp_off t) (ss_udp_buff t)" 0] rem [of "t\<lparr>ss_state := FORWARD\<rparr>"] that
    by (auto simp: handle_trojan_udp_proxy_def Let_def bufs_def split: option.split)
  then show "\<exists>s'. handle_trojan_udp_proxy inp s = Inr s'"
    using bufs_ok_mono [OF assms(1)] by simp
  show "\<exists>s'. on_udp_first_read inp c s = Inr s'" if "fits Udp_first_read c"
    using that handle [OF bufs_ok_fill(1) [OF assms(1)]] by (cases c) (auto simp: on_udp_first_read_def)
  show "\<exists>s'. on_udp_read_upstream inp c s = Inr s'" if "fits Udp_read_upstream c"
  proof (cases c)
    case (Data d)
    let ?s = "s\<lparr>ss_in_buf := fill (ss_in_buf s) d, ss_udp_buff := ss_udp_buff s @ d\<rparr>"
    show ?thesis
      using up_parse_no_fault [of new_udp_packet "drop (ss_udp_off ?s) (ss_udp_buff ?s)" 0] rem [OF bufs_ok_fill(1) [OF assms(1)], of d] that Data
      by (auto simp: on_udp_read_upstream_def Let_def split: option.split)
  qed (simp_all add: on_udp_read_upstream_def)
qed

lemma read_protocol_fault:
  assumes "bufs_ok n (bufs s)" and "ss_udp_off s = 0" and "MAX_BUFF_SIZE * Suc (Suc n) \<le> string_max_size"
    and "fits Read_protocol c" and "on_read_protocol allowed inp c s = Inl e"
  shows "\<exists>d. c = Data d \<and> vr_unstream (ss_v_req s) d = Inl e \<and> take 10 (fill (ss_in_buf s) d) = v_identifier"
proof -
  obtain d where c: "c = Data d"
    using assms(5) by (cases c) (auto simp: on_read_protocol_def)
  let ?s = "s\<lparr>ss_in_buf := fill (ss_in_buf s) d\<rparr>"
  have d: "length d \<le> MAX_BUFF_SIZE" and in_buf: "length (fill (ss_in_buf s) d) = MAX_BUFF_SIZE"
    using assms(1,4) c by (simp_all add: bufs_ok_def bufs_def)
  have v: "is_v_protocol (fill (ss_in_buf s) d) = Inr (take 10 (fill (ss_in_buf s) d) = v_identifier)"
    using in_buf by (simp add: is_v_protocol_def identifier_len_def MAX_BUFF_SIZE_def small_le_string_max)
  obtain k q where tr: "tr_parse (ss_trojanReq s) d = Inr (k, q)"
    using tr_parse_no_fault by blast
  have "\<exists>s'. on_read_protocol allowed inp c s = Inr s'" if p: "srv_parse_request d ?s = Inr (ok, t)" for ok t
  proof -
    have "bufs_ok (Suc n) (bufs (t\<lparr>ss_udp_buff := tr_payload (ss_trojanReq t)\<rparr>))" if "ok" "\<not> ss_vprotocol t"
    proof -
      have "bufs t = bufs ?s"
        using p by (rule srv_parse_request_bufs(1))
      moreover have "length (tr_payload (ss_trojanReq t)) \<le> MAX_BUFF_SIZE"
        using srv_parse_request_bufs(3) [OF p that] d by simp
      ultimately show ?thesis
        using assms(1,2) in_buf by (simp add: bufs_def bufs_ok_def)
    qed
    then show ?thesis
      using p c udp_handlers_no_fault(3) [OF _ assms(3)] by (auto simp: on_read_protocol_def)
  qed
  then have "\<exists>e'. srv_parse_request d ?s = Inl e'"
    using assms(5) by (cases "srv_parse_request d ?s") auto
  then show ?thesis
    using assms(5) v tr c by (auto simp: srv_parse_request_def on_read_protocol_def rbind_def split: sum.splits if_splits)
qed

subsection \<open>Reading a V request\<close>

text \<open>Before the first request was read its object is as the constructor left it.\<close>

lemma srv_reach_untouched:
  "srv_reach allowed kind s tr \<Longrightarrow> \<exists>q \<in> set (ss_pending s). preauth q \<Longrightarrow> vr_packed_buff (ss_v_req s) = []"
proof (induction rule: srv_reach.induct)
  case (Init dns)
  then show ?case
    by (simp add: srv_start_def srv_new_def start_op_def)
next
  case (Step s tr p c inp s')
  have inv: "srv_inv s tr"
    using Step.hyps(1) by (rule srv_reach_inv)
  have p: "preauth p"
  proof (rule ccontr)
    assume np: "\<not> preauth p"
    then have "\<not> preauth q" if "q \<in> set (ss_pending s)" for q
      using preauth_single [OF inv that] Step.hyps(2) by auto
    then show False
      using kept_step [OF np Step.hyps(4)] set_remove1_subset [of p "ss_pending s"] Step.prems by (auto simp: kept_def)
  qed
  then have e: "ss_pending (finish p s) = []" and old: "vr_packed_buff (ss_v_req s) = []"
    using preauth_single [OF inv Step.hyps(2)] Step.IH Step.hyps(2) by auto
  have "p \<noteq> Read_protocol"
    using read_protocol_auth [of allowed inp c "finish p s" s'] Step.hyps(4) Step.prems e by auto
  then have "ss_v_req s' = ss_v_req s"
    using p Step.hyps(4)
    by (cases p) (auto simp: on_handshake_def on_accept_def handle_custom_protocol_def start_op_def srv_destroy_def base_destroy_def
        finish_def split: completion.splits session_kind.splits)
  then show ?case
    using old by simp
qed simp

lemma read_v_request:
  assumes "length (ss_in_buf s) = MAX_BUFF_SIZE" and "vr_packed_buff (ss_v_req s) = []" and "length (vr_wire r @ x) \<le> MAX_BUFF_SIZE"
  defines "t \<equiv> s\<lparr>ss_in_buf := fill (ss_in_buf s) (vr_wire r @ x),
    ss_v_req := r\<lparr>vr_len := of_nat (length (vr_wire r)), vr_packed_buff := x\<rparr>, ss_password := vr_password r, ss_vprotocol := True\<rparr>"
  shows "on_read_protocol allowed inp (Data (vr_wire r @ x)) s = Inr (if vr_password r \<in> set allowed then do_resolve inp t else srv_destroy t)"
proof -
  have "is_v_protocol (fill (ss_in_buf s) (vr_wire r @ x)) = Inr True"
    using is_v_protocol_wire [of r "x @ drop (length (vr_wire r @ x)) (ss_in_buf s)"] by (simp add: fill_def)
  moreover have "vr_unstream (ss_v_req s) (vr_wire r @ x) = Inr (True, r\<lparr>vr_len := of_nat (length (vr_wire r)), vr_packed_buff := x\<rparr>)"
    using vr_unstream_wire [of r x "ss_v_req s"] assms(2,3) by (simp add: MAX_BUFF_SIZE_def)
  ultimately show ?thesis
    by (simp add: on_read_protocol_def srv_parse_request_def t_def)
qed

subsection \<open>Properties of the state\<close>




lemma ex_reach_protocol:
  "\<exists>s. srv_reach allowed Tls s [(Handshake, Done)] \<and> ss_pending s = [Read_protocol]"
proof -
  let ?s = "srv_start (srv_new Tls new_dns_cache)"
  have "on_complete allowed \<lparr>si_now = 0, si_open_ok = True\<rparr> Handshake Done (finish Handshake ?s) = Inr (start_op Read_protocol (finish Handshake ?s))"
    by (simp add: on_handshake_def handle_custom_protocol_def finish_def srv_start_def srv_new_def start_op_def)
  moreover have "Handshake \<in> set (ss_pending ?s)" "fits Handshake Done"
    by (simp_all add: srv_start_def)
  ultimately have "srv_reach allowed Tls (start_op Read_protocol (finish Handshake ?s)) ([] @ [(Handshake, Done)])"
    by (intro srv_reach.Step [OF srv_reach.Init])
  then show ?thesis
    by (intro exI [of _ "start_op Read_protocol (finish Handshake ?s)"]) (simp add: srv_start_def srv_new_def)
qed


end
