(* ===== verification/ServerUdp.thy ===== *)
theory ServerUdp
  imports ServerSafety "HOL-Library.Sublist"
begin

text \<open>
  A Trojan UDP session of the server as a receiver of a byte stream: the datagrams it sends are those that the receiver
  of \<open>WireCodec\<close>, which takes at most one message per read, finds in the payload of the request and the bytes read after
  it, once each and in order.
\<close>

subsection \<open>What is read and sent\<close>

fun chain_op :: "srv_op \<Rightarrow> bool" where
  "chain_op Udp_first_read = True"
| "chain_op (Udp_first_resolve _ _) = True"
| "chain_op (Udp_first_send _ _) = True"
| "chain_op Udp_read_upstream = True"
| "chain_op (Udp_resolve _ _) = True"
| "chain_op (Udp_send _ _) = True"
| "chain_op _ = False"

fun op_todo :: "srv_op \<Rightarrow> bytes list" where
  "op_todo (Udp_first_resolve u _) = [up_payload u]"
| "op_todo (Udp_first_send b _) = [b]"
| "op_todo (Udp_resolve u _) = [up_payload u]"
| "op_todo (Udp_send b _) = [b]"
| "op_todo _ = []"

fun op_sent :: "srv_op \<Rightarrow> bytes list" where
  "op_sent (Udp_first_send b _) = [b]"
| "op_sent (Udp_send b _) = [b]"
| "op_sent _ = []"

fun op_chunk :: "srv_op \<times> completion \<Rightarrow> bytes list" where
  "op_chunk (Udp_first_read, Data d) = [d]"
| "op_chunk (Udp_read_upstream, Data d) = [d]"
| "op_chunk _ = []"

definition udp_sent :: "srv_trace \<Rightarrow> bytes list" where
  "udp_sent tr = concat (map (op_sent \<circ> fst) tr)"

definition udp_chunks :: "srv_session \<Rightarrow> srv_trace \<Rightarrow> bytes list" where
  "udp_chunks s tr = tr_payload (ss_trojanReq s) # concat (map op_chunk tr)"

definition chain :: "srv_session \<Rightarrow> srv_op list" where
  "chain s = filter chain_op (ss_pending s)"

definition rest :: "srv_session \<Rightarrow> bytes" where
  "rest s = drop (ss_udp_off s) (ss_udp_buff s)"

abbreviation udp_dec :: "bytes \<Rightarrow> (udp_packet \<times> nat) option" where
  "udp_dec \<equiv> up_dec new_udp_packet"

text \<open>The effect of a handler, given what the receiver takes off in it: the bytes that stay, and the payload that the
  next operation carries.\<close>

definition udp_next :: "bytes list \<Rightarrow> bytes list \<Rightarrow> udp_packet list \<times> bytes \<Rightarrow> srv_session \<Rightarrow> bool" where
  "udp_next todo sent out s' \<longleftrightarrow> rest s' = snd out \<and>
     (chain s' = [] \<or> (\<exists>q. chain s' = [q] \<and> sent @ op_todo q = todo @ map up_payload (fst out)))"

subsection \<open>Lemmas\<close>

lemma rest_bufs: "bufs s' = bufs s \<Longrightarrow> rest s' = rest s"
  by (simp add: bufs_def rest_def)

lemma chain_simps [simp]:
  "chain (start_op q s) = chain s @ (if chain_op q then [q] else [])" "chain (srv_destroy s) = chain s" "chain (s\<lparr>ss_dns := dns\<rparr>) = chain s"
  "chain (s\<lparr>ss_state := st\<rparr>) = chain s" "chain (udp_advance n s) = chain s" "chain (s\<lparr>ss_udp_open := b2\<rparr>) = chain s"
  "chain (s\<lparr>ss_in_buf := x, ss_udp_buff := y\<rparr>) = chain s" "chain (s\<lparr>ss_udp_buff := y\<rparr>) = chain s" "chain (s\<lparr>ss_in_buf := x\<rparr>) = chain s"
  "chain (s\<lparr>ss_out_buf := x\<rparr>) = chain s"
  by (simp_all add: chain_def udp_advance_def Let_def start_op_def)

lemma rest_simps [simp]: "rest (start_op q s) = rest s" "rest (srv_destroy s) = rest s" "rest (s\<lparr>ss_dns := dns\<rparr>) = rest s"
  "rest (s\<lparr>ss_state := st\<rparr>) = rest s" "rest (udp_advance n s) = drop n (rest s)" "rest (finish p s) = rest s"
  "rest (s\<lparr>ss_udp_open := b2\<rparr>) = rest s"
  by (rule rest_bufs, simp)+ (auto simp: rest_def udp_advance_def finish_def Let_def add.commute)

lemma take_one_parse:
  assumes "up_parse new_udp_packet x 0 = Inr (ok, u, n)"
  shows "take_one udp_dec x = (if ok then ([u], drop n x) else ([], x))"
  using assms by (cases ok) (simp_all add: take_one_def up_dec_def)

lemma recv_chunks_snoc:
  "recv_chunks dec buf (cs @ [c]) =
     (let (outs, b) = recv_chunks dec buf cs; (out, b') = take_one dec (b @ c) in (outs @ out, b'))"
  by (induction cs arbitrary: buf) (simp_all add: Let_def case_prod_beta)

lemma udp_first_send_chain:
  "chain s = [] \<Longrightarrow> rest s = snd out \<Longrightarrow> sent @ [pl] = todo @ map up_payload (fst out) \<Longrightarrow> udp_next todo sent out (udp_first_send inp pl ep s)"
  by (auto simp: udp_next_def udp_first_send_def)

lemma handle_udp_chain:
  assumes "chain s = []" and "ss_udp_off s \<le> length (ss_udp_buff s)" and "handle_trojan_udp_proxy inp s = Inr s'"
  shows "udp_next [] [] (take_one udp_dec (rest s)) s'"
proof -
  let ?s = "s\<lparr>ss_state := FORWARD\<rparr>"
  obtain x ok u n where x: "udp_remaining ?s = Inr x" "up_parse new_udp_packet x 0 = Inr (ok, u, n)"
    using assms(3) by (auto simp: handle_trojan_udp_proxy_def Let_def rbind_eq_Inr)
  have "x = rest s"
    using udp_remaining_eq [OF _ x(1)] assms(2) by (simp add: rest_def)
  with x have r: "udp_remaining ?s = Inr (rest s)" "up_parse new_udp_packet (rest s) 0 = Inr (ok, u, n)"
    by simp_all
  show ?thesis
    using assms(1,3) r take_one_parse [OF r(2)] udp_first_send_chain [of "udp_advance n ?s" "([u], drop n (rest s))" "[]" "up_payload u" "[]" inp]
    by (auto simp: handle_trojan_udp_proxy_def Let_def udp_upstream_read_def udp_next_def split: if_splits option.splits)
qed

lemma udp_read_chain:
  assumes "chain s = []" and "ss_udp_off s \<le> length (ss_udp_buff s)" and "on_udp_read_upstream inp (Data d) s = Inr s'"
  shows "udp_next [] [] (take_one udp_dec (rest s @ d)) s'"
proof -
  let ?s = "s\<lparr>ss_in_buf := fill (ss_in_buf s) d, ss_udp_buff := ss_udp_buff s @ d\<rparr>"
  have e: "rest ?s = rest s @ d" and off: "ss_udp_off ?s \<le> length (ss_udp_buff ?s)"
    using assms(2) by (simp_all add: rest_def)
  obtain x ok u n where x: "udp_remaining ?s = Inr x" "up_parse new_udp_packet x 0 = Inr (ok, u, n)"
    using assms(3) by (auto simp: on_udp_read_upstream_def Let_def rbind_eq_Inr)
  have "x = rest s @ d"
    using udp_remaining_eq [OF off x(1)] e by (simp add: rest_def)
  with x have r: "udp_remaining ?s = Inr (rest s @ d)" "up_parse new_udp_packet (rest s @ d) 0 = Inr (ok, u, n)"
    by simp_all
  show ?thesis
    using assms(1,3) r take_one_parse [OF r(2)] e
    by (auto simp: on_udp_read_upstream_def Let_def udp_async_bidirectional_read_def udp_async_bidirectional_write_def udp_next_def
        split: if_splits option.splits)
qed

text \<open>The operations of the other direction and of a TCP session do not touch the datagrams.\<close>

definition aside :: "srv_session \<Rightarrow> srv_session \<Rightarrow> bool" where
  "aside s s' \<longleftrightarrow> rest s' = rest s \<and> chain s' = chain s"

lemma aside_simps [simp]:
  "aside s (srv_destroy t) = aside s t" "\<not> chain_op q \<Longrightarrow> aside s (start_op q t) = aside s t" "aside s (s\<lparr>ss_dns := dns\<rparr>)" "aside s s"
  "aside s (t\<lparr>ss_out_buf := x\<rparr>) = aside s t" "aside s (t\<lparr>ss_in_buf := x\<rparr>) = aside s t" "aside s (do_connect ep t) = aside s t"
  "aside s (t\<lparr>ss_ring_down := r\<rparr>) = aside s t" "aside s (t\<lparr>ss_ring_up := r\<rparr>) = aside s t" "aside s (async_bidirectional_read dir t) = aside s t"
  "aside s (udp_async_bidirectional_write DIR_UP pl ep t) = aside s t" "aside s (udp_async_bidirectional_read DIR_UP t) = aside s t"
  "aside s (t\<lparr>ss_sending_down := b1\<rparr>) = aside s t" "aside s (t\<lparr>ss_sending_up := b1\<rparr>) = aside s t"
  "aside s (t\<lparr>ss_pausing_down := b1\<rparr>) = aside s t" "aside s (t\<lparr>ss_pausing_up := b1\<rparr>) = aside s t" "aside s (t\<lparr>ss_dns := dns\<rparr>) = aside s t"
  by (simp_all add: aside_def chain_def rest_def do_connect_def start_op_def async_bidirectional_read_def udp_async_bidirectional_write_def
      udp_async_bidirectional_read_def Let_def srv_destroy_def base_destroy_def)

lemma aside_send [simp]: "aside s (do_send_down t) = aside s t" "aside s (do_send_up t) = aside s t"
  by (simp_all add: do_send_down_def do_send_up_def Let_def)

lemma aside_write [simp]: "aside s (enqueue_write dir d t) = aside s t" "aside s (async_bidirectional_write dir n t) = aside s t"
  by (cases dir; simp add: enqueue_write_def async_bidirectional_write_def Let_def)+

lemma aside_step:
  assumes "\<not> preauth p" and "\<not> chain_op p" and "on_complete allowed inp p c s = Inr s'"
  shows "aside s s'"
  using assms
  by (cases p) (auto simp: on_tcp_resolve_def on_connect_def on_write_payload_def on_read_upstream_def on_read_downstream_def
      on_send_downstream_def on_send_upstream_def on_udp_receive_def on_udp_write_upstream_def Let_def split: completion.splits list.splits)

lemma chain_step:
  assumes "chain_op p" and "chain s = []" and "ss_udp_off s \<le> length (ss_udp_buff s)" and "on_complete allowed inp p c s = Inr s'"
  shows "udp_next (op_todo p) (op_sent p)
    (case op_chunk (p, c) of [] \<Rightarrow> ([], rest s) | d # _ \<Rightarrow> take_one udp_dec (rest s @ d)) s'"
proof (cases p)
  case Udp_first_read
  show ?thesis
  proof (cases c)
    case (Data d)
    let ?s = "s\<lparr>ss_in_buf := fill (ss_in_buf s) d, ss_udp_buff := ss_udp_buff s @ d\<rparr>"
    have "rest ?s = rest s @ d"
      using assms(3) by (simp add: rest_def)
    then show ?thesis
      using handle_udp_chain [of ?s inp s'] assms Udp_first_read Data by (simp add: on_udp_first_read_def)
  qed (use assms Udp_first_read in \<open>auto simp: on_udp_first_read_def udp_next_def\<close>)
next
  case Udp_read_upstream
  then show ?thesis
    using udp_read_chain [OF assms(2,3)] assms by (cases c) (auto simp: on_udp_read_upstream_def udp_next_def)
next
  case (Udp_first_resolve u k)
  have "udp_next [up_payload u] [] ([], rest s) (udp_first_send inp (up_payload u) ep (s\<lparr>ss_dns := dns\<rparr>))" for ep dns
    using assms(2) by (intro udp_first_send_chain) simp_all
  then show ?thesis
    using assms Udp_first_resolve
    by (cases c) (auto simp: on_udp_first_resolve_def udp_next_def Let_def simp del: pick_v4.simps split: list.splits)
qed (use assms in \<open>auto simp: on_udp_first_send_def on_udp_resolve_def on_udp_send_def udp_next_def Let_def
    udp_first_send_def udp_async_bidirectional_read_def udp_async_bidirectional_write_def split: completion.splits list.splits\<close>)

lemma trojan_handle_udp: "handle_trojan_udp_proxy inp s = Inr s' \<Longrightarrow> ss_trojanReq s' = ss_trojanReq s"
  by (auto simp: handle_trojan_udp_proxy_def udp_first_send_def udp_upstream_read_def udp_advance_def start_op_def srv_destroy_def
      base_destroy_def Let_def rbind_eq_Inr split: if_splits option.splits)

lemma trojan_destroy [simp]: "ss_trojanReq (srv_destroy s) = ss_trojanReq s" "ss_trojanReq (start_op q s) = ss_trojanReq s"
  "ss_trojanReq (finish p s) = ss_trojanReq s" "ss_trojanReq (udp_advance n s) = ss_trojanReq s"
  by (simp_all add: srv_destroy_def base_destroy_def start_op_def finish_def udp_advance_def Let_def)

lemma trojan_handlers [simp]:
  "ss_trojanReq (async_bidirectional_read dir s) = ss_trojanReq s" "ss_trojanReq (udp_async_bidirectional_read dir s) = ss_trojanReq s"
  "ss_trojanReq (udp_async_bidirectional_write dir pl ep s) = ss_trojanReq s" "ss_trojanReq (do_connect ep s) = ss_trojanReq s"
  "ss_trojanReq (udp_first_send inp pl ep s) = ss_trojanReq s" "ss_trojanReq (do_send_down s) = ss_trojanReq s"
  "ss_trojanReq (do_send_up s) = ss_trojanReq s"
  by (auto simp: async_bidirectional_read_def udp_async_bidirectional_read_def udp_async_bidirectional_write_def do_connect_def
      udp_first_send_def do_send_down_def do_send_up_def Let_def split: direction.splits)

lemma trojan_write [simp]: "ss_trojanReq (enqueue_write dir d s) = ss_trojanReq s" "ss_trojanReq (async_bidirectional_write dir n s) = ss_trojanReq s"
  by (cases dir; simp add: enqueue_write_def async_bidirectional_write_def Let_def)+

lemma trojan_kept:
  assumes "\<not> preauth p" and "on_complete allowed inp p c s = Inr s'"
  shows "ss_trojanReq s' = ss_trojanReq s"
proof (cases p)
  case Udp_read_upstream
  then show ?thesis
    using assms by (cases c) (auto simp: on_udp_read_upstream_def Let_def rbind_eq_Inr split: if_splits option.splits)
next
  case Udp_first_read
  then show ?thesis
    using assms trojan_handle_udp by (cases c) (fastforce simp: on_udp_first_read_def)+
qed (use assms in \<open>auto simp: on_tcp_resolve_def on_connect_def on_write_payload_def on_read_upstream_def on_read_downstream_def
      on_send_downstream_def on_send_upstream_def on_udp_receive_def on_udp_write_upstream_def on_udp_first_resolve_def on_udp_first_send_def
      on_udp_resolve_def on_udp_send_def Let_def split: completion.splits list.splits\<close>)

subsection \<open>The invariant\<close>

definition receiver :: "srv_session \<Rightarrow> srv_trace \<Rightarrow> udp_packet list \<times> bytes" where
  "receiver s tr = recv_chunks udp_dec [] (udp_chunks s tr)"

definition no_udp :: "srv_session \<Rightarrow> srv_trace \<Rightarrow> bool" where
  "no_udp s tr \<longleftrightarrow> chain s = [] \<and> (\<forall>q \<in> fst ` set tr. \<not> chain_op q)"

definition udp_inv :: "srv_session \<Rightarrow> srv_trace \<Rightarrow> bool" where
  "udp_inv s tr \<longleftrightarrow> (\<forall>q \<in> set (ss_pending s). \<not> preauth q) \<and> rest s = snd (receiver s tr) \<and>
     (chain s = [] \<and> prefix (udp_sent tr) (map up_payload (fst (receiver s tr))) \<or>
      (\<exists>p. chain s = [p] \<and> udp_sent tr @ op_todo p = map up_payload (fst (receiver s tr))))"

lemma op_chunk_other: "\<not> chain_op p \<Longrightarrow> op_chunk (p, c) = []" "\<not> chain_op p \<Longrightarrow> op_sent p = []"
  by (cases p; simp)+

lemma op_chunk_one: "op_chunk (p, c) = [] \<or> (\<exists>d. op_chunk (p, c) = [d])"
  by (cases p; cases c; simp)

lemma op_sent_todo: "op_sent p = [] \<or> op_sent p = op_todo p"
  by (cases p) simp_all

lemma no_udp_trace: "\<forall>q \<in> fst ` set tr. \<not> chain_op q \<Longrightarrow> udp_sent tr = [] \<and> concat (map op_chunk tr) = []"
  by (induction tr) (auto simp: udp_sent_def op_chunk_other)

lemma chain_finish: "chain (finish p s) = remove1 p (chain s)"
  by (simp add: chain_def filter_remove1)

lemma receiver_step:
  assumes "ss_trojanReq s' = ss_trojanReq s" and "rest s = snd (receiver s tr)"
  shows "receiver s' (tr @ [(p, c)]) = (let out = (case op_chunk (p, c) of [] \<Rightarrow> ([], rest s) | d # _ \<Rightarrow> take_one udp_dec (rest s @ d))
    in (fst (receiver s tr) @ fst out, snd out))"
proof -
  have chunks: "udp_chunks s' (tr @ [(p, c)]) = udp_chunks s tr @ op_chunk (p, c)"
    using assms(1) by (simp add: udp_chunks_def)
  show ?thesis
    using op_chunk_one [of p c] assms(2) by (auto simp: receiver_def chunks recv_chunks_snoc Let_def case_prod_beta)
qed

lemma udp_inv_step:
  assumes inv: "udp_inv s tr" and p: "p \<in> set (ss_pending s)" and off: "ss_udp_off s \<le> length (ss_udp_buff s)"
    and run: "on_complete allowed inp p c (finish p s) = Inr s'"
  shows "udp_inv s' (tr @ [(p, c)])"
proof -
  have np: "\<not> preauth p" and rest: "rest s = snd (receiver s tr)"
    using inv p by (auto simp: udp_inv_def)
  have pre: "\<forall>q \<in> set (ss_pending s'). \<not> preauth q"
    using inv kept_step [OF np run] set_remove1_subset [of p "ss_pending s"] by (auto simp: udp_inv_def kept_def)
  define out where "out = (case op_chunk (p, c) of [] \<Rightarrow> ([], rest s) | d # _ \<Rightarrow> take_one udp_dec (rest s @ d))"
  have rcv: "receiver s' (tr @ [(p, c)]) = (fst (receiver s tr) @ fst out, snd out)"
    using receiver_step [of s' s tr p c] trojan_kept [OF np run] rest by (simp add: out_def Let_def)
  have sent: "udp_sent (tr @ [(p, c)]) = udp_sent tr @ op_sent p"
    by (simp add: udp_sent_def)
  show ?thesis
  proof (cases "chain_op p")
    case True
    then have "p \<in> set (chain s)"
      using p by (simp add: chain_def)
    then have ch: "chain s = [p]" "udp_sent tr @ op_todo p = map up_payload (fst (receiver s tr))"
      using inv by (auto simp: udp_inv_def)
    have "udp_next (op_todo p) (op_sent p) out s'"
      using chain_step [OF True, of "finish p s", OF _ _ run] off ch(1) bufs_finish [of p s]
      by (simp add: chain_finish bufs_def out_def cong: list.case_cong)
    moreover have "prefix (udp_sent tr @ op_sent p) (map up_payload (fst (receiver s tr)) @ map up_payload (fst out))"
      using op_sent_todo [of p] unfolding ch(2) [symmetric] by auto
    moreover have "udp_sent tr @ op_sent p @ op_todo q = map up_payload (fst (receiver s tr)) @ map up_payload (fst out)"
      if "op_sent p @ op_todo q = op_todo p @ map up_payload (fst out)" for q
      using that ch(2) [symmetric] by simp
    ultimately show ?thesis
      using pre rcv sent by (auto simp: udp_inv_def udp_next_def)
  next
    case False
    have "aside (finish p s) s'"
      using aside_step [OF np False run] .
    moreover have "remove1 p (chain s) = chain s"
      using False by (simp add: chain_def remove1_idem)
    ultimately show ?thesis
      using inv pre rcv sent op_chunk_other(1) [OF False, of c] op_chunk_other(2) [OF False] by (auto simp: udp_inv_def aside_def chain_finish out_def)
  qed
qed

lemma read_protocol_chain:
  assumes "ss_pending s = []" and "ss_udp_off s = 0" and "on_read_protocol allowed inp c s = Inr s'"
    and "\<forall>q \<in> fst ` set tr. \<not> chain_op q"
  shows "chain s' = [] \<or> udp_inv s' tr"
proof (cases c)
  case (Data d)
  let ?s = "s\<lparr>ss_in_buf := fill (ss_in_buf s) d\<rparr>"
  obtain ok t where t: "srv_parse_request d ?s = Inr (ok, t)"
    using assms(3) Data by (auto simp: on_read_protocol_def rbind_eq_Inr)
  have pend: "ss_pending t = []" and off: "ss_udp_off t = 0"
    using srv_parse_request_bufs(1,2) [OF t] assms(1,2) by (simp_all add: bufs_def)
  let ?t = "t\<lparr>ss_udp_buff := tr_payload (ss_trojanReq t)\<rparr>"
  have resolve: "chain (do_resolve inp t) = []"
    using pend by (simp add: do_resolve_def do_connect_def chain_def start_op_def Let_def split: option.split)
  have "udp_inv s' tr" if h: "handle_trojan_udp_proxy inp ?t = Inr s'"
  proof -
    have "chain ?t = []" "rest ?t = tr_payload (ss_trojanReq t)"
      using pend off by (simp_all add: chain_def rest_def)
    then have "udp_next [] [] (take_one udp_dec (tr_payload (ss_trojanReq t))) s'"
      using handle_udp_chain [of ?t inp s'] h off by simp
    moreover have chunks: "udp_chunks s' tr = [tr_payload (ss_trojanReq t)]" and "udp_sent tr = []"
      using no_udp_trace [OF assms(4)] trojan_handle_udp [OF h] by (simp_all add: udp_chunks_def)
    moreover have "receiver s' tr = take_one udp_dec (tr_payload (ss_trojanReq t))"
      by (simp add: receiver_def chunks case_prod_beta)
    moreover have "\<forall>q \<in> set (ss_pending s'). \<not> preauth q"
      using kept_handle_udp [OF h] pend by (simp add: kept_def)
    ultimately show ?thesis
      by (auto simp: udp_inv_def udp_next_def)
  qed
  then show ?thesis
    using assms(3) Data t resolve pend by (auto simp: on_read_protocol_def chain_def split: if_splits)
qed (use assms in \<open>auto simp: on_read_protocol_def chain_def\<close>)

lemma srv_reach_udp: "srv_reach allowed kind s tr \<Longrightarrow> no_udp s tr \<or> udp_inv s tr"
proof (induction rule: srv_reach.induct)
  case (Init dns)
  then show ?case
    by (simp add: no_udp_def srv_start_def srv_new_def start_op_def chain_def)
next
  case (Step s tr p c inp s')
  have sized: "sized (length tr) s"
    using Step.hyps(1) by (rule srv_reach_sized)
  show ?case
  proof (cases "udp_inv s tr")
    case True
    then show ?thesis
      using udp_inv_step [OF True Step.hyps(2) _ Step.hyps(4)] sized by (simp add: sized_def bufs_ok_def bufs_def)
  next
    case False
    then have no: "chain s = []" "\<forall>q \<in> fst ` set tr. \<not> chain_op q"
      using Step.IH by (auto simp: no_udp_def)
    then have nc: "\<not> chain_op p"
      using Step.hyps(2) by (auto simp: chain_def filter_empty_conv)
    have tr: "\<forall>q \<in> fst ` set (tr @ [(p, c)]). \<not> chain_op q"
      using no(2) nc by auto
    show ?thesis
    proof (cases "preauth p")
      case True
      then have pend: "ss_pending (finish p s) = []"
        using preauth_single [OF srv_reach_inv [OF Step.hyps(1)] Step.hyps(2)] by simp
      have off: "ss_udp_off (finish p s) = 0"
        using sized bexI [of preauth p "set (ss_pending s)"] True Step.hyps(2) by (simp add: sized_def finish_def)
      have "chain s' = []" if "p \<noteq> Read_protocol"
        using that True Step.hyps(4) pend
        by (cases p) (auto simp: on_handshake_def on_accept_def handle_custom_protocol_def chain_def split: completion.splits session_kind.splits)
      then show ?thesis
        using read_protocol_chain [OF pend off _ tr, of allowed inp c s'] Step.hyps(4) tr
        by (cases "p = Read_protocol") (auto simp: no_udp_def)
    next
      case False
      then show ?thesis
        using aside_step [OF False nc Step.hyps(4)] no(1) tr by (simp add: no_udp_def aside_def chain_finish)
    qed
  qed
next
  case (Dns s tr dns)
  then show ?case
    by (simp add: no_udp_def udp_inv_def receiver_def udp_chunks_def)
qed

subsection \<open>Property\<close>



text \<open>The first of two datagrams comes with the request; it is resolved and sent, and the session waits for the second.\<close>

definition ex_first :: dgram where
  "ex_first = ([104], 53, [1, 2])"

definition ex_assoc :: bytes where
  "ex_assoc = tr_generate [112] [120] 80 False @ dgram_enc ex_first"

definition ex_udp_trace :: srv_trace where
  "ex_udp_trace = [(Handshake, Done), (Read_protocol, Data ex_assoc),
     (Udp_first_resolve (dgram_view ex_first) (dns_key [104] 53), Results [ex_ep]), (Udp_first_send [1, 2] ex_ep, Sent 2)]"

lemma ex_assoc_parse:
  "is_v_protocol (fill (replicate MAX_BUFF_SIZE 0) ex_assoc) = Inr False"
  "\<exists>n. n \<noteq> - 1 \<and> tr_parse r ex_assoc = Inr (n, \<lparr>tr_command = T_UDP_ASSOCIATE, tr_password = [112],
     tr_address = \<lparr>sa_type = DOMAINNAME, sa_address = [120], sa_port = 80\<rparr>, tr_payload = dgram_enc ex_first\<rparr>)"
  "length ex_assoc \<le> MAX_BUFF_SIZE" "length (dgram_enc ex_first) \<le> 2 ^ 62"
  "up_parse new_udp_packet (dgram_enc ex_first) 0 = Inr (True, dgram_view ex_first, length (dgram_enc ex_first))"
proof -
  show "is_v_protocol (fill (replicate MAX_BUFF_SIZE 0) ex_assoc) = Inr False"
    by (simp add: is_v_protocol_def fill_def ex_assoc_def tr_generate_def crlf_def identifier_len_def v_identifier_def ascii_def)
  have "find_str crlf [112] = None" "dom_ok [120]"
    by (simp_all add: crlf_def dom_ok_def)
  note parse = tr_parse_generated [OF this, of r 80 False "dgram_enc ex_first"]
  have len: "length (tr_generate [112] [120] 80 False @ dgram_enc ex_first) = 22"
    by (simp add: tr_generate_def ex_first_def up_generate_domain_def len_bytes_def crlf_def)
  show "\<exists>n. n \<noteq> - 1 \<and> tr_parse r ex_assoc = Inr (n, \<lparr>tr_command = T_UDP_ASSOCIATE, tr_password = [112],
     tr_address = \<lparr>sa_type = DOMAINNAME, sa_address = [120], sa_port = 80\<rparr>, tr_payload = dgram_enc ex_first\<rparr>)"
    using parse unfolding len ex_assoc_def by simp
  show "length ex_assoc \<le> MAX_BUFF_SIZE" "length (dgram_enc ex_first) \<le> 2 ^ 62"
    using len by (simp_all add: ex_assoc_def MAX_BUFF_SIZE_def)
  show "up_parse new_udp_packet (dgram_enc ex_first) 0 = Inr (True, dgram_view ex_first, length (dgram_enc ex_first))"
    using up_parse_generated_domain [of "[104]" "[1, 2]" new_udp_packet 53 "[]" 0] by (simp add: ex_first_def dom_ok_def)
qed

lemma ex_udp_reach:
  "\<exists>s. srv_reach [[112]] Tls s ex_udp_trace \<and> ss_pending s = [Udp_read_upstream, Udp_receive] \<and>
     tr_payload (ss_trojanReq s) = dgram_enc ex_first"
proof -
  let ?inp = "\<lparr>si_now = 0, si_open_ok = True\<rparr>" and ?k = "dns_key [104] 53" and ?u = "dgram_view ex_first"
  define s0 where "s0 = srv_start (srv_new Tls new_dns_cache)"
  have r0: "srv_reach [[112]] Tls s0 []"
    unfolding s0_def by (rule srv_reach.Init)
  have p0: "ss_pending s0 = [Handshake]" "ss_kind s0 = Tls" "ss_in_buf s0 = replicate MAX_BUFF_SIZE 0"
    "\<not> ss_vprotocol s0" "ss_dns s0 = new_dns_cache" "ss_udp_off s0 = 0"
    by (simp_all add: s0_def srv_start_def srv_new_def start_op_def)
  define s1 where "s1 = handle_custom_protocol (finish Handshake s0)"
  have p1: "ss_pending s1 = [Read_protocol]" "ss_in_buf s1 = replicate MAX_BUFF_SIZE 0"
    "\<not> ss_vprotocol s1" "ss_dns s1 = new_dns_cache" "ss_udp_off s1 = 0"
    by (simp_all add: s1_def handle_custom_protocol_def start_op_def p0 finish_def)
  have r1: "srv_reach [[112]] Tls s1 [(Handshake, Done)]"
    using srv_reach.Step [OF r0, of Handshake Done ?inp s1] p0 by (simp add: on_handshake_def s1_def finish_def)
  obtain n where n: "n \<noteq> - 1" "tr_parse (ss_trojanReq s1) ex_assoc = Inr (n, \<lparr>tr_command = T_UDP_ASSOCIATE, tr_password = [112],
     tr_address = \<lparr>sa_type = DOMAINNAME, sa_address = [120], sa_port = 80\<rparr>, tr_payload = dgram_enc ex_first\<rparr>)"
    using ex_assoc_parse(2) by blast
  have key: "udp_key ?u = ?k"
    by (simp add: udp_key_def ex_first_def)
  obtain s2 where s2: "on_complete [[112]] ?inp Read_protocol (Data ex_assoc) (finish Read_protocol s1) = Inr s2"
    "ss_pending s2 = [Udp_first_resolve ?u ?k]" "tr_payload (ss_trojanReq s2) = dgram_enc ex_first"
    using n ex_assoc_parse(1,4,5) key
    by (simp add: on_read_protocol_def srv_parse_request_def p1 finish_def handle_trojan_udp_proxy_def udp_remaining_def udp_advance_def
        start_op_def Let_def)
  have r2: "srv_reach [[112]] Tls s2 [(Handshake, Done), (Read_protocol, Data ex_assoc)]"
    using srv_reach.Step [OF r1 _ _ s2(1)] p1 ex_assoc_parse(3) by simp
  define s3 where "s3 = on_udp_first_resolve ?inp ?u ?k (Results [ex_ep]) (finish (Udp_first_resolve ?u ?k) s2)"
  have p3: "ss_pending s3 = [Udp_first_send [1, 2] ex_ep]" "ss_trojanReq s3 = ss_trojanReq s2"
    using s2(2) by (simp_all add: s3_def on_udp_first_resolve_def udp_first_send_def start_op_def finish_def ex_first_def ex_ep_def Let_def)
  have r3: "srv_reach [[112]] Tls s3 [(Handshake, Done), (Read_protocol, Data ex_assoc), (Udp_first_resolve ?u ?k, Results [ex_ep])]"
    using srv_reach.Step [OF r2, of "Udp_first_resolve ?u ?k" "Results [ex_ep]" ?inp s3] s2(2) by (simp add: s3_def)
  define s4 where "s4 = on_udp_first_send (Sent 2) (finish (Udp_first_send [1, 2] ex_ep) s3)"
  have "srv_reach [[112]] Tls s4 ex_udp_trace"
    using srv_reach.Step [OF r3, of "Udp_first_send [1, 2] ex_ep" "Sent 2" ?inp s4] p3(1) by (simp add: s4_def ex_udp_trace_def)
  moreover have "ss_pending s4 = [Udp_read_upstream, Udp_receive]" "ss_trojanReq s4 = ss_trojanReq s2"
    using p3 by (simp_all add: s4_def on_udp_first_send_def udp_async_bidirectional_read_def Let_def)
  ultimately show ?thesis
    using s2(3) by (intro exI [of _ s4]) simp
qed


end
