(* ===== verification/ProxyStats.thy ===== *)
theory ProxyStats
  imports Prelude "HOL-Library.Multiset"
begin

text \<open>
  \<^verbatim>\<open>Shared/ProxyStats.h\<close>: the traffic and session counters of the client, shared by all sessions. Each
  counter is an atomic 64-bit word that wraps. A method that touches two counters is two atomic accesses,
  between which the accesses of other threads may fall, so a method is given both as its sequential effect
  and as the list of its atomic accesses. The exponential smoothing is floating-point arithmetic and is an
  argument of the model.
\<close>

subsection \<open>Model\<close>

record proxy_stats =
  ps_total_upstream :: u64
  ps_total_downstream :: u64
  ps_delta_upstream :: u64
  ps_delta_downstream :: u64
  ps_smoothed_up :: u64
  ps_smoothed_down :: u64
  ps_session_count :: u64

definition new_proxy_stats :: proxy_stats where
  "new_proxy_stats =
     \<lparr>ps_total_upstream = 0, ps_total_downstream = 0, ps_delta_upstream = 0, ps_delta_downstream = 0,
      ps_smoothed_up = 0, ps_smoothed_down = 0, ps_session_count = 0\<rparr>"

definition addUpstreamDelta :: "u64 \<Rightarrow> proxy_stats \<Rightarrow> proxy_stats" where
  "addUpstreamDelta n s =
     (let s = s\<lparr>ps_total_upstream := ps_total_upstream s + n\<rparr>
      in s\<lparr>ps_delta_upstream := ps_delta_upstream s + n\<rparr>)"

definition addDownstreamDelta :: "u64 \<Rightarrow> proxy_stats \<Rightarrow> proxy_stats" where
  "addDownstreamDelta n s =
     (let s = s\<lparr>ps_total_downstream := ps_total_downstream s + n\<rparr>
      in s\<lparr>ps_delta_downstream := ps_delta_downstream s + n\<rparr>)"

text \<open>\<open>smooth raw old\<close> is \<^verbatim>\<open>static_cast<uint64_t>(0.3 * raw + 0.7 * old)\<close>.\<close>

definition getAndResetDelta :: "(u64 \<Rightarrow> u64 \<Rightarrow> u64) \<Rightarrow> proxy_stats \<Rightarrow> (u64 \<times> u64) \<times> proxy_stats" where
  "getAndResetDelta smooth s =
     (let raw_up = ps_delta_upstream s; s = s\<lparr>ps_delta_upstream := 0\<rparr>;
          raw_down = ps_delta_downstream s; s = s\<lparr>ps_delta_downstream := 0\<rparr>;
          s = s\<lparr>ps_smoothed_up := smooth raw_up (ps_smoothed_up s)\<rparr>;
          s = s\<lparr>ps_smoothed_down := smooth raw_down (ps_smoothed_down s)\<rparr>
      in ((ps_smoothed_up s, ps_smoothed_down s), s))"

definition getTotal :: "proxy_stats \<Rightarrow> u64 \<times> u64" where
  "getTotal s = (ps_total_upstream s, ps_total_downstream s)"

definition sessionCreated :: "proxy_stats \<Rightarrow> proxy_stats" where
  "sessionCreated s = s\<lparr>ps_session_count := ps_session_count s + 1\<rparr>"

definition sessionDestroyed :: "proxy_stats \<Rightarrow> proxy_stats" where
  "sessionDestroyed s = s\<lparr>ps_session_count := ps_session_count s - 1\<rparr>"

definition sessionCount :: "proxy_stats \<Rightarrow> u64" where
  "sessionCount s = ps_session_count s"

subsection \<open>Atomic accesses\<close>

text \<open>
  The state of an interleaved run adds what the \<open>exchange\<close> operations have returned so far, the bytes that
  were handed to the display.
\<close>

datatype stat_access = Add_total_up u64 | Add_delta_up u64 | Add_total_down u64 | Add_delta_down u64
  | Take_up | Take_down | Add_session | Sub_session

datatype stat_call = Upstream u64 | Downstream u64 | Get_reset | Created | Destroyed

fun accesses :: "stat_call \<Rightarrow> stat_access list" where
  "accesses (Upstream n) = [Add_total_up n, Add_delta_up n]"
| "accesses (Downstream n) = [Add_total_down n, Add_delta_down n]"
| "accesses Get_reset = [Take_up, Take_down]"
| "accesses Created = [Add_session]"
| "accesses Destroyed = [Sub_session]"

type_synonym stat_run = "proxy_stats \<times> u64 \<times> u64"

fun access_step :: "stat_access \<Rightarrow> stat_run \<Rightarrow> stat_run" where
  "access_step (Add_total_up n) (s, u, d) = (s\<lparr>ps_total_upstream := ps_total_upstream s + n\<rparr>, u, d)"
| "access_step (Add_delta_up n) (s, u, d) = (s\<lparr>ps_delta_upstream := ps_delta_upstream s + n\<rparr>, u, d)"
| "access_step (Add_total_down n) (s, u, d) = (s\<lparr>ps_total_downstream := ps_total_downstream s + n\<rparr>, u, d)"
| "access_step (Add_delta_down n) (s, u, d) = (s\<lparr>ps_delta_downstream := ps_delta_downstream s + n\<rparr>, u, d)"
| "access_step Take_up (s, u, d) = (s\<lparr>ps_delta_upstream := 0\<rparr>, u + ps_delta_upstream s, d)"
| "access_step Take_down (s, u, d) = (s\<lparr>ps_delta_downstream := 0\<rparr>, u, d + ps_delta_downstream s)"
| "access_step Add_session (s, u, d) = (s\<lparr>ps_session_count := ps_session_count s + 1\<rparr>, u, d)"
| "access_step Sub_session (s, u, d) = (s\<lparr>ps_session_count := ps_session_count s - 1\<rparr>, u, d)"

text \<open>Without interleaving the accesses of a call are the method.\<close>

lemma accesses_sequential:
  "fold access_step (accesses (Upstream n)) (s, u, d) = (addUpstreamDelta n s, u, d)"
  "fold access_step (accesses (Downstream n)) (s, u, d) = (addDownstreamDelta n s, u, d)"
  "fold access_step (accesses Created) (s, u, d) = (sessionCreated s, u, d)"
  "fold access_step (accesses Destroyed) (s, u, d) = (sessionDestroyed s, u, d)"
  by (simp_all add: addUpstreamDelta_def addDownstreamDelta_def sessionCreated_def sessionDestroyed_def)

lemma accesses_sequential_reset:
  "fst (fold access_step (accesses Get_reset) (s, u, d)) =
     (snd (getAndResetDelta smooth s))\<lparr>ps_smoothed_up := ps_smoothed_up s, ps_smoothed_down := ps_smoothed_down s\<rparr>"
  by (simp add: getAndResetDelta_def Let_def)

subsection \<open>Conservation\<close>

text \<open>What an access adds to each of the five sums that are tracked.\<close>

fun adds_total_up :: "stat_access \<Rightarrow> u64" where
  "adds_total_up (Add_total_up n) = n" | "adds_total_up _ = 0"

fun adds_delta_up :: "stat_access \<Rightarrow> u64" where
  "adds_delta_up (Add_delta_up n) = n" | "adds_delta_up _ = 0"

fun adds_total_down :: "stat_access \<Rightarrow> u64" where
  "adds_total_down (Add_total_down n) = n" | "adds_total_down _ = 0"

fun adds_delta_down :: "stat_access \<Rightarrow> u64" where
  "adds_delta_down (Add_delta_down n) = n" | "adds_delta_down _ = 0"

fun adds_session :: "stat_access \<Rightarrow> u64" where
  "adds_session Add_session = 1" | "adds_session Sub_session = - 1" | "adds_session _ = 0"

lemma access_run_sums:
  "ps_total_upstream (fst (fold access_step xs r)) = ps_total_upstream (fst r) + sum_list (map adds_total_up xs) \<and>
   ps_delta_upstream (fst (fold access_step xs r)) + fst (snd (fold access_step xs r)) =
     ps_delta_upstream (fst r) + fst (snd r) + sum_list (map adds_delta_up xs) \<and>
   ps_total_downstream (fst (fold access_step xs r)) =
     ps_total_downstream (fst r) + sum_list (map adds_total_down xs) \<and>
   ps_delta_downstream (fst (fold access_step xs r)) + snd (snd (fold access_step xs r)) =
     ps_delta_downstream (fst r) + snd (snd r) + sum_list (map adds_delta_down xs) \<and>
   ps_session_count (fst (fold access_step xs r)) =
     ps_session_count (fst r) + sum_list (map adds_session xs)"
proof (induction xs arbitrary: r)
  case (Cons x xs)
  obtain s u d where "r = (s, u, d)"
    by (cases r)
  then show ?case
    using Cons.IH [of "access_step x r"] by (cases x) (simp_all add: algebra_simps)
qed simp

lemma sum_list_mset_eq:
  fixes f :: "'a \<Rightarrow> 'b::comm_monoid_add"
  assumes "mset xs = mset ys"
  shows "sum_list (map f xs) = sum_list (map f ys)"
  using assms by (metis mset_map sum_mset_sum_list)

fun up_bytes :: "stat_call \<Rightarrow> u64" where
  "up_bytes (Upstream n) = n" | "up_bytes _ = 0"

fun down_bytes :: "stat_call \<Rightarrow> u64" where
  "down_bytes (Downstream n) = n" | "down_bytes _ = 0"

fun net_sessions :: "stat_call \<Rightarrow> u64" where
  "net_sessions Created = 1" | "net_sessions Destroyed = - 1" | "net_sessions _ = 0"

lemma call_sums:
  "sum_list (map adds_total_up (concat (map accesses cs))) = sum_list (map up_bytes cs) \<and>
   sum_list (map adds_delta_up (concat (map accesses cs))) = sum_list (map up_bytes cs) \<and>
   sum_list (map adds_total_down (concat (map accesses cs))) = sum_list (map down_bytes cs) \<and>
   sum_list (map adds_delta_down (concat (map accesses cs))) = sum_list (map down_bytes cs) \<and>
   sum_list (map adds_session (concat (map accesses cs))) = sum_list (map net_sessions cs)"
proof (induction cs)
  case (Cons c cs)
  then show ?case by (cases c) simp_all
qed simp



end
