(* ===== verification/Log.thy ===== *)
theory Log
  imports Prelude
begin

text \<open>
  \<^verbatim>\<open>Shared/Log.{h,cpp}\<close> and the non-Windows \<open>ToUTF8\<close> of \<^verbatim>\<open>Shared/Encoding.h\<close>: the logger. Its static
  variables are a record; the two \<open>std::function\<close> hooks are functions on a world of type \<open>'w\<close>, which the
  program instantiates with the log file. The formatted local time and the thread identifier are inputs of a
  log statement.
\<close>

subsection \<open>Model\<close>

datatype loglevel = L_DEBUG | L_NOTICE | L_ERROR_EXIT

fun level_num :: "loglevel \<Rightarrow> nat" where
  "level_num L_DEBUG = 0"
| "level_num L_NOTICE = 1"
| "level_num L_ERROR_EXIT = 2"

text \<open>The enumeration is compared by its numbers.\<close>

instantiation loglevel :: linorder
begin

definition less_eq_loglevel :: "loglevel \<Rightarrow> loglevel \<Rightarrow> bool" where
  "less_eq_loglevel l l' \<longleftrightarrow> level_num l \<le> level_num l'"

definition less_loglevel :: "loglevel \<Rightarrow> loglevel \<Rightarrow> bool" where
  "less_loglevel l l' \<longleftrightarrow> level_num l < level_num l'"

instance
proof
  fix l l' :: loglevel
  show "l \<le> l' \<Longrightarrow> l' \<le> l \<Longrightarrow> l = l'"
    by (cases l; cases l') (simp_all add: less_eq_loglevel_def)
qed (auto simp: less_eq_loglevel_def less_loglevel_def)

end

lemmas loglevel_order [simp] = less_eq_loglevel_def less_loglevel_def

datatype destination = D_STDOUT | D_FILE

record 'w logger =
  lg_log_level :: loglevel
  lg_log_dest :: destination
  lg_output :: "bytes \<Rightarrow> 'w \<Rightarrow> 'w"
  lg_flush :: "'w \<Rightarrow> 'w"

definition new_logger :: "(bytes \<Rightarrow> 'w \<Rightarrow> 'w) \<Rightarrow> ('w \<Rightarrow> 'w) \<Rightarrow> 'w logger" where
  "new_logger cout_write cout_flush =
     \<lparr>lg_log_level = L_NOTICE, lg_log_dest = D_STDOUT, lg_output = cout_write, lg_flush = cout_flush\<rparr>"

definition setLogLevel :: "loglevel \<Rightarrow> 'w logger \<Rightarrow> 'w logger" where
  "setLogLevel level lg = lg\<lparr>lg_log_level := level\<rparr>"

definition setOutput :: "(bytes \<Rightarrow> 'w \<Rightarrow> 'w) \<Rightarrow> 'w logger \<Rightarrow> 'w logger" where
  "setOutput f lg = lg\<lparr>lg_output := f\<rparr>"

definition setFlush :: "('w \<Rightarrow> 'w) \<Rightarrow> 'w logger \<Rightarrow> 'w logger" where
  "setFlush f lg = lg\<lparr>lg_flush := f\<rparr>"

definition set_log_level :: "loglevel \<Rightarrow> 'w logger \<Rightarrow> 'w logger" where
  "set_log_level level lg = lg\<lparr>lg_log_level := level\<rparr>"

definition get_log_level :: "'w logger \<Rightarrow> loglevel" where
  "get_log_level lg = lg_log_level lg"

definition set_log_destination :: "destination \<Rightarrow> 'w logger \<Rightarrow> 'w logger" where
  "set_log_destination d lg = lg\<lparr>lg_log_dest := d\<rparr>"

fun level_str :: "loglevel \<Rightarrow> bytes" where
  "level_str L_DEBUG = ascii ''[DEBUG] ''"
| "level_str L_NOTICE = ascii ''[NOTICE] ''"
| "level_str L_ERROR_EXIT = ascii ''[ERROR] ''"

definition ansi :: "string \<Rightarrow> bytes" where
  "ansi code = [27] @ ascii ''['' @ ascii code @ ascii ''m''"

definition ToUTF8 :: "bytes \<Rightarrow> bytes" where
  "ToUTF8 src = src"

record log_env =
  le_time :: bytes
  le_thread :: bytes

definition impl_new :: "log_env \<Rightarrow> bytes \<Rightarrow> nat \<Rightarrow> loglevel \<Rightarrow> 'w logger \<Rightarrow> bytes" where
  "impl_new env file line level lg =
     (if lg_log_dest lg = D_STDOUT then
        le_time env @ ansi ''32'' @ level_str level @ ansi ''0'' @ file @ ascii '' line: '' @ to_dec line @ ascii '' ''
      else le_time env @ level_str level @ file @ ascii '' line: '' @ to_dec line @ ascii '' '') @
     ascii ''thread['' @ le_thread env @ ascii ''] ''"

definition impl_new_level :: "log_env \<Rightarrow> loglevel \<Rightarrow> 'w logger \<Rightarrow> bytes" where
  "impl_new_level env level lg =
     (if lg_log_dest lg = D_STDOUT then
        le_time env @ ansi ''31'' @ level_str level @ ansi ''0'' @ ascii '' ''
      else le_time env @ level_str level @ ascii '' '') @
     ascii ''['' @ le_thread env @ ascii ''] ''"

text \<open>The destructor of the temporary, with the text streamed so far.\<close>

definition logger_end :: "loglevel \<Rightarrow> bytes \<Rightarrow> 'w logger \<Rightarrow> 'w \<Rightarrow> 'w" where
  "logger_end level text lg w =
     (let w = lg_output lg (ToUTF8 (text @ [10])) w
      in if level = L_ERROR_EXIT then lg_flush lg w else w)"

text \<open>The three macros, each followed by the message streamed into the temporary.\<close>

definition DEBUG_LOG :: "log_env \<Rightarrow> bytes \<Rightarrow> nat \<Rightarrow> bytes \<Rightarrow> 'w logger \<Rightarrow> 'w \<Rightarrow> 'w" where
  "DEBUG_LOG env file line msg lg w =
     (if get_log_level lg \<le> L_DEBUG
      then logger_end L_DEBUG (impl_new env file line L_DEBUG lg @ msg) lg w else w)"

definition NOTICE_LOG :: "log_env \<Rightarrow> bytes \<Rightarrow> nat \<Rightarrow> bytes \<Rightarrow> 'w logger \<Rightarrow> 'w \<Rightarrow> 'w" where
  "NOTICE_LOG env file line msg lg w =
     (if get_log_level lg \<le> L_NOTICE
      then logger_end L_NOTICE (impl_new env file line L_NOTICE lg @ msg) lg w else w)"

definition ERROR_LOG :: "log_env \<Rightarrow> bytes \<Rightarrow> nat \<Rightarrow> bytes \<Rightarrow> 'w logger \<Rightarrow> 'w \<Rightarrow> 'w" where
  "ERROR_LOG env file line msg lg w =
     logger_end L_ERROR_EXIT (impl_new env file line L_ERROR_EXIT lg @ msg) lg w"

subsection \<open>A program's log statements\<close>

record log_stmt =
  st_level :: loglevel
  st_env :: log_env
  st_file :: bytes
  st_line :: nat
  st_msg :: bytes

definition log_statement :: "'w logger \<Rightarrow> log_stmt \<Rightarrow> 'w \<Rightarrow> 'w" where
  "log_statement lg st w = (case st_level st of
     L_DEBUG \<Rightarrow> DEBUG_LOG (st_env st) (st_file st) (st_line st) (st_msg st) lg w
   | L_NOTICE \<Rightarrow> NOTICE_LOG (st_env st) (st_file st) (st_line st) (st_msg st) lg w
   | L_ERROR_EXIT \<Rightarrow> ERROR_LOG (st_env st) (st_file st) (st_line st) (st_msg st) lg w)"

definition enabled :: "'w logger \<Rightarrow> log_stmt \<Rightarrow> bool" where
  "enabled lg st \<longleftrightarrow> lg_log_level lg \<le> st_level st"

definition log_line :: "'w logger \<Rightarrow> log_stmt \<Rightarrow> bytes" where
  "log_line lg st = impl_new (st_env st) (st_file st) (st_line st) (st_level st) lg @ st_msg st @ [10]"

lemma log_statement_cases:
  "log_statement lg st w =
     (if enabled lg st then
        (if st_level st = L_ERROR_EXIT then lg_flush lg (lg_output lg (log_line lg st) w)
         else lg_output lg (log_line lg st) w)
      else w)"
  by (cases "st_level st"; cases "lg_log_level lg")
     (simp_all add: log_statement_def DEBUG_LOG_def NOTICE_LOG_def ERROR_LOG_def get_log_level_def
       enabled_def log_line_def logger_end_def ToUTF8_def Let_def)

lemma error_always_enabled: "st_level st = L_ERROR_EXIT \<Longrightarrow> enabled lg st"
  by (cases "lg_log_level lg") (simp_all add: enabled_def)

end
