(* ===== verification/Config.thy ===== *)
theory Config
  imports Log
begin

text \<open>
  \<^verbatim>\<open>Shared/ConfigManage.{h,cpp}\<close>: the configuration of client and server. The JSON tree is Boost's and is a
  parameter: what its typed getters find at a path (nothing when the path is missing or the value does not
  convert, in which case \<open>get\<close> returns its default), and the values of the children of a node. OpenSSL's
  SHA-224 is a parameter \<open>evp\<close> that gives the digest, or nothing when one of the EVP calls fails.
\<close>

subsection \<open>Model\<close>

record ptree =
  pt_str :: "bytes \<Rightarrow> bytes option"
  pt_bool :: "bytes \<Rightarrow> bool option"
  pt_int :: "bytes \<Rightarrow> int option"
  pt_children :: "bytes \<Rightarrow> bytes list option"

definition get_or :: "'a option \<Rightarrow> 'a \<Rightarrow> 'a" where
  "get_or v dflt = (case v of Some x \<Rightarrow> x | None \<Rightarrow> dflt)"

record server_config =
  sc_local_addr :: bytes
  sc_local_port :: bytes
  sc_allowed_passwords :: "bytes list"
  sc_log_level :: loglevel
  sc_log_dir :: bytes
  sc_certificate_chain :: bytes
  sc_server_private_key :: bytes
  sc_websocketEnabled :: bool
  sc_dtls_enabled :: bool
  sc_dtls_port :: bytes
  sc_dns_cache_ttl :: int
  sc_dns_cleanup_interval :: int
  sc_thread_count :: u64

record client_config =
  cc_local_addr :: bytes
  cc_local_port :: bytes
  cc_remote_addr :: bytes
  cc_remote_port :: bytes
  cc_password :: bytes
  cc_user_name :: bytes
  cc_text_password :: bytes
  cc_udp_enabled :: bool
  cc_dtls_port :: bytes
  cc_useWebSocket :: bool

text \<open>Two lower-case hexadecimal digits per byte of the digest.\<close>

definition hex_digest :: "bytes \<Rightarrow> bytes" where
  "hex_digest d = concat (map hex2 d)"

definition SHA224 :: "(bytes \<Rightarrow> bytes option) \<Rightarrow> bytes \<Rightarrow> bytes res" where
  "SHA224 evp message = (case evp message of
     None \<Rightarrow> Inl Runtime_error
   | Some digest \<Rightarrow> Inr (hex_digest digest))"

definition client_populate :: "(bytes \<Rightarrow> bytes option) \<Rightarrow> ptree \<Rightarrow> client_config \<Rightarrow> client_config res" where
  "client_populate evp tree c =
     (let c = c\<lparr>cc_local_addr := get_or (pt_str tree (ascii ''local_addr'')) [],
                cc_local_port := get_or (pt_str tree (ascii ''local_port'')) [],
                cc_remote_addr := get_or (pt_str tree (ascii ''remote_addr'')) [],
                cc_remote_port := get_or (pt_str tree (ascii ''remote_port'')) [],
                cc_user_name := get_or (pt_str tree (ascii ''user_name'')) [],
                cc_text_password := get_or (pt_str tree (ascii ''password'')) []\<rparr>
      in rbind (SHA224 evp (cc_text_password c)) (\<lambda>h.
           Inr (c\<lparr>cc_password := h,
                  cc_udp_enabled := get_or (pt_bool tree (ascii ''udp_enabled'')) False,
                  cc_dtls_port := get_or (pt_str tree (ascii ''dtls_port'')) [],
                  cc_useWebSocket := get_or (pt_bool tree (ascii ''useWebSocket'')) False\<rparr>)))"

definition setPassword :: "(bytes \<Rightarrow> bytes option) \<Rightarrow> bytes \<Rightarrow> client_config \<Rightarrow> client_config res" where
  "setPassword evp psswd c =
     rbind (SHA224 evp psswd) (\<lambda>h. Inr (c\<lparr>cc_password := h, cc_text_password := psswd\<rparr>))"

text \<open>The loop over the configured passwords; the set is a list without repetitions.\<close>

fun hash_passwords :: "(bytes \<Rightarrow> bytes option) \<Rightarrow> bytes list \<Rightarrow> bytes list \<Rightarrow> bytes list res" where
  "hash_passwords evp [] allowed = Inr allowed"
| "hash_passwords evp (p # ps) allowed =
     rbind (SHA224 evp p) (\<lambda>h. hash_passwords evp ps (List.insert h allowed))"

definition parse_level :: "bytes \<Rightarrow> loglevel" where
  "parse_level str_leve =
     (if str_leve = ascii ''DEBUG'' then L_DEBUG
      else if str_leve = ascii ''NOTICE'' then L_NOTICE
      else L_ERROR_EXIT)"

text \<open>\<open>populate\<close> also sets the level of the logger. \<open>static_cast<size_t>\<close> of a negative \<open>int\<close> wraps.\<close>

definition server_populate ::
    "(bytes \<Rightarrow> bytes option) \<Rightarrow> ptree \<Rightarrow> server_config \<Rightarrow> 'w logger \<Rightarrow> (server_config \<times> 'w logger) res" where
  "server_populate evp tree c lg =
     (let c = c\<lparr>sc_local_addr := get_or (pt_str tree (ascii ''local_addr'')) [],
                sc_local_port := get_or (pt_str tree (ascii ''local_port'')) [],
                sc_allowed_passwords := []\<rparr>
      in rbind (case pt_children tree (ascii ''allowed_passwords'') of
                  None \<Rightarrow> Inr []
                | Some ps \<Rightarrow> hash_passwords evp ps []) (\<lambda>hs.
         let c = c\<lparr>sc_allowed_passwords := hs,
                   sc_log_level := parse_level (get_or (pt_str tree (ascii ''log_level'')) [])\<rparr>;
             lg = setLogLevel (sc_log_level c) lg;
             c = c\<lparr>sc_log_dir := get_or (pt_str tree (ascii ''log_dir'')) [],
                   sc_certificate_chain := get_or (pt_str tree (ascii ''ssl.cert'')) [],
                   sc_server_private_key := get_or (pt_str tree (ascii ''ssl.key'')) [],
                   sc_websocketEnabled := get_or (pt_bool tree (ascii ''websocketEnabled'')) False,
                   sc_dtls_enabled := get_or (pt_bool tree (ascii ''dtls_enabled'')) False,
                   sc_dtls_port := get_or (pt_str tree (ascii ''dtls_port'')) [],
                   sc_dns_cache_ttl := get_or (pt_int tree (ascii ''dns_cache_ttl'')) 600,
                   sc_dns_cleanup_interval := get_or (pt_int tree (ascii ''dns_cleanup_interval'')) 600,
                   sc_thread_count := word_of_int (get_or (pt_int tree (ascii ''thread_count'')) 0)\<rparr>
         in Inr (c, lg)))"

datatype config_type = Server_config | Client_config

record config_manage =
  cm_client_cfg :: client_config
  cm_server_cfg :: server_config
  cm_loaded :: bool

text \<open>\<open>read_json\<close> gives a tree or throws.\<close>

definition load_config ::
    "(bytes \<Rightarrow> bytes option) \<Rightarrow> (bytes \<Rightarrow> ptree res) \<Rightarrow> bytes \<Rightarrow> config_type \<Rightarrow> config_manage \<Rightarrow> 'w logger \<Rightarrow>
     (config_manage \<times> 'w logger) res" where
  "load_config evp read_json path ty m lg =
     rbind (read_json path) (\<lambda>tree.
       rbind (case ty of
           Server_config \<Rightarrow> rbind (server_populate evp tree (cm_server_cfg m) lg) (\<lambda>(c, lg).
             Inr (m\<lparr>cm_server_cfg := c\<rparr>, lg))
         | Client_config \<Rightarrow> rbind (client_populate evp tree (cm_client_cfg m)) (\<lambda>c.
             Inr (m\<lparr>cm_client_cfg := c\<rparr>, lg))) (\<lambda>(m, lg).
       Inr (m\<lparr>cm_loaded := True\<rparr>, lg)))"

subsection \<open>Hexadecimal digests\<close>

lemma hex_digit_inj: "m < 16 \<Longrightarrow> n < 16 \<Longrightarrow> hex_digit m = hex_digit n \<Longrightarrow> m = n"
  by (auto simp: hex_digit_def word_unat_eq_iff unat_word_ariths unat_of_nat split: if_splits)

lemma hex2_inj: "hex2 a = hex2 b \<Longrightarrow> a = b"
proof -
  assume "hex2 a = hex2 b"
  then have eq: "hex_digit (unat a div 16) = hex_digit (unat b div 16)"
    "hex_digit (unat a mod 16) = hex_digit (unat b mod 16)"
    by (simp_all add: hex2_def)
  have lt: "unat a < 256" "unat b < 256"
    using unsigned_less [of a] unsigned_less [of b] by simp_all
  have "unat a div 16 = unat b div 16" "unat a mod 16 = unat b mod 16"
    by (rule hex_digit_inj; use eq lt in simp)+
  then have "unat a = unat b"
    by (metis div_mult_mod_eq)
  then show "a = b"
    by (simp add: word_unat_eq_iff)
qed

lemma hex_digest_inj: "hex_digest c = hex_digest d \<Longrightarrow> c = d"
proof (induction c arbitrary: d)
  case Nil
  then show ?case
    by (cases d) (auto simp: hex_digest_def hex2_def)
next
  case (Cons x c)
  then obtain y e where d: "d = y # e"
    by (cases d) (auto simp: hex_digest_def hex2_def)
  have "hex2 x = hex2 y" "hex_digest c = hex_digest e"
    using Cons.prems by (auto simp: hex_digest_def d hex2_def)
  then show ?case
    using Cons.IH hex2_inj d by blast
qed

lemma hash_passwords_ok:
  assumes "\<And>p. evp p = Some (sha224 p)"
  shows "\<exists>hs. hash_passwords evp ps allowed = Inr hs \<and> set hs = set allowed \<union> (hex_digest \<circ> sha224) ` set ps"
proof (induction ps arbitrary: allowed)
  case (Cons p ps)
  then show ?case
    using Cons.IH [of "List.insert (hex_digest (sha224 p)) allowed"]
    by (auto simp: SHA224_def assms)
qed simp

subsection \<open>Agreement of client and server\<close>

text \<open>Client and server agree on who may connect. When both load their configuration, the hash the client
  sends is in the server's set exactly if the client's plain password is one of the listed ones, provided
  SHA-224 does not collide on the passwords involved; no plain password is kept on the server.\<close>

lemma password_accepted_iff:
  assumes "\<And>p. evp p = Some (sha224 p)"
    and "pt_children stree (ascii ''allowed_passwords'') = Some ps"
    and "pt_str ctree (ascii ''password'') = Some p"
    and "inj_on sha224 (insert p (set ps))"
  shows "\<exists>cc sc lg'. client_populate evp ctree c0 = Inr cc \<and> server_populate evp stree s0 lg = Inr (sc, lg') \<and>
    cc_text_password cc = p \<and>
    (cc_password cc \<in> set (sc_allowed_passwords sc) \<longleftrightarrow> p \<in> set ps) \<and>
    set (sc_allowed_passwords sc) = (hex_digest \<circ> sha224) ` set ps \<and>
    lg_log_level lg' = sc_log_level sc"
proof -
  obtain hs where hs: "hash_passwords evp ps [] = Inr hs" "set hs = (hex_digest \<circ> sha224) ` set ps"
    using hash_passwords_ok [of evp sha224 ps "[]", OF assms(1)] by auto
  have "hex_digest (sha224 p) \<in> set hs \<longleftrightarrow> p \<in> set ps"
    using assms(4) by (auto simp: hs(2) inj_on_def dest!: hex_digest_inj)
  then show ?thesis
    using assms(1-3) hs
    by (simp add: client_populate_def server_populate_def Let_def SHA224_def get_or_def setLogLevel_def)
qed

definition ex_tree :: ptree where
  "ex_tree = \<lparr>pt_str = [ascii ''password'' \<mapsto> ascii ''p1''], pt_bool = Map.empty, pt_int = Map.empty,
     pt_children = [ascii ''allowed_passwords'' \<mapsto> [ascii ''p1'', ascii ''p2'']]\<rparr>"

definition ex_client_config :: client_config where
  "ex_client_config = \<lparr>cc_local_addr = [], cc_local_port = [], cc_remote_addr = [], cc_remote_port = [],
     cc_password = [], cc_user_name = [], cc_text_password = [], cc_udp_enabled = False, cc_dtls_port = [],
     cc_useWebSocket = False\<rparr>"

definition ex_server_config :: server_config where
  "ex_server_config = \<lparr>sc_local_addr = [], sc_local_port = [], sc_allowed_passwords = [],
     sc_log_level = L_NOTICE, sc_log_dir = [], sc_certificate_chain = [], sc_server_private_key = [],
     sc_websocketEnabled = False, sc_dtls_enabled = False, sc_dtls_port = [], sc_dns_cache_ttl = 600,
     sc_dns_cleanup_interval = 600, sc_thread_count = 0\<rparr>"

end
