(* ===== verification/LogFile.thy ===== *)
theory LogFile
  imports CText Log
begin

text \<open>
  \<^verbatim>\<open>Shared/LogFile.{h,cpp}\<close>: the log file that is rolled by size and by day, with its stdio stream. The
  directory is a map from the names of regular files to their contents. A stream keeps what \<open>fwrite\<close> got and
  has not yet written; \<open>fflush\<close> and \<open>fclose\<close> write it out (stdio may do so earlier, which no statement below
  depends on). The clock is an argument; \<open>strftime\<close> of the local date and \<open>mktime\<close> depend on the host's time
  zone and are arguments too. Each public method holds the mutex, so it is one step.
\<close>

subsection \<open>Model\<close>

type_synonym directory = "bytes \<Rightarrow> bytes option"

record append_file =
  af_name :: bytes
  af_pending :: bytes
  af_writtenBytes :: int

text \<open>\<open>fopen(name, "a")\<close> creates the file when it is missing; the code asserts that it succeeds.\<close>

definition af_new :: "bytes \<Rightarrow> directory \<Rightarrow> append_file \<times> directory" where
  "af_new name dir =
     (\<lparr>af_name = name, af_pending = [], af_writtenBytes = 0\<rparr>,
      (case dir name of None \<Rightarrow> dir(name \<mapsto> []) | Some _ \<Rightarrow> dir))"

definition af_append :: "bytes \<Rightarrow> append_file \<Rightarrow> append_file" where
  "af_append buf f =
     f\<lparr>af_writtenBytes := af_writtenBytes f + int (length buf), af_pending := af_pending f @ buf\<rparr>"

definition af_flush :: "append_file \<Rightarrow> directory \<Rightarrow> append_file \<times> directory" where
  "af_flush f dir =
     (f\<lparr>af_pending := []\<rparr>,
      (case dir (af_name f) of None \<Rightarrow> dir | Some c \<Rightarrow> dir(af_name f \<mapsto> c @ af_pending f)))"

definition af_close :: "append_file \<Rightarrow> directory \<Rightarrow> directory" where
  "af_close f dir = snd (af_flush f dir)"

record log_file =
  lf_basename :: bytes
  lf_rollSize :: int
  lf_flushInterval :: int
  lf_checkEveryN :: int
  lf_maxKeepDays :: int
  lf_count :: int
  lf_startOfPeriod :: int
  lf_lastRoll :: int
  lf_lastFlush :: int
  lf_file :: "append_file option"

definition kRollPerSeconds :: int where
  "kRollPerSeconds = 60 * 60 * 24"

text \<open>\<open>date_text now\<close> is \<open>strftime(".%Y%m%d")\<close> of the local date.\<close>

definition getLogFileName :: "(int \<Rightarrow> bytes) \<Rightarrow> bytes \<Rightarrow> int \<Rightarrow> bytes" where
  "getLogFileName date_text base now = base @ date_text now @ ascii ''.log''"

text \<open>The new stream is opened before the old one is closed. Times are not before 1970, where the integer
  division of C++ and of HOL agree.\<close>

definition rollFile :: "(int \<Rightarrow> bytes) \<Rightarrow> int \<Rightarrow> log_file \<Rightarrow> directory \<Rightarrow> bool \<times> log_file \<times> directory" where
  "rollFile date_text now l dir =
     (let filename = getLogFileName date_text (lf_basename l) now;
          start = now div kRollPerSeconds * kRollPerSeconds
      in if now > lf_lastRoll l then
           let (f, dir) = af_new filename dir;
               dir = (case lf_file l of None \<Rightarrow> dir | Some old \<Rightarrow> af_close old dir)
           in (True, l\<lparr>lf_lastRoll := now, lf_lastFlush := now, lf_startOfPeriod := start,
                       lf_file := Some f\<rparr>, dir)
         else (False, l, dir))"

text \<open>A null \<open>file_\<close> is dereferenced when no roll has succeeded yet.\<close>

definition append_unlocked ::
    "(int \<Rightarrow> bytes) \<Rightarrow> int \<Rightarrow> bytes \<Rightarrow> log_file \<Rightarrow> directory \<Rightarrow> (log_file \<times> directory) res" where
  "append_unlocked date_text now buf l dir = (case lf_file l of
     None \<Rightarrow> Inl Oob
   | Some f \<Rightarrow>
       let f = af_append buf f; l = l\<lparr>lf_file := Some f\<rparr> in
       if af_writtenBytes f > lf_rollSize l then Inr (snd (rollFile date_text now l dir))
       else
         let l = l\<lparr>lf_count := lf_count l + 1\<rparr> in
         if lf_count l \<ge> lf_checkEveryN l then
           let l = l\<lparr>lf_count := 0\<rparr>;
               today = now div kRollPerSeconds * kRollPerSeconds in
           if today \<noteq> lf_startOfPeriod l then Inr (snd (rollFile date_text now l dir))
           else if now - lf_lastFlush l > lf_flushInterval l then
             let (f, dir) = af_flush f dir in Inr (l\<lparr>lf_lastFlush := now, lf_file := Some f\<rparr>, dir)
           else Inr (l, dir)
         else Inr (l, dir))"

definition lf_append ::
    "(int \<Rightarrow> bytes) \<Rightarrow> int \<Rightarrow> bytes \<Rightarrow> log_file \<Rightarrow> directory \<Rightarrow> (log_file \<times> directory) res" where
  "lf_append date_text now buf l dir = append_unlocked date_text now buf l dir"

definition lf_flush :: "log_file \<Rightarrow> directory \<Rightarrow> (log_file \<times> directory) res" where
  "lf_flush l dir = (case lf_file l of
     None \<Rightarrow> Inl Oob
   | Some f \<Rightarrow> let (f, dir) = af_flush f dir in Inr (l\<lparr>lf_file := Some f\<rparr>, dir))"

text \<open>\<open>mktime y m d\<close> is the time of the local date with \<open>tm_year\<close>, \<open>tm_mon\<close> and \<open>tm_mday\<close>; the result of the
  parser is \<open>-1\<close> when the name is not a log of this program.\<close>

definition parseLogDate :: "(int \<Rightarrow> int \<Rightarrow> int \<Rightarrow> int) \<Rightarrow> bytes \<Rightarrow> bytes \<Rightarrow> int res" where
  "parseLogDate mktime filename base =
     (let prefix = base @ ascii ''.''; suffix = ascii ''.log'' in
      if find_str prefix filename \<noteq> Some 0 \<or>
         (case find_str suffix filename of None \<Rightarrow> 2 ^ 64 - 1 | Some i \<Rightarrow> i) \<noteq>
           sz_sub (length filename) (length suffix)
      then Inr (- 1)
      else rbind (substr filename (length prefix)
                    (sz_sub (sz_sub (length filename) (length prefix)) (length suffix))) (\<lambda>dateStr.
        if length dateStr \<noteq> 8 then Inr (- 1)
        else case scan_d 4 dateStr of
          None \<Rightarrow> Inr (- 1)
        | Some (y, rest) \<Rightarrow> (case scan_d 2 rest of
            None \<Rightarrow> Inr (- 1)
          | Some (m, rest) \<Rightarrow> (case scan_d 2 rest of
              None \<Rightarrow> Inr (- 1)
            | Some (d, _) \<Rightarrow> Inr (mktime (y - 1900) (m - 1) d)))))"

text \<open>
  Whether the loop body removes a file. \<open>difftime(now, logDate) / 86400 > maxKeepDays\<close> in floating point is
  exact for differences of this size, so it is the comparison of integers.
\<close>

definition expired_log :: "(int \<Rightarrow> int \<Rightarrow> int \<Rightarrow> int) \<Rightarrow> int \<Rightarrow> int \<Rightarrow> bytes \<Rightarrow> bytes \<Rightarrow> bool" where
  "expired_log mktime now keep base name = (case parseLogDate mktime name base of
     Inr logDate \<Rightarrow> \<not> logDate < 0 \<and> now - logDate > keep * (60 * 60 * 24)
   | Inl _ \<Rightarrow> False)"

definition cleanupOldLogs :: "(int \<Rightarrow> int \<Rightarrow> int \<Rightarrow> int) \<Rightarrow> int \<Rightarrow> log_file \<Rightarrow> directory \<Rightarrow> directory" where
  "cleanupOldLogs mktime now l dir =
     (if lf_maxKeepDays l \<le> 0 then dir
      else (\<lambda>name. if expired_log mktime now (lf_maxKeepDays l) (lf_basename l) name then None else dir name))"

definition lf_new ::
    "(int \<Rightarrow> bytes) \<Rightarrow> (int \<Rightarrow> int \<Rightarrow> int \<Rightarrow> int) \<Rightarrow> int \<Rightarrow> bytes \<Rightarrow> int \<Rightarrow> int \<Rightarrow> int \<Rightarrow> int \<Rightarrow>
     directory \<Rightarrow> log_file \<times> directory" where
  "lf_new date_text mktime now base rollSize flushInterval checkEveryN maxKeepDays dir =
     (let l = \<lparr>lf_basename = base, lf_rollSize = rollSize, lf_flushInterval = flushInterval,
               lf_checkEveryN = checkEveryN, lf_maxKeepDays = maxKeepDays, lf_count = 0,
               lf_startOfPeriod = 0, lf_lastRoll = 0, lf_lastFlush = 0, lf_file = None\<rparr>;
          dir = cleanupOldLogs mktime now l dir
      in snd (rollFile date_text now l dir))"

subsection \<open>No line is lost\<close>

definition file_text :: "directory \<Rightarrow> bytes \<Rightarrow> bytes" where
  "file_text dir n = (case dir n of Some c \<Rightarrow> c | None \<Rightarrow> [])"

definition lf_open :: "log_file \<Rightarrow> directory \<Rightarrow> bool" where
  "lf_open l dir = (case lf_file l of Some f \<Rightarrow> dir (af_name f) \<noteq> None | None \<Rightarrow> False)"

definition current :: "log_file \<Rightarrow> bytes" where
  "current l = (case lf_file l of Some f \<Rightarrow> af_name f | None \<Rightarrow> [])"

text \<open>What a file holds once its stream is flushed.\<close>

definition content :: "log_file \<Rightarrow> directory \<Rightarrow> bytes \<Rightarrow> bytes" where
  "content l dir n = file_text dir n @
     (case lf_file l of Some f \<Rightarrow> if af_name f = n then af_pending f else [] | None \<Rightarrow> [])"

lemmas log_file_defs = content_def file_text_def lf_open_def current_def

lemma lf_openE:
  assumes "lf_open l dir"
  obtains f c where "lf_file l = Some f" and "dir (af_name f) = Some c"
  using assms by (auto simp: lf_open_def split: option.splits)

lemma rollFile_keeps:
  assumes "lf_open l dir" and "rollFile date_text now l dir = (b, l', dir')"
  shows "lf_open l' dir' \<and> content l' dir' = content l dir \<and> lf_basename l' = lf_basename l \<and>
    current l' \<in> {current l, getLogFileName date_text (lf_basename l) now}"
proof (cases "now > lf_lastRoll l")
  case True
  obtain f c where f: "lf_file l = Some f" "dir (af_name f) = Some c"
    using assms(1) by (rule lf_openE)
  let ?n = "getLogFileName date_text (lf_basename l) now"
  define dir1 where "dir1 = (case dir ?n of None \<Rightarrow> dir(?n \<mapsto> []) | Some _ \<Rightarrow> dir)"
  have name: "dir1 (af_name f) = Some c"
    using f(2) by (auto simp: dir1_def split: option.splits)
  have text1: "file_text dir1 = file_text dir"
    by (auto simp: file_text_def dir1_def split: option.splits)
  have l': "lf_file l' = Some \<lparr>af_name = ?n, af_pending = [], af_writtenBytes = 0\<rparr>"
    "lf_basename l' = lf_basename l" "dir' = dir1(af_name f \<mapsto> c @ af_pending f)"
    using assms(2) True f name
    by (auto simp: rollFile_def Let_def af_new_def af_close_def af_flush_def simp flip: dir1_def)
  have "dir1 ?n \<noteq> None"
    by (auto simp: dir1_def split: option.splits)
  then have "dir' ?n \<noteq> None"
    by (auto simp: l'(3))
  moreover have "file_text dir' = (\<lambda>n. if n = af_name f then c @ af_pending f else file_text dir n)"
    unfolding text1 [symmetric] by (rule ext) (simp add: l'(3) file_text_def)
  then have "content l' dir' = content l dir"
    using f by (intro ext) (auto simp: content_def l'(1) file_text_def)
  ultimately show ?thesis
    by (simp add: lf_open_def current_def l'(1,2))
qed (use assms in \<open>auto simp: rollFile_def Let_def\<close>)

lemma af_flush_keeps:
  assumes "lf_open l dir" and "lf_flush l dir = Inr (l', dir')"
  shows "lf_open l' dir' \<and> content l' dir' = content l dir \<and> file_text dir' = content l dir \<and>
    lf_basename l' = lf_basename l \<and> current l' = current l"
proof -
  obtain f c where f: "lf_file l = Some f" "dir (af_name f) = Some c"
    using assms(1) by (rule lf_openE)
  have l': "l' = l\<lparr>lf_file := Some (f\<lparr>af_pending := []\<rparr>)\<rparr>" "dir' = dir(af_name f \<mapsto> c @ af_pending f)"
    using assms(2) f by (auto simp: lf_flush_def af_flush_def)
  have "file_text dir' = content l dir"
    using f by (intro ext) (auto simp: l'(2) content_def file_text_def)
  then show ?thesis
    by (auto simp: l'(1) content_def f(1) current_def lf_open_def l'(2))
qed

lemma lf_flush_open: "lf_open l dir \<Longrightarrow> \<exists>l' dir'. lf_flush l dir = Inr (l', dir')"
  by (auto simp: lf_flush_def lf_open_def af_flush_def split: option.splits)

text \<open>Everything after the write to the stream is either nothing, a roll or a flush.\<close>

lemma lf_append_cases:
  assumes "lf_file l = Some f"
  obtains (Quiet) l1 where "lf_append date_text now buf l dir = Inr (l1, dir)"
      "lf_file l1 = Some (af_append buf f)" "lf_basename l1 = lf_basename l"
    | (Roll) l1 where "lf_append date_text now buf l dir = Inr (snd (rollFile date_text now l1 dir))"
      "lf_file l1 = Some (af_append buf f)" "lf_basename l1 = lf_basename l"
    | (Flush) l1 where "lf_append date_text now buf l dir = lf_flush l1 dir"
      "lf_file l1 = Some (af_append buf f)" "lf_basename l1 = lf_basename l"
proof -
  let ?f = "af_append buf f"
  let ?l = "l\<lparr>lf_file := Some ?f\<rparr>"
  let ?l' = "?l\<lparr>lf_count := lf_count l + 1\<rparr>"
  let ?lz = "?l\<lparr>lf_count := 0\<rparr>"
  note defs = lf_append_def append_unlocked_def Let_def assms
  consider "af_writtenBytes ?f > lf_rollSize l"
    | "\<not> af_writtenBytes ?f > lf_rollSize l" "\<not> lf_count l + 1 \<ge> lf_checkEveryN l"
    | "\<not> af_writtenBytes ?f > lf_rollSize l" "lf_count l + 1 \<ge> lf_checkEveryN l"
      "now div kRollPerSeconds * kRollPerSeconds \<noteq> lf_startOfPeriod l"
    | "\<not> af_writtenBytes ?f > lf_rollSize l" "lf_count l + 1 \<ge> lf_checkEveryN l"
      "now div kRollPerSeconds * kRollPerSeconds = lf_startOfPeriod l"
      "now - lf_lastFlush l > lf_flushInterval l"
    | "\<not> af_writtenBytes ?f > lf_rollSize l" "lf_count l + 1 \<ge> lf_checkEveryN l"
      "now div kRollPerSeconds * kRollPerSeconds = lf_startOfPeriod l"
      "\<not> now - lf_lastFlush l > lf_flushInterval l"
    by blast
  then show thesis
  proof cases
    case 1
    then show thesis by (intro Roll [of ?l]) (simp_all add: defs)
  next
    case 2
    then show thesis by (intro Quiet [of ?l']) (simp_all add: defs)
  next
    case 3
    then show thesis by (intro Roll [of ?lz]) (simp_all add: defs)
  next
    case 4
    then show thesis
      by (intro Flush [of "?lz\<lparr>lf_lastFlush := now\<rparr>"]) (simp_all add: defs lf_flush_def af_flush_def)
  next
    case 5
    then show thesis by (intro Quiet [of ?lz]) (simp_all add: defs)
  qed
qed

lemma written_content:
  assumes "lf_open l dir" and "lf_file l = Some f" and "lf_file l1 = Some (af_append buf f)"
  shows "lf_open l1 dir \<and> current l1 = current l \<and>
    content l1 dir = (\<lambda>n. content l dir n @ (if n = current l then buf else []))"
  using assms by (auto simp: log_file_defs af_append_def fun_eq_iff split: option.splits)

lemma lf_append_content:
  assumes "lf_open l dir"
  shows "\<exists>l' dir'. lf_append date_text now buf l dir = Inr (l', dir') \<and> lf_open l' dir' \<and>
    content l' dir' = (\<lambda>n. content l dir n @ (if n = current l then buf else [])) \<and>
    lf_basename l' = lf_basename l \<and>
    current l' \<in> {current l, getLogFileName date_text (lf_basename l) now}"
proof -
  obtain f where f: "lf_file l = Some f"
    using assms by (auto simp: lf_open_def split: option.splits)
  from f show ?thesis
  proof (cases rule: lf_append_cases [where date_text = date_text and now = now and buf = buf and dir = dir])
    case (Quiet l1)
    then show ?thesis
      using written_content [OF assms f] by auto
  next
    case (Roll l1)
    obtain b l' dir' where r: "rollFile date_text now l1 dir = (b, l', dir')"
      by (cases "rollFile date_text now l1 dir")
    show ?thesis
      using written_content [OF assms f Roll(2)] rollFile_keeps [OF _ r] Roll r by auto
  next
    case (Flush l1)
    then obtain l' dir' where r: "lf_flush l1 dir = Inr (l', dir')"
      using written_content [OF assms f] lf_flush_open by blast
    show ?thesis
      using written_content [OF assms f Flush(2)] af_flush_keeps [OF _ r] Flush r by auto
  qed
qed

text \<open>A run of appends, with the name of the file each line was written to.\<close>

fun lf_run :: "(int \<Rightarrow> bytes) \<Rightarrow> (int \<times> bytes) list \<Rightarrow> log_file \<Rightarrow> directory \<Rightarrow>
    ((bytes \<times> bytes) list \<times> log_file \<times> directory) res" where
  "lf_run date_text [] l dir = Inr ([], l, dir)"
| "lf_run date_text ((now, buf) # xs) l dir =
     rbind (lf_append date_text now buf l dir) (\<lambda>(l', dir').
     rbind (lf_run date_text xs l' dir') (\<lambda>(tr, r). Inr ((current l, buf) # tr, r)))"

definition lines_of :: "bytes \<Rightarrow> (bytes \<times> bytes) list \<Rightarrow> bytes" where
  "lines_of n tr = concat (map snd (filter (\<lambda>p. fst p = n) tr))"

lemma lf_run_content:
  assumes "lf_open l dir"
  shows "\<exists>tr l' dir'. lf_run date_text xs l dir = Inr (tr, l', dir') \<and> lf_open l' dir' \<and>
    map snd tr = map snd xs \<and>
    fst ` set tr \<subseteq> insert (current l) (getLogFileName date_text (lf_basename l) ` fst ` set xs) \<and>
    content l' dir' = (\<lambda>n. content l dir n @ lines_of n tr)"
  using assms
proof (induction xs arbitrary: l dir)
  case Nil
  then show ?case
    by (simp add: lines_of_def)
next
  case (Cons x xs)
  obtain now buf where x: "x = (now, buf)"
    by (cases x)
  obtain l1 dir1 where 1: "lf_append date_text now buf l dir = Inr (l1, dir1)" "lf_open l1 dir1"
    "content l1 dir1 = (\<lambda>n. content l dir n @ (if n = current l then buf else []))"
    "lf_basename l1 = lf_basename l" "current l1 \<in> {current l, getLogFileName date_text (lf_basename l) now}"
    using lf_append_content [OF Cons.prems] by blast
  obtain tr l2 dir2 where 2: "lf_run date_text xs l1 dir1 = Inr (tr, l2, dir2)" "lf_open l2 dir2"
    "map snd tr = map snd xs"
    "fst ` set tr \<subseteq> insert (current l1) (getLogFileName date_text (lf_basename l1) ` fst ` set xs)"
    "content l2 dir2 = (\<lambda>n. content l1 dir1 n @ lines_of n tr)"
    using Cons.IH [OF 1(2)] by blast
  have "content l2 dir2 = (\<lambda>n. content l dir n @ lines_of n ((current l, buf) # tr))"
    using 1(3) 2(5) by (auto simp: lines_of_def fun_eq_iff)
  moreover have "fst ` set ((current l, buf) # tr) \<subseteq>
      insert (current l) (getLogFileName date_text (lf_basename l) ` fst ` set (x # xs))"
    using 1(4,5) 2(4) by (auto simp: x)
  moreover have "lf_run date_text (x # xs) l dir = Inr ((current l, buf) # tr, l2, dir2)"
    and "map snd ((current l, buf) # tr) = map snd (x # xs)"
    using 1(1) 2(1,3) by (simp_all add: x)
  ultimately show ?case
    using 2(2) by blast
qed

lemma lf_new_open:
  assumes "0 < now" and "lf_new date_text mktime now base rs fi cn kd dir0 = (l, dir)"
  shows "lf_open l dir \<and> current l = getLogFileName date_text base now \<and> lf_basename l = base"
    and "file_text dir = content l dir"
proof -
  let ?n = "getLogFileName date_text base now"
  have l: "lf_file l = Some \<lparr>af_name = ?n, af_pending = [], af_writtenBytes = 0\<rparr>"
    "lf_basename l = base" "dir ?n \<noteq> None"
    using assms by (auto simp: lf_new_def rollFile_def Let_def af_new_def split: option.splits)
  show "lf_open l dir \<and> current l = ?n \<and> lf_basename l = base"
    using l by (simp add: lf_open_def current_def)
  show "file_text dir = content l dir"
    by (rule ext) (simp add: content_def l(1))
qed

text \<open>C35: the log loses nothing and mixes nothing up. After the file was opened, any sequence of lines at any
  times, through every size roll, daily roll and periodic flush, succeeds; each line goes whole to the file
  current at that moment, which is the file named after the date of one of the writes so far; and after a
  flush every file in the directory is what it was before, followed by exactly its lines in order.\<close>

theorem log_file_complete:
  assumes "0 < now" and "lf_new date_text mktime now base rs fi cn kd dir0 = (l, dir)"
  shows "\<exists>tr l' dir' l'' dir''. lf_run date_text xs l dir = Inr (tr, l', dir') \<and>
    map snd tr = map snd xs \<and>
    fst ` set tr \<subseteq> getLogFileName date_text base ` (insert now (fst ` set xs)) \<and>
    lf_flush l' dir' = Inr (l'', dir'') \<and>
    file_text dir'' = (\<lambda>n. file_text dir n @ lines_of n tr)"
proof -
  note new = lf_new_open [OF assms]
  obtain tr l' dir' where run: "lf_run date_text xs l dir = Inr (tr, l', dir')" "lf_open l' dir'"
    "map snd tr = map snd xs"
    "fst ` set tr \<subseteq> insert (current l) (getLogFileName date_text (lf_basename l) ` fst ` set xs)"
    "content l' dir' = (\<lambda>n. content l dir n @ lines_of n tr)"
    using lf_run_content [of l dir date_text xs] new(1) by blast
  obtain l'' dir'' where fl: "lf_flush l' dir' = Inr (l'', dir'')"
    using lf_flush_open [OF run(2)] by blast
  have "fst ` set tr \<subseteq> getLogFileName date_text base ` (insert now (fst ` set xs))"
    using run(4) new(1) by simp
  moreover have "file_text dir'' = (\<lambda>n. file_text dir n @ lines_of n tr)"
    using af_flush_keeps [OF run(2) fl] run(5) new(2) by simp
  ultimately show ?thesis
    using run(1,3) fl by (intro exI conjI)
qed

text \<open>A day boundary and a size roll, with the date as the day number.\<close>

theorem log_file_complete_witness:
  "\<exists>tr l' dir' l'' dir''.
     (let (l, dir) = lf_new (\<lambda>t. [46] @ to_dec (nat (t div 86400))) (\<lambda>y m d. 0) 86390 [115] 5 3 1 30 Map.empty in
      lf_run (\<lambda>t. [46] @ to_dec (nat (t div 86400))) [(86391, [1]), (86401, [2]), (86402, [3, 4, 5, 6, 7, 8])] l dir
        = Inr (tr, l', dir') \<and> map snd tr = [[1], [2], [3, 4, 5, 6, 7, 8]] \<and>
      lf_flush l' dir' = Inr (l'', dir'') \<and>
      file_text dir'' = (\<lambda>n. file_text dir n @ lines_of n tr))"
proof -
  let ?dt = "\<lambda>t :: int. [46] @ to_dec (nat (t div 86400))"
  let ?mk = "\<lambda>y m d :: int. 0 :: int"
  obtain l dir where n: "lf_new ?dt ?mk 86390 [115] 5 3 1 30 Map.empty = (l, dir)"
    by (rule prod.exhaust)
  let ?xs = "[(86391 :: int, [1 :: byte]), (86401, [2]), (86402, [3, 4, 5, 6, 7, 8])]"
  have pos: "0 < (86390 :: int)"
    by simp
  obtain tr l' dir' l'' dir'' where r: "lf_run ?dt ?xs l dir = Inr (tr, l', dir')"
    "map snd tr = map snd ?xs" "lf_flush l' dir' = Inr (l'', dir'')"
    "file_text dir'' = (\<lambda>n. file_text dir n @ lines_of n tr)"
    using log_file_complete [OF pos n, of ?xs] by (elim exE conjE) (rule that)
  have lines: "map snd tr = [[1], [2], [3, 4, 5, 6, 7, 8]]"
    using r(2) by simp
  show ?thesis
    unfolding n Let_def prod.case
    by (intro exI [of _ tr] exI [of _ l'] exI [of _ dir'] exI [of _ l''] exI [of _ dir''] conjI r(1) lines r(3,4))
qed

subsection \<open>The logger on a log file\<close>

text \<open>The hooks that \<^verbatim>\<open>Server/main.cpp\<close> installs when a log directory is configured.\<close>

definition file_output ::
    "(int \<Rightarrow> bytes) \<Rightarrow> int \<Rightarrow> bytes \<Rightarrow> (log_file \<times> directory) res \<Rightarrow> (log_file \<times> directory) res" where
  "file_output date_text now buf w = rbind w (\<lambda>(l, dir). lf_append date_text now buf l dir)"

definition file_flush :: "(log_file \<times> directory) res \<Rightarrow> (log_file \<times> directory) res" where
  "file_flush w = rbind w (\<lambda>(l, dir). lf_flush l dir)"

text \<open>An error message is on disk when its log statement is over. With the logger writing to the log file,
  whatever the configured level and even if this very line makes the file roll, the file that was current
  ends with the whole line, after everything logged to it before, and no other file changes.\<close>

theorem error_log_durable:
  assumes "lf_open l dir" and "st_level st = L_ERROR_EXIT"
    and "lg_output lg = file_output date_text now" and "lg_flush lg = file_flush"
  shows "\<exists>l' dir'. log_statement lg st (Inr (l, dir)) = Inr (l', dir') \<and> lf_open l' dir' \<and>
    file_text dir' = (\<lambda>n. content l dir n @ (if n = current l then log_line lg st else []))"
proof -
  obtain l1 dir1 where 1: "lf_append date_text now (log_line lg st) l dir = Inr (l1, dir1)" "lf_open l1 dir1"
    "content l1 dir1 = (\<lambda>n. content l dir n @ (if n = current l then log_line lg st else []))"
    using lf_append_content [OF assms(1)] by blast
  obtain l2 dir2 where 2: "lf_flush l1 dir1 = Inr (l2, dir2)"
    using lf_flush_open [OF 1(2)] by blast
  have "log_statement lg st (Inr (l, dir)) = Inr (l2, dir2)"
    using assms 1(1) 2
    by (simp add: log_statement_cases error_always_enabled file_output_def file_flush_def)
  then show ?thesis
    using af_flush_keeps [OF 1(2) 2] 1(3) by (intro exI [of _ l2] exI [of _ dir2]) simp
qed

definition ex_log_file :: log_file where
  "ex_log_file = \<lparr>lf_basename = [115], lf_rollSize = 0, lf_flushInterval = 3, lf_checkEveryN = 1024,
     lf_maxKeepDays = 30, lf_count = 0, lf_startOfPeriod = 0, lf_lastRoll = 5, lf_lastFlush = 5,
     lf_file = Some \<lparr>af_name = [115, 46, 49], af_pending = [7], af_writtenBytes = 1\<rparr>\<rparr>"

definition ex_logger :: "((log_file \<times> directory) res) logger" where
  "ex_logger = setFlush file_flush (setOutput (file_output (\<lambda>t. [46, 49]) 9)
     (set_log_destination D_FILE (new_logger (\<lambda>b w. w) (\<lambda>w. w))))"

definition ex_error :: log_stmt where
  "ex_error = \<lparr>st_level = L_ERROR_EXIT, st_env = \<lparr>le_time = [91, 93], le_thread = [49]\<rparr>,
     st_file = ascii ''Session.cpp'', st_line = 63, st_msg = ascii ''parse protocol request failed''\<rparr>"

theorem error_log_durable_witness:
  "\<exists>l' dir'. log_statement ex_logger ex_error (Inr (ex_log_file, [[115, 46, 49] \<mapsto> [1]])) = Inr (l', dir') \<and>
     file_text dir' [115, 46, 49] = [1, 7] @ log_line ex_logger ex_error"
proof -
  have "lf_open ex_log_file [[115, 46, 49] \<mapsto> [1]]" "st_level ex_error = L_ERROR_EXIT"
    "lg_output ex_logger = file_output (\<lambda>t. [46, 49]) 9" "lg_flush ex_logger = file_flush"
    "content ex_log_file [[115, 46, 49] \<mapsto> [1]] [115, 46, 49] = [1, 7]" "current ex_log_file = [115, 46, 49]"
    by (simp_all add: ex_log_file_def ex_error_def ex_logger_def log_file_defs setFlush_def setOutput_def
        set_log_destination_def new_logger_def)
  then show ?thesis
    using error_log_durable [of ex_log_file "[[115, 46, 49] \<mapsto> [1]]" ex_error ex_logger "\<lambda>t. [46, 49]" 9]
    by auto
qed

subsection \<open>Cleaning up\<close>

lemma find_str_here: "find_str p (p @ t) = Some 0"
proof (cases "p @ t")
  case (Cons a l)
  then have "take (length p) (a # l) = p"
    by (metis append_eq_conv_conj)
  then show ?thesis
    by (simp add: Cons)
qed simp

lemma find_str_0: "find_str p s = Some 0 \<Longrightarrow> \<exists>t. s = p @ t"
  using find_str_Some_split [of p s 0] by auto

lemma digit_not_dot: "list_all is_digit ds \<Longrightarrow> 46 \<notin> set ds"
  by (auto simp: list_all_iff is_digit_def word_le_nat_alt)

definition own_log :: "bytes \<Rightarrow> bytes \<Rightarrow> bytes" where
  "own_log base date = base @ ascii ''.'' @ date @ ascii ''.log''"

lemma find_log_suffix:
  assumes "46 \<notin> set base" and "list_all is_digit date" and "date \<noteq> []"
  shows "find_str (ascii ''.log'') (own_log base date) = Some (length base + 1 + length date)"
proof -
  obtain c cs where d: "date = c # cs"
    using assms(3) by (cases date) auto
  have nd: "46 \<notin> set date"
    by (rule digit_not_dot) (fact assms(2))
  have c: "c \<noteq> 108"
    using assms(2) by (auto simp: d is_digit_def word_le_nat_alt)
  have log: "ascii ''.log'' = 46 # [108, 111, 103]" "ascii ''.'' = [46]"
    by (simp_all add: ascii_def)
  have "find_str (46 # [108, 111, 103]) (date @ 46 # [108, 111, 103]) = Some (length date)"
    using find_str_skip [OF nd, of "[108, 111, 103]" "46 # [108, 111, 103]"] by simp
  then have "find_str (46 # [108, 111, 103]) (46 # date @ 46 # [108, 111, 103]) = Some (Suc (length date))"
    using c by (simp add: d)
  then show ?thesis
    using find_str_skip [OF assms(1)] by (simp add: own_log_def log)
qed

lemma parse_own_log:
  assumes "46 \<notin> set base" and "list_all is_digit y" and "list_all is_digit m" and "list_all is_digit d"
    and "length y = 4" and "length m = 2" and "length d = 2"
  shows "parseLogDate mktime (own_log base (y @ m @ d)) base =
    Inr (mktime (digits_value y - 1900) (digits_value m - 1) (digits_value d))"
proof -
  let ?n = "own_log base (y @ m @ d)"
  have ne: "y \<noteq> []" "m \<noteq> []" "d \<noteq> []"
    using assms(5-7) by auto
  have p: "find_str (base @ ascii ''.'') ?n = Some 0"
    using find_str_here [of "base @ ascii ''.''" "(y @ m @ d) @ ascii ''.log''"] by (simp add: own_log_def)
  have sfx: "find_str (ascii ''.log'') ?n = Some (length base + 9)"
    using find_log_suffix [OF assms(1), of "y @ m @ d"] assms(2-4) ne(1) assms(5-7) by (simp add: ac_simps)
  have len: "length ?n = length base + 13" "length (ascii ''.log'') = 4" "length (ascii ''.'') = 1"
    using assms by (simp_all add: own_log_def ascii_def)
  have date: "take 8 (drop (length base + 1) ?n) = y @ m @ d"
    using assms(5-7) len by (simp add: own_log_def)
  show ?thesis
    using p sfx len date scan_d_digits [OF assms(2) ne(1) assms(5), of "m @ d"]
      scan_d_digits [OF assms(3) ne(2) assms(6), of d] scan_d_digits [OF assms(4) ne(3) assms(7), of "[]"] assms(5-7)
    by (simp add: parseLogDate_def Let_def)
qed

lemma drop_at_split: "s = take k s @ t \<Longrightarrow> drop k s = t"
  by (metis append_take_drop_id same_append_eq)

lemma parse_only_own:
  assumes "parseLogDate mktime name base = Inr t" and "t \<noteq> - 1" and "length name < 2 ^ 63"
  shows "\<exists>date. length date = 8 \<and> name = own_log base date"
proof -
  let ?p = "base @ ascii ''.''" and ?s = "ascii ''.log''"
  have slen: "length ?s = 4"
    by (simp add: ascii_def)
  have 1: "find_str ?p name = Some 0"
    "(case find_str ?s name of None \<Rightarrow> 2 ^ 64 - 1 | Some i \<Rightarrow> i) = sz_sub (length name) (length ?s)"
    using assms by (auto simp: parseLogDate_def Let_def split: if_splits)
  obtain r where r: "name = ?p @ r"
    using find_str_0 [OF 1(1)] by blast
  have "min (length r) (sz_sub (length r) 4) = 8"
  proof (rule ccontr)
    assume "min (length r) (sz_sub (length r) 4) \<noteq> 8"
    then have "parseLogDate mktime name base = Inr (- 1)"
      using 1 by (simp add: parseLogDate_def Let_def r slen)
    then show False
      using assms by simp
  qed
  then have lr: "length r = 12"
    by (auto simp: sz_sub_def min_def split: if_splits)
  then have "find_str ?s name = Some (length ?p + 8)"
    using 1(2) assms(3) by (auto simp: r slen split: option.splits)
  then have sp: "length ?p + 8 + length ?s \<le> length name \<and>
      name = take (length ?p + 8) name @ ?s @ drop (length ?p + 8 + length ?s) name"
    by (rule find_str_Some_split)
  have "drop (length ?p + 8) name = ?s @ drop (length ?p + 8 + length ?s) name"
    by (rule drop_at_split) (rule conjunct2 [OF sp])
  then have "drop 8 r = ?s"
    using lr by (simp add: r slen)
  then have "name = own_log base (take 8 r)"
    using append_take_drop_id [of 8 r] by (simp add: own_log_def r)
  then show ?thesis
    using lr by (intro exI [of _ "take 8 r"]) simp
qed

text \<open>Cleaning up removes old logs of this program and nothing else. A log file with the program's base
  name and an eight-digit date is removed exactly when its date is more than the configured number of days
  ago; a file with any other name is left alone.\<close>

theorem cleanup_exact:
  assumes "46 \<notin> set (lf_basename l)" and "0 < lf_maxKeepDays l"
    and "list_all is_digit y" and "list_all is_digit m" and "list_all is_digit d"
    and "length y = 4" and "length m = 2" and "length d = 2"
    and "t = mktime (digits_value y - 1900) (digits_value m - 1) (digits_value d)"
    and "\<nexists>date. length date = 8 \<and> other = own_log (lf_basename l) date" and "length other < 2 ^ 63"
  shows "cleanupOldLogs mktime now l dir (own_log (lf_basename l) (y @ m @ d)) =
      (if 0 \<le> t \<and> now - t > lf_maxKeepDays l * 86400 then None else dir (own_log (lf_basename l) (y @ m @ d))) \<and>
    cleanupOldLogs mktime now l dir other = dir other"
proof -
  have "\<not> expired_log mktime now (lf_maxKeepDays l) (lf_basename l) other"
    using parse_only_own [of mktime other "lf_basename l"] assms(10,11)
    by (auto simp: expired_log_def split: sum.splits)
  then show ?thesis
    using parse_own_log [OF assms(1,3-8), of mktime] assms(2,9)
    by (simp add: cleanupOldLogs_def expired_log_def)
qed

theorem cleanup_exact_witness:
  "cleanupOldLogs (\<lambda>y m d. ((y - 70) * 365 + m * 30 + d) * 86400) 1750000000 ex_log_file
     [ascii ''s.20230115.log'' \<mapsto> [1], ascii ''notes.txt'' \<mapsto> [2]] (ascii ''s.20230115.log'') = None \<and>
   cleanupOldLogs (\<lambda>y m d. ((y - 70) * 365 + m * 30 + d) * 86400) 1750000000 ex_log_file
     [ascii ''s.20230115.log'' \<mapsto> [1], ascii ''notes.txt'' \<mapsto> [2]] (ascii ''notes.txt'') = Some [2]"
proof -
  let ?mk = "\<lambda>y m d :: int. ((y - 70) * 365 + m * 30 + d) * 86400"
  let ?dir = "[ascii ''s.20230115.log'' \<mapsto> [1 :: byte], ascii ''notes.txt'' \<mapsto> [2]]"
  let ?y = "ascii ''2023''" and ?m = "ascii ''01''" and ?d = "ascii ''15''"
  have base: "lf_basename ex_log_file = [115]" "lf_maxKeepDays ex_log_file = 30"
    by (simp_all add: ex_log_file_def)
  have own: "own_log [115] (?y @ ?m @ ?d) = ascii ''s.20230115.log''"
    by (simp add: own_log_def ascii_def)
  have digits: "list_all is_digit ?y" "list_all is_digit ?m" "list_all is_digit ?d"
    "length ?y = 4" "length ?m = 2" "length ?d = 2"
    by (simp_all add: ascii_def is_digit_def)
  have t: "?mk (digits_value ?y - 1900) (digits_value ?m - 1) (digits_value ?d) = 1672704000"
    by (simp add: digits_value_def ascii_def)
  have other: "\<nexists>date. length date = 8 \<and> ascii ''notes.txt'' = own_log [115] date"
    by (auto simp: own_log_def ascii_def)
  have len: "length (ascii ''notes.txt'') < 2 ^ 63" and ne: "ascii ''notes.txt'' \<noteq> ascii ''s.20230115.log''"
    by (simp_all add: ascii_def)
  have dot: "46 \<notin> set (lf_basename ex_log_file)" and keep: "0 < lf_maxKeepDays ex_log_file"
    by (simp_all add: base)
  show ?thesis
    using cleanup_exact [where mktime = ?mk, OF dot keep digits t [symmetric] other [folded base(1)] len,
        of 1750000000 ?dir]
    unfolding base own using ne by simp
qed

end
