(* ===== verification/DtlsServerSession.thy ===== *)
theory DtlsServerSession
  imports UdpFrame DnsCache Config
begin

text \<open>
  \<^verbatim>\<open>Server/DtlsServerSession.{h,cpp}\<close>: the server side of one DTLS client, which carries UDP datagrams of
  several relays. OpenSSL is not part of the sources: what \<open>SSL_accept\<close>, \<open>SSL_read\<close> and \<open>SSL_write\<close> return
  is an input of each step, so the plain text of a record is chosen by the environment. Operations in
  flight are the elements of \<open>ds_pending\<close>; records written to the client are listed in \<open>ds_sent\<close>.
\<close>

subsection \<open>Model\<close>

datatype dtls_state = D_HANDSHAKE | D_AUTH | D_PROXY | D_DESTROY

datatype ssl_err = Want_read | Want_write | Zero_return | Ssl_failed

datatype ssl_accept = Accepted | Accept_err ssl_err

datatype ssl_read = Plain bytes | Read_err ssl_err

datatype net_err = Op_aborted | Op_failed

datatype dtls_op =
    Resolve_target bytes u16 bytes u16
  | Send_target bytes endpoint
  | Receive_target

datatype dtls_outcome = Op_error net_err | Op_done | Op_results "endpoint list" | Op_data endpoint bytes

record dtls_input =
  di_accept :: ssl_accept
  di_read :: ssl_read
  di_write_ok :: bool
  di_now :: int

record dtls_session =
  ds_client_ep :: endpoint
  ds_ssl :: bool
  ds_target_open :: bool
  ds_target_ep :: endpoint
  ds_target_to_session :: "endpoint \<Rightarrow> u16 option"
  ds_state :: dtls_state
  ds_auth_buf :: bytes
  ds_destroyed :: bool
  ds_dns :: dns_cache
  ds_pending :: "dtls_op list"
  ds_sent :: "bytes list"

definition ds_new :: "endpoint \<Rightarrow> dns_cache \<Rightarrow> dtls_session" where
  "ds_new client_ep dns =
     \<lparr>ds_client_ep = client_ep, ds_ssl = True, ds_target_open = True, ds_target_ep = default_endpoint,
      ds_target_to_session = Map.empty, ds_state = D_HANDSHAKE, ds_auth_buf = [], ds_destroyed = False,
      ds_dns = dns, ds_pending = [], ds_sent = []\<rparr>"

definition ds_start_op :: "dtls_op \<Rightarrow> dtls_session \<Rightarrow> dtls_session" where
  "ds_start_op p s = s\<lparr>ds_pending := ds_pending s @ [p]\<rparr>"

text \<open>\<open>stop\<close>, which also calls \<open>on_destroy_\<close>: the listener reads that off \<open>ds_destroyed\<close>.\<close>

definition ds_stop :: "dtls_session \<Rightarrow> dtls_session" where
  "ds_stop s =
     (if ds_destroyed s then s
      else s\<lparr>ds_destroyed := True, ds_state := D_DESTROY, ds_target_open := False, ds_ssl := False\<rparr>)"

definition do_read_target :: "dtls_session \<Rightarrow> dtls_session" where
  "do_read_target s = (if ds_state s = D_DESTROY then s else ds_start_op Receive_target s)"

definition do_send_to_target :: "endpoint \<Rightarrow> bytes \<Rightarrow> u16 \<Rightarrow> dtls_session \<Rightarrow> dtls_session" where
  "do_send_to_target target_ep payload session_id s =
     (let s = s\<lparr>ds_target_ep := target_ep\<rparr>;
          s = (if session_id \<noteq> 0
               then s\<lparr>ds_target_to_session := (ds_target_to_session s)(target_ep \<mapsto> session_id)\<rparr> else s)
      in ds_start_op (Send_target payload (ds_target_ep s)) s)"

definition do_resolve_and_send :: "int \<Rightarrow> bytes \<Rightarrow> u16 \<Rightarrow> bytes \<Rightarrow> u16 \<Rightarrow> dtls_session \<Rightarrow> dtls_session" where
  "do_resolve_and_send now domain port payload session_id s =
     (case get_udp (ds_dns s) now (dns_key domain port) of
        Some cached_ep \<Rightarrow> do_send_to_target cached_ep payload session_id s
      | None \<Rightarrow> ds_start_op (Resolve_target domain port payload session_id) s)"

definition start_auth :: "dtls_session \<Rightarrow> dtls_session" where
  "start_auth s = s\<lparr>ds_state := D_AUTH, ds_auth_buf := []\<rparr>"

text \<open>A failing \<open>bind\<close> is only logged.\<close>

definition start_proxy :: "dtls_session \<Rightarrow> dtls_session" where
  "start_proxy s = do_read_target (s\<lparr>ds_state := D_PROXY\<rparr>)"

definition auth_record ::
    "bytes list \<Rightarrow> (bytes \<Rightarrow> bytes) \<Rightarrow> bytes \<Rightarrow> dtls_session \<Rightarrow> dtls_session res" where
  "auth_record allowed sha224 data s =
     (let s = start_auth s;
          s = s\<lparr>ds_auth_buf := ds_auth_buf s @ data\<rparr>
      in case find_str [10] (ds_auth_buf s) of
           None \<Rightarrow> Inr s
         | Some pos \<Rightarrow>
             rbind (substr (ds_auth_buf s) 0 pos) (\<lambda>password_line.
               if hex_digest (sha224 password_line) \<in> set allowed then Inr (start_proxy s)
               else Inr (ds_stop s)))"

definition proxy_record :: "int \<Rightarrow> bytes \<Rightarrow> dtls_session \<Rightarrow> dtls_session res" where
  "proxy_record now data s =
     (if length data < 2 then Inr s
      else rbind (str_at data 0) (\<lambda>b0. rbind (str_at data 1) (\<lambda>b1.
        let session_id = be16 b0 b1 in
        rbind (substr_from data 2) (\<lambda>frame_data.
        rbind (uf_parse new_udp_frame frame_data 0) (\<lambda>(ok, frame, frame_len).
          if \<not> ok then Inr s
          else if uf_addr_type frame = ADDR_DOMAIN then
            Inr (do_resolve_and_send now (uf_address frame) (uf_port frame) (uf_payload frame) session_id s)
          else if uf_addr_type frame = ADDR_IPV4 then
            rbind (v4_of_bytes (uf_address frame)) (\<lambda>ip.
              Inr (do_send_to_target \<lparr>ep_addr = ip, ep_port = uf_port frame\<rparr> (uf_payload frame) session_id s))
          else if uf_addr_type frame = ADDR_IPV6 then
            rbind (v6_of_bytes (uf_address frame)) (\<lambda>ip.
              Inr (do_send_to_target \<lparr>ep_addr = ip, ep_port = uf_port frame\<rparr> (uf_payload frame) session_id s))
          else Inr s)))))"

definition try_read_app_data ::
    "bytes list \<Rightarrow> (bytes \<Rightarrow> bytes) \<Rightarrow> dtls_input \<Rightarrow> dtls_session \<Rightarrow> dtls_session res" where
  "try_read_app_data allowed sha224 inp s =
     (if \<not> ds_ssl s then Inr s
      else case di_read inp of
        Plain data \<Rightarrow>
          if ds_state s = D_AUTH then auth_record allowed sha224 data s
          else if ds_state s = D_PROXY then proxy_record (di_now inp) data s
          else Inr s
      | Read_err e \<Rightarrow> Inr (if e = Zero_return then ds_stop s else s))"

definition process_handshake ::
    "bytes list \<Rightarrow> (bytes \<Rightarrow> bytes) \<Rightarrow> dtls_input \<Rightarrow> dtls_session \<Rightarrow> dtls_session res" where
  "process_handshake allowed sha224 inp s =
     (if \<not> ds_ssl s then Inr s
      else case di_accept inp of
        Accepted \<Rightarrow> try_read_app_data allowed sha224 inp (s\<lparr>ds_state := D_AUTH\<rparr>)
      | Accept_err e \<Rightarrow> Inr (if e = Want_read then s else ds_stop s))"

definition on_datagram ::
    "bytes list \<Rightarrow> (bytes \<Rightarrow> bytes) \<Rightarrow> dtls_input \<Rightarrow> dtls_session \<Rightarrow> dtls_session res" where
  "on_datagram allowed sha224 inp s =
     (if ds_state s = D_DESTROY \<or> \<not> ds_ssl s then Inr s
      else if ds_state s = D_HANDSHAKE then process_handshake allowed sha224 inp s
      else if ds_state s = D_AUTH then try_read_app_data allowed sha224 inp s
      else if ds_state s = D_PROXY then try_read_app_data allowed sha224 inp s
      else Inr s)"

definition send_to_client :: "bool \<Rightarrow> bytes \<Rightarrow> dtls_session \<Rightarrow> dtls_session" where
  "send_to_client write_ok data s =
     (if \<not> ds_ssl s \<or> ds_state s = D_DESTROY then s
      else if write_ok then s\<lparr>ds_sent := ds_sent s @ [data]\<rparr> else s)"

text \<open>The resolver never reports success without results; with none \<open>*results.begin()\<close> would be undefined.\<close>

definition on_resolve_target :: "int \<Rightarrow> bytes \<Rightarrow> u16 \<Rightarrow> bytes \<Rightarrow> u16 \<Rightarrow> dtls_outcome \<Rightarrow> dtls_session \<Rightarrow> dtls_session res" where
  "on_resolve_target now domain port payload session_id c s = (case c of
     Op_results (ep # _) \<Rightarrow>
       Inr (do_send_to_target ep payload session_id
              (s\<lparr>ds_dns := put_udp (ds_dns s) now (dns_key domain port) ep\<rparr>))
   | Op_results [] \<Rightarrow> Inl Oob
   | _ \<Rightarrow> Inr s)"

definition on_receive_target :: "bool \<Rightarrow> dtls_outcome \<Rightarrow> dtls_session \<Rightarrow> dtls_session" where
  "on_receive_target write_ok c s = (case c of
     Op_data sender_ep d \<Rightarrow>
       let session_id = (case ds_target_to_session s sender_ep of Some i \<Rightarrow> i | None \<Rightarrow> 0);
           frame = uf_generate_ep sender_ep d;
           resp = [hi8 session_id] @ [lo8 session_id] @ frame
       in do_read_target (send_to_client write_ok resp s)
   | Op_error e \<Rightarrow> if e \<noteq> Op_aborted then do_read_target s else s
   | _ \<Rightarrow> s)"

fun on_target_op :: "dtls_input \<Rightarrow> dtls_op \<Rightarrow> dtls_outcome \<Rightarrow> dtls_session \<Rightarrow> dtls_session res" where
  "on_target_op inp (Resolve_target domain port payload sid) c s =
     on_resolve_target (di_now inp) domain port payload sid c s"
| "on_target_op inp (Send_target payload ep) c s = Inr s"
| "on_target_op inp Receive_target c s = Inr (on_receive_target (di_write_ok inp) c s)"

fun target_fits :: "dtls_op \<Rightarrow> dtls_outcome \<Rightarrow> bool" where
  "target_fits p (Op_error e) = True"
| "target_fits p Op_done = (case p of Send_target _ _ \<Rightarrow> True | _ \<Rightarrow> False)"
| "target_fits p (Op_results es) = (es \<noteq> [] \<and> (case p of Resolve_target _ _ _ _ \<Rightarrow> True | _ \<Rightarrow> False))"
| "target_fits p (Op_data ep d) = (length d \<le> 65535 \<and> wf_ep ep \<and> p = Receive_target)"

text \<open>\<open>SSL_read\<close> returns between 1 and 65534 bytes.\<close>

definition ssl_fits :: "dtls_input \<Rightarrow> bool" where
  "ssl_fits inp = (case di_read inp of Plain d \<Rightarrow> d \<noteq> [] \<and> length d \<le> 65534 | Read_err _ \<Rightarrow> True)"

text \<open>
  The sessions that can be reached, with what happened so far. Operations are aborted only by \<open>stop\<close>; the
  listener may stop a session at any time, and the shared resolver cache may change between any two steps.
\<close>

datatype dtls_event = Datagram dtls_input | Completed dtls_op dtls_outcome

inductive dtls_reach :: "bytes list \<Rightarrow> (bytes \<Rightarrow> bytes) \<Rightarrow> dtls_session \<Rightarrow> dtls_event list \<Rightarrow> bool"
  for allowed sha224 where
  Init: "dtls_reach allowed sha224 (ds_new client_ep dns) []"
| Recv: "dtls_reach allowed sha224 s tr \<Longrightarrow> ssl_fits inp \<Longrightarrow> on_datagram allowed sha224 inp s = Inr s' \<Longrightarrow>
    dtls_reach allowed sha224 s' (tr @ [Datagram inp])"
| Complete: "dtls_reach allowed sha224 s tr \<Longrightarrow> p \<in> set (ds_pending s) \<Longrightarrow> target_fits p c \<Longrightarrow>
    (c = Op_error Op_aborted \<Longrightarrow> ds_destroyed s) \<Longrightarrow>
    on_target_op inp p c (s\<lparr>ds_pending := remove1 p (ds_pending s)\<rparr>) = Inr s' \<Longrightarrow>
    dtls_reach allowed sha224 s' (tr @ [Completed p c])"
| Stop: "dtls_reach allowed sha224 s tr \<Longrightarrow> dtls_reach allowed sha224 (ds_stop s) tr"
| Dns: "dtls_reach allowed sha224 s tr \<Longrightarrow> dtls_reach allowed sha224 (s\<lparr>ds_dns := dns\<rparr>) tr"

end
