(* ===== verification/DtlsAuth.thy ===== *)
theory DtlsAuth
  imports DtlsServerSession CText
begin

text \<open>
  What holds of the DTLS session in every reachable state: nothing is forwarded before a password line was
  accepted, the target socket has exactly one read outstanding, replies carry the relay's session id, and
  which records make the handler throw.
\<close>

subsection \<open>What the operations change\<close>

named_theorems ds_simps \<open>effect of the session's operations on its fields\<close>

lemma ds_stop_fields [ds_simps]:
  "ds_pending (ds_stop s) = ds_pending s" "ds_sent (ds_stop s) = ds_sent s"
  "ds_target_to_session (ds_stop s) = ds_target_to_session s" "ds_destroyed (ds_stop s)"
  by (simp_all add: ds_stop_def)

lemma do_send_to_target_fields [ds_simps]:
  "ds_state (do_send_to_target ep pl i s) = ds_state s" "ds_ssl (do_send_to_target ep pl i s) = ds_ssl s"
  "ds_destroyed (do_send_to_target ep pl i s) = ds_destroyed s" "ds_sent (do_send_to_target ep pl i s) = ds_sent s"
  "ds_pending (do_send_to_target ep pl i s) = ds_pending s @ [Send_target pl ep]"
  "ds_target_to_session (do_send_to_target ep pl i s) =
     (if i = 0 then ds_target_to_session s else (ds_target_to_session s)(ep \<mapsto> i))"
  by (simp_all add: do_send_to_target_def ds_start_op_def Let_def)

lemma do_resolve_and_send_fields [ds_simps]:
  "ds_state (do_resolve_and_send now d p pl i s) = ds_state s" "ds_ssl (do_resolve_and_send now d p pl i s) = ds_ssl s"
  "ds_destroyed (do_resolve_and_send now d p pl i s) = ds_destroyed s"
  "ds_sent (do_resolve_and_send now d p pl i s) = ds_sent s"
  by (simp_all add: do_resolve_and_send_def ds_start_op_def ds_simps split: option.splits)

lemma do_resolve_and_send_pending:
  "\<exists>p. ds_pending (do_resolve_and_send now d port pl i s) = ds_pending s @ [p] \<and> p \<noteq> Receive_target"
  by (auto simp: do_resolve_and_send_def ds_start_op_def ds_simps split: option.splits)

lemma do_read_target_fields [ds_simps]:
  "ds_state (do_read_target s) = ds_state s" "ds_ssl (do_read_target s) = ds_ssl s"
  "ds_destroyed (do_read_target s) = ds_destroyed s" "ds_sent (do_read_target s) = ds_sent s"
  "ds_pending (do_read_target s) = ds_pending s @ (if ds_state s = D_DESTROY then [] else [Receive_target])"
  "ds_target_to_session (do_read_target s) = ds_target_to_session s"
  by (simp_all add: do_read_target_def ds_start_op_def)

lemma send_to_client_fields [ds_simps]:
  "ds_state (send_to_client ok d s) = ds_state s" "ds_ssl (send_to_client ok d s) = ds_ssl s"
  "ds_destroyed (send_to_client ok d s) = ds_destroyed s" "ds_pending (send_to_client ok d s) = ds_pending s"
  "ds_target_to_session (send_to_client ok d s) = ds_target_to_session s"
  "ds_sent (send_to_client ok d s) =
     ds_sent s @ (if ok \<and> ds_ssl s \<and> ds_state s \<noteq> D_DESTROY then [d] else [])"
  by (simp_all add: send_to_client_def)

text \<open>A record in the proxy phase starts at most one operation, and never a read.\<close>

lemma proxy_record_effect:
  assumes "proxy_record now d s = Inr s'"
  shows "ds_state s' = ds_state s \<and> ds_ssl s' = ds_ssl s \<and> ds_destroyed s' = ds_destroyed s \<and>
    ds_sent s' = ds_sent s \<and> (\<exists>ps. ds_pending s' = ds_pending s @ ps \<and> Receive_target \<notin> set ps)"
proof -
  have "s' = s \<or> (\<exists>ep pl i. s' = do_send_to_target ep pl i s) \<or>
      (\<exists>host p pl i. s' = do_resolve_and_send now host p pl i s)"
    using assms by (auto simp: proxy_record_def Let_def rbind_eq_Inr split: if_splits) blast+
  then show ?thesis
    using do_resolve_and_send_pending by (fastforce simp: ds_simps)
qed

subsection \<open>Authentication\<close>

definition authed :: "bytes list \<Rightarrow> (bytes \<Rightarrow> bytes) \<Rightarrow> dtls_event list \<Rightarrow> bool" where
  "authed allowed sha224 tr \<longleftrightarrow> (\<exists>inp d pos. Datagram inp \<in> set tr \<and> di_read inp = Plain d \<and>
     find_str [10] d = Some pos \<and> hex_digest (sha224 (take pos d)) \<in> set allowed)"

lemma authed_mono: "authed allowed sha224 tr \<Longrightarrow> authed allowed sha224 (tr @ evs)"
  by (auto simp: authed_def)

definition dtls_inv :: "bytes list \<Rightarrow> (bytes \<Rightarrow> bytes) \<Rightarrow> dtls_session \<Rightarrow> dtls_event list \<Rightarrow> bool" where
  "dtls_inv allowed sha224 s tr \<longleftrightarrow>
     (ds_destroyed s \<longleftrightarrow> ds_state s = D_DESTROY) \<and> (ds_ssl s \<longleftrightarrow> \<not> ds_destroyed s) \<and>
     (ds_state s \<in> {D_HANDSHAKE, D_AUTH} \<longrightarrow> ds_pending s = [] \<and> ds_sent s = []) \<and>
     (ds_state s = D_PROXY \<longrightarrow> count_list (ds_pending s) Receive_target = 1) \<and>
     (ds_state s = D_PROXY \<or> ds_pending s \<noteq> [] \<or> ds_sent s \<noteq> [] \<longrightarrow> authed allowed sha224 tr)"

lemma dtls_inv_cong:
  assumes "dtls_inv allowed sha224 s tr" and "authed allowed sha224 tr'"
    and "ds_state s' = ds_state s" and "ds_ssl s' = ds_ssl s" and "ds_destroyed s' = ds_destroyed s"
    and "ds_state s \<in> {D_PROXY, D_DESTROY}"
    and "ds_state s = D_PROXY \<Longrightarrow> count_list (ds_pending s') Receive_target = 1"
  shows "dtls_inv allowed sha224 s' tr'"
  using assms unfolding dtls_inv_def by auto

lemma dtls_inv_stop: "dtls_inv allowed sha224 s tr \<Longrightarrow> dtls_inv allowed sha224 (ds_stop s) tr"
  by (simp add: dtls_inv_def ds_stop_def)

lemma count_list_append_notin: "x \<notin> set ys \<Longrightarrow> count_list (xs @ ys) x = count_list xs x"
  by (simp add: count_list_0_iff)

lemma count_list_remove1:
  "p \<in> set xs \<Longrightarrow> count_list (remove1 p xs) x = count_list xs x - (if p = x then 1 else 0)"
  by (induction xs) (auto simp: count_list_0_iff)

lemma auth_record_inv:
  assumes "dtls_inv allowed sha224 s tr" and "ds_state s \<in> {D_HANDSHAKE, D_AUTH}"
    and "di_read inp = Plain d" and "ds_ssl s" and "auth_record allowed sha224 d (s\<lparr>ds_state := D_AUTH\<rparr>) = Inr s'"
  shows "dtls_inv allowed sha224 s' (tr @ [Datagram inp])"
proof (cases "find_str [10] d")
  case None
  then have "s' = s\<lparr>ds_state := D_AUTH, ds_auth_buf := d\<rparr>"
    using assms(5) by (simp add: auth_record_def start_auth_def)
  then show ?thesis
    using assms(1,2) by (auto simp: dtls_inv_def)
next
  case (Some pos)
  let ?s = "s\<lparr>ds_state := D_AUTH, ds_auth_buf := d\<rparr>"
  have run: "s' = (if hex_digest (sha224 (take pos d)) \<in> set allowed then start_proxy ?s else ds_stop ?s)"
    using assms(5) Some by (auto simp: auth_record_def start_auth_def)
  show ?thesis
  proof (cases "hex_digest (sha224 (take pos d)) \<in> set allowed")
    case True
    then have "authed allowed sha224 (tr @ [Datagram inp])"
      using assms(3) Some by (auto simp: authed_def)
    then show ?thesis
      using assms(1,2,4) True by (auto simp: run dtls_inv_def start_proxy_def ds_simps)
  next
    case False
    then show ?thesis
      using assms(1,2) by (auto simp: run dtls_inv_def ds_stop_def)
  qed
qed

lemma try_read_inv:
  assumes "dtls_inv allowed sha224 s tr" and "ds_state s \<in> {D_HANDSHAKE, D_AUTH, D_PROXY}"
    and "try_read_app_data allowed sha224 inp (if ds_state s = D_HANDSHAKE then s\<lparr>ds_state := D_AUTH\<rparr> else s) = Inr s'"
  shows "dtls_inv allowed sha224 s' (tr @ [Datagram inp])"
proof -
  have ssl: "ds_ssl s"
    using assms(1,2) by (auto simp: dtls_inv_def)
  note mono = authed_mono [of allowed sha224 tr "[Datagram inp]"]
  show ?thesis
  proof (cases "di_read inp")
    case (Plain d)
    show ?thesis
    proof (cases "ds_state s = D_PROXY")
      case True
      then have "proxy_record (di_now inp) d s = Inr s'"
        using assms(3) ssl Plain by (simp add: try_read_app_data_def)
      from proxy_record_effect [OF this] show ?thesis
        using assms(1) True mono by (auto simp: dtls_inv_def count_list_append_notin)
    next
      case False
      then have hs: "ds_state s \<in> {D_HANDSHAKE, D_AUTH}"
        using assms(2) by auto
      have same: "s\<lparr>ds_state := D_AUTH\<rparr> = s" if "ds_state s = D_AUTH"
        using that by simp
      have "auth_record allowed sha224 d (s\<lparr>ds_state := D_AUTH\<rparr>) = Inr s'"
        using assms(3) ssl Plain hs
        by (cases "ds_state s = D_AUTH") (simp_all add: try_read_app_data_def same)
      then show ?thesis
        using auth_record_inv [OF assms(1) hs Plain ssl] by blast
    qed
  next
    case (Read_err e)
    define s1 where "s1 = (if ds_state s = D_HANDSHAKE then s\<lparr>ds_state := D_AUTH\<rparr> else s)"
    have "dtls_inv allowed sha224 s1 (tr @ [Datagram inp])" "ds_ssl s1"
      using assms(1) mono ssl
      by (cases "ds_state s"; auto simp: dtls_inv_def s1_def)+
    moreover have "s' = (if e = Zero_return then ds_stop s1 else s1)"
      using assms(3) calculation(2) Read_err unfolding s1_def [symmetric] by (simp add: try_read_app_data_def)
    ultimately show ?thesis
      by (simp add: dtls_inv_stop)
  qed
qed

lemma on_datagram_inv:
  assumes "dtls_inv allowed sha224 s tr" and "on_datagram allowed sha224 inp s = Inr s'"
  shows "dtls_inv allowed sha224 s' (tr @ [Datagram inp])"
proof -
  note mono = authed_mono [of allowed sha224 tr "[Datagram inp]"]
  have keep: "dtls_inv allowed sha224 s (tr @ [Datagram inp])"
    using assms(1) mono by (auto simp: dtls_inv_def)
  show ?thesis
  proof (cases "ds_state s")
    case D_HANDSHAKE
    then show ?thesis
      using assms keep try_read_inv [OF assms(1), of inp s'] dtls_inv_stop [OF keep]
      by (auto simp: on_datagram_def process_handshake_def split: ssl_accept.splits if_splits)
  next
    case D_AUTH
    then show ?thesis
      using assms keep try_read_inv [OF assms(1), of inp s'] by (auto simp: on_datagram_def split: if_splits)
  next
    case D_PROXY
    then show ?thesis
      using assms keep try_read_inv [OF assms(1), of inp s'] by (auto simp: on_datagram_def split: if_splits)
  next
    case D_DESTROY
    then show ?thesis
      using assms keep by (simp add: on_datagram_def)
  qed
qed

lemma on_target_op_inv:
  assumes "dtls_inv allowed sha224 s tr" and "p \<in> set (ds_pending s)" and "target_fits p c"
    and "c = Op_error Op_aborted \<Longrightarrow> ds_destroyed s"
    and "on_target_op inp p c (s\<lparr>ds_pending := remove1 p (ds_pending s)\<rparr>) = Inr s'"
  shows "dtls_inv allowed sha224 s' (tr @ [Completed p c])"
proof -
  let ?s = "s\<lparr>ds_pending := remove1 p (ds_pending s)\<rparr>"
  have au: "authed allowed sha224 (tr @ [Completed p c])"
    using assms(1,2) authed_mono by (auto simp: dtls_inv_def)
  have st: "ds_state s \<in> {D_PROXY, D_DESTROY}"
    using assms(1,2) by (cases "ds_state s") (auto simp: dtls_inv_def)
  have cnt: "count_list (remove1 p (ds_pending s)) Receive_target =
      count_list (ds_pending s) Receive_target - (if p = Receive_target then 1 else 0)"
    by (rule count_list_remove1) (fact assms(2))
  have inv1: "ds_state s = D_PROXY \<Longrightarrow> count_list (ds_pending s) Receive_target = 1"
    and inv0: "ds_destroyed s \<longleftrightarrow> ds_state s = D_DESTROY"
    using assms(1) by (simp_all add: dtls_inv_def)
  consider (Send) "s' = ?s" "p \<noteq> Receive_target"
    | (Resolved) ep pl i where "p \<noteq> Receive_target"
      "\<exists>dns. s' = do_send_to_target ep pl i (?s\<lparr>ds_dns := dns\<rparr>)"
    | (Received) "p = Receive_target" "s' = on_receive_target (di_write_ok inp) c ?s"
  proof (cases p)
    case (Resolve_target host port pl i)
    show thesis
    proof (cases c)
      case (Op_results es)
      then obtain ep es' where "es = ep # es'"
        using assms(3) by (cases es) auto
      then show thesis
        using assms(5) Resolve_target Op_results by (intro Resolved) (auto simp: on_resolve_target_def)
    qed (use assms(5) Resolve_target in \<open>auto intro!: Send simp: on_resolve_target_def\<close>)
  qed (use assms(5) in \<open>auto intro: Send Received\<close>)
  then show ?thesis
  proof cases
    case Send
    then show ?thesis
      using inv1 cnt by (intro dtls_inv_cong [OF assms(1) au _ _ _ st]) simp_all
  next
    case (Resolved ep pl i)
    then obtain dns where s': "s' = do_send_to_target ep pl i (?s\<lparr>ds_dns := dns\<rparr>)"
      by blast
    show ?thesis
      unfolding s' using inv1 cnt Resolved(1)
      by (intro dtls_inv_cong [OF assms(1) au _ _ _ st]) (simp_all add: ds_simps)
  next
    case Received
    have "count_list (ds_pending s') Receive_target = 1" if "ds_state s = D_PROXY"
    proof -
      have "c \<noteq> Op_error Op_aborted"
        using that assms(4) inv0 by auto
      then show ?thesis
        using that inv1 cnt Received assms(3)
        by (cases c) (auto simp: on_receive_target_def ds_simps Let_def)
    qed
    moreover have "ds_state s' = ds_state s" "ds_ssl s' = ds_ssl s" "ds_destroyed s' = ds_destroyed s"
      unfolding Received(2) by (cases c; simp add: on_receive_target_def ds_simps Let_def)+
    ultimately show ?thesis
      by (intro dtls_inv_cong [OF assms(1) au _ _ _ st])
  qed
qed

lemma dtls_reach_inv: "dtls_reach allowed sha224 s tr \<Longrightarrow> dtls_inv allowed sha224 s tr"
proof (induction rule: dtls_reach.induct)
  case (Init client_ep dns)
  then show ?case
    by (simp add: dtls_inv_def ds_new_def)
next
  case (Recv s tr inp s')
  then show ?case
    using on_datagram_inv by blast
next
  case (Complete s tr p c inp s')
  then show ?case
    using on_target_op_inv by blast
next
  case (Stop s tr)
  then show ?case
    by (simp add: dtls_inv_stop)
next
  case (Dns s tr dns)
  then show ?case
    by (simp add: dtls_inv_def)
qed

lemma dtls_completed_authed:
  "dtls_reach allowed sha224 s tr \<Longrightarrow> Completed p c \<in> set tr \<Longrightarrow> authed allowed sha224 tr"
proof (induction arbitrary: p c rule: dtls_reach.induct)
  case (Recv s tr inp s')
  then show ?case
    using authed_mono by auto
next
  case (Complete s tr q e inp s')
  then have "authed allowed sha224 tr"
    using dtls_reach_inv [OF Complete.hyps(1)] by (auto simp: dtls_inv_def)
  then show ?case
    by (rule authed_mono)
qed simp_all

text \<open>C9: over DTLS too, authentication comes first. In every reachable session, if it is proxying, has an
  operation towards a target outstanding, ever completed one, or ever wrote a record to the client, then the
  client sent a record with a password line whose SHA-224 hash is one of the configured ones.\<close>

theorem dtls_no_proxy_before_auth:
  assumes "dtls_reach allowed sha224 s tr"
    and "ds_state s = D_PROXY \<or> ds_pending s \<noteq> [] \<or> ds_sent s \<noteq> [] \<or> (\<exists>p c. Completed p c \<in> set tr)"
  shows "\<exists>inp d pos. Datagram inp \<in> set tr \<and> di_read inp = Plain d \<and> find_str [10] d = Some pos \<and>
    hex_digest (sha224 (take pos d)) \<in> set allowed"
  using dtls_reach_inv [OF assms(1)] dtls_completed_authed [OF assms(1)] assms(2)
  unfolding dtls_inv_def authed_def by blast

text \<open>A session that shook hands and sent its password line \<open>pw\<close>, for use in witnesses; the hash is the text
  itself here.\<close>

definition ex_auth_input :: dtls_input where
  "ex_auth_input = \<lparr>di_accept = Accepted, di_read = Plain [112, 119, 10], di_write_ok = True, di_now = 0\<rparr>"

definition ex_proxy :: dtls_session where
  "ex_proxy = (ds_new default_endpoint new_dns_cache)
     \<lparr>ds_state := D_PROXY, ds_auth_buf := [112, 119, 10], ds_pending := [Receive_target]\<rparr>"

lemma ex_proxy_step:
  "on_datagram [hex_digest [112, 119]] (\<lambda>p. p) ex_auth_input (ds_new default_endpoint new_dns_cache) = Inr ex_proxy"
  by (simp add: on_datagram_def process_handshake_def try_read_app_data_def auth_record_def start_auth_def
      start_proxy_def do_read_target_def ds_start_op_def ex_proxy_def ex_auth_input_def ds_new_def)

lemma ex_proxy_reach: "dtls_reach [hex_digest [112, 119]] (\<lambda>p. p) ex_proxy [Datagram ex_auth_input]"
  using Recv [OF Init, of ex_auth_input] ex_proxy_step by (simp add: ssl_fits_def ex_auth_input_def)

theorem dtls_no_proxy_before_auth_witness:
  "\<exists>inp d pos. Datagram inp \<in> set [Datagram ex_auth_input] \<and> di_read inp = Plain d \<and> find_str [10] d = Some pos \<and>
    hex_digest (take pos d) \<in> set [hex_digest [112, 119]]"
  using dtls_no_proxy_before_auth [OF ex_proxy_reach] by (simp add: ex_proxy_def)

text \<open>C32: the target socket is read without pause and without overlap: in every reachable proxying session the
  TLS object is alive and exactly one receive on the target socket is outstanding.\<close>

theorem dtls_receives_once:
  assumes "dtls_reach allowed sha224 s tr" and "ds_state s = D_PROXY"
  shows "ds_ssl s \<and> count_list (ds_pending s) Receive_target = 1"
  using dtls_reach_inv [OF assms(1)] assms(2) by (simp add: dtls_inv_def)

theorem dtls_receives_once_witness:
  "ds_ssl ex_proxy \<and> count_list (ds_pending ex_proxy) Receive_target = 1"
  using dtls_receives_once [OF ex_proxy_reach] by (simp add: ex_proxy_def)

subsection \<open>A password line over two records\<close>



subsection \<open>Faults\<close>

lemma auth_record_no_fault: "auth_record allowed sha224 d s \<noteq> Inl e"
  by (auto simp: auth_record_def Let_def substr_def split: option.splits)

lemma rbind_eq_Inl: "rbind m f = Inl e \<longleftrightarrow> m = Inl e \<or> (\<exists>x. m = Inr x \<and> f x = Inl e)"
  by (cases m) auto

lemma uf_parse_ip_bytes:
  assumes "uf_parse f b n = Inr (True, g, k)"
  shows "uf_addr_type g = ADDR_IPV4 \<Longrightarrow> \<exists>a. v4_of_bytes (uf_address g) = Inr a"
    and "uf_addr_type g = ADDR_IPV6 \<Longrightarrow> \<exists>a. v6_of_bytes (uf_address g) = Inr a"
proof -
  have ep: "\<exists>ep. wf_ep ep \<and> uf_address g = addr_bytes (ep_addr ep) \<and>
      uf_addr_type g = (if is_v4 (ep_addr ep) then ADDR_IPV4 else ADDR_IPV6)"
    if "uf_addr_type g \<noteq> ADDR_DOMAIN"
    using uf_parse_accepted [OF assms that] by blast
  show "\<exists>a. v4_of_bytes (uf_address g) = Inr a" if ty: "uf_addr_type g = ADDR_IPV4"
  proof -
    have "uf_addr_type g \<noteq> ADDR_DOMAIN"
      using ty by (simp add: uf_consts)
    from ep [OF this] obtain ep :: endpoint where "uf_address g = addr_bytes (ep_addr ep)"
      "uf_addr_type g = (if is_v4 (ep_addr ep) then ADDR_IPV4 else ADDR_IPV6)"
      by blast
    then show ?thesis
      using ty by (cases "ep_addr ep") (auto simp: uf_consts)
  qed
  show "\<exists>a. v6_of_bytes (uf_address g) = Inr a" if ty: "uf_addr_type g = ADDR_IPV6"
  proof -
    have "uf_addr_type g \<noteq> ADDR_DOMAIN"
      using ty by (simp add: uf_consts)
    from ep [OF this] obtain ep where "wf_ep ep" "uf_address g = addr_bytes (ep_addr ep)"
      "uf_addr_type g = (if is_v4 (ep_addr ep) then ADDR_IPV4 else ADDR_IPV6)"
      by blast
    then show ?thesis
      using ty by (cases "ep_addr ep") (auto simp: uf_consts wf_ep_def)
  qed
qed

lemma proxy_record_fault:
  "proxy_record now d s = Inl e \<longleftrightarrow> 2 \<le> length d \<and> uf_parse new_udp_frame (drop 2 d) 0 = Inl e"
proof (cases "2 \<le> length d")
  case True
  then have "0 < length d" "1 < length d"
    by linarith+
  then have rd: "str_at d 0 = Inr (d ! 0)" "str_at d 1 = Inr (d ! 1)" "substr_from d 2 = Inr (drop 2 d)"
    using True by (simp_all only: str_at_in substr_from_in)
  show ?thesis
  proof (cases "uf_parse new_udp_frame (drop 2 d) 0")
    case (Inl a)
    then show ?thesis
      using True rd by (simp add: proxy_record_def)
  next
    case (Inr r)
    obtain ok g k where r: "r = (ok, g, k)"
      by (cases r)
    show ?thesis
      using True rd Inr r uf_parse_ip_bytes [of new_udp_frame "drop 2 d" 0 g k]
      by (auto simp: proxy_record_def Let_def)
  qed
qed (simp add: proxy_record_def)

text \<open>The only exception the handler of a datagram can let escape is the length_error of the frame parser,
  on a record of an authenticated client; and the frame the client generates for a datagram without payload
  to a domain is such a record.\<close>

theorem dtls_faults:
  assumes "length host < 256" and "ds_state p = D_PROXY" and "ds_ssl p"
    and "di_read inp' = Plain ([hi8 i, lo8 i] @ uf_generate_domain host port [])"
  shows "(on_datagram allowed sha224 inp s = Inl e \<longrightarrow>
      e = Length_error \<and> ds_state s = D_PROXY \<and> (\<exists>d. di_read inp = Plain d \<and> 2 \<le> length d)) \<and>
    on_datagram allowed sha224 inp' p = Inl Length_error"
proof -
  have "e = Length_error \<and> ds_state s = D_PROXY \<and> (\<exists>d. di_read inp = Plain d \<and> 2 \<le> length d)"
    if "on_datagram allowed sha224 inp s = Inl e"
    using that auth_record_no_fault
    by (cases "ds_state s")
       (auto simp: on_datagram_def process_handshake_def try_read_app_data_def proxy_record_fault uf_parse_fault_iff
         split: if_splits ssl_accept.splits ssl_read.splits)
  moreover have "length (uf_generate_domain host port []) < 2 ^ 16"
    using assms(1) by (simp add: uf_generate_domain_shape Let_def)
  then have "uf_parse new_udp_frame (uf_generate_domain host port []) 0 = Inl Length_error"
    using uf_parse_generated_domain [OF assms(1), of port "[]" new_udp_frame "[]" 0] by simp
  then have "on_datagram allowed sha224 inp' p = Inl Length_error"
    using assms(2-4) by (simp add: on_datagram_def try_read_app_data_def proxy_record_fault)
  ultimately show ?thesis
    by blast
qed

theorem dtls_faults_witness:
  "on_datagram [] (\<lambda>p. p) (ex_auth_input\<lparr>di_read := Plain ([hi8 7, lo8 7] @ uf_generate_domain [97] 53 [])\<rparr>) ex_proxy =
     Inl Length_error"
proof -
  have st: "ds_state ex_proxy = D_PROXY" "ds_ssl ex_proxy"
    by (simp_all add: ex_proxy_def ds_new_def)
  have rd: "di_read (ex_auth_input\<lparr>di_read := Plain ([hi8 7, lo8 7] @ uf_generate_domain [97] 53 [])\<rparr>) =
      Plain ([hi8 7, lo8 7] @ uf_generate_domain [97] 53 [])"
    by simp
  have len: "length [97 :: byte] < 256"
    by simp
  show ?thesis
    by (rule conjunct2 [OF dtls_faults [OF len st rd]])
qed

subsection \<open>Routing of replies\<close>

text \<open>The session id of the last datagram that was sent to the endpoint with a session id.\<close>

fun last_sid :: "(endpoint \<times> bytes \<times> u16) list \<Rightarrow> endpoint \<Rightarrow> u16 option \<Rightarrow> u16 option" where
  "last_sid [] ep r = r"
| "last_sid ((target, payload, i) # xs) ep r = last_sid xs ep (if target = ep \<and> i \<noteq> 0 then Some i else r)"

fun send_all :: "(endpoint \<times> bytes \<times> u16) list \<Rightarrow> dtls_session \<Rightarrow> dtls_session" where
  "send_all [] s = s"
| "send_all ((target, payload, i) # xs) s = send_all xs (do_send_to_target target payload i s)"

lemma send_all_fields:
  "ds_target_to_session (send_all xs s) ep = last_sid xs ep (ds_target_to_session s ep) \<and>
   ds_ssl (send_all xs s) = ds_ssl s \<and> ds_state (send_all xs s) = ds_state s \<and> ds_sent (send_all xs s) = ds_sent s"
  by (induction xs s rule: send_all.induct) (auto simp: ds_simps)

text \<open>Replies find their relay. After any sequence of datagrams forwarded for any relays, a datagram that
  arrives from a target is written to the client as one record that carries the session id of the last
  relay that sent to this target (0 when there is none) and a frame with the sender and the payload, and the
  next receive is started.\<close>

theorem dtls_reply_routing:
  assumes "ds_state s = D_PROXY" and "ds_ssl s" and "ds_target_to_session s = Map.empty"
    and "i = (case last_sid xs ep None of Some i \<Rightarrow> i | None \<Rightarrow> 0)"
  shows "ds_sent (on_receive_target True (Op_data ep d) (send_all xs s)) =
      ds_sent s @ [[hi8 i, lo8 i] @ uf_generate_ep ep d] \<and>
    last (ds_pending (on_receive_target True (Op_data ep d) (send_all xs s))) = Receive_target"
  using assms send_all_fields [of xs s ep]
  by (simp add: on_receive_target_def ds_simps Let_def)

theorem dtls_reply_routing_witness:
  "ds_sent (on_receive_target True (Op_data default_endpoint [1])
      (send_all [(default_endpoint, [8], 5), (default_endpoint, [9], 7)] ex_proxy)) =
    [[hi8 7, lo8 7] @ uf_generate_ep default_endpoint [1]]"
  using dtls_reply_routing [of ex_proxy 7 "[(default_endpoint, [8], 5), (default_endpoint, [9], 7)]" default_endpoint "[1]"]
  by (simp add: ex_proxy_def ds_new_def)

end
