(* ===== verification/DtlsListener.thy ===== *)
theory DtlsListener
  imports DtlsAuth
begin

text \<open>
  \<^verbatim>\<open>Server/DtlsListener.{h,cpp}\<close>: one UDP socket that serves all DTLS clients, with a session per client
  endpoint. A session in the map whose \<open>stop\<close> ran has called \<open>remove_session\<close>; the handler below removes the
  entry when the call it made left the session destroyed. What OpenSSL and the resolver return during
  construction are inputs.
\<close>

subsection \<open>Model\<close>

record dtls_listener =
  dl_ctx :: bool
  dl_socket_open :: bool
  dl_receiving :: bool
  dl_sessions :: "endpoint \<Rightarrow> dtls_session option"

record listener_input =
  li_ctx_ok :: bool
  li_cert_ok :: bool
  li_key_ok :: bool
  li_check_ok :: bool
  li_resolved :: "endpoint list res"

definition dl_new :: "listener_input \<Rightarrow> dtls_listener res" where
  "dl_new inp =
     (let l = \<lparr>dl_ctx = li_ctx_ok inp, dl_socket_open = False, dl_receiving = False, dl_sessions = Map.empty\<rparr> in
      if \<not> li_ctx_ok inp then Inr l
      else if \<not> li_cert_ok inp then Inr l
      else if \<not> li_key_ok inp then Inr l
      else if \<not> li_check_ok inp then Inr l
      else rbind (li_resolved inp) (\<lambda>eps. case eps of
             [] \<Rightarrow> Inl Oob
           | endpoint # _ \<Rightarrow> Inr (l\<lparr>dl_socket_open := True\<rparr>)))"

definition dl_do_receive :: "dtls_listener \<Rightarrow> dtls_listener" where
  "dl_do_receive l = l\<lparr>dl_receiving := True\<rparr>"

definition dl_start :: "dtls_listener \<Rightarrow> dtls_listener" where
  "dl_start l = dl_do_receive l"

definition dl_stop :: "dtls_listener \<Rightarrow> dtls_listener" where
  "dl_stop l = l\<lparr>dl_socket_open := False, dl_sessions := Map.empty, dl_ctx := False\<rparr>"

definition remove_session :: "endpoint \<Rightarrow> dtls_listener \<Rightarrow> dtls_listener" where
  "remove_session ep l = l\<lparr>dl_sessions := (dl_sessions l)(ep := None)\<rparr>"

text \<open>\<open>session->on_datagram(\<dots>)\<close> on an entry of the map, with the callback.\<close>

definition deliver ::
    "bytes list \<Rightarrow> (bytes \<Rightarrow> bytes) \<Rightarrow> dtls_input \<Rightarrow> endpoint \<Rightarrow> dtls_session \<Rightarrow> dtls_listener \<Rightarrow> dtls_listener res" where
  "deliver allowed sha224 inp ep session l =
     rbind (on_datagram allowed sha224 inp session) (\<lambda>s.
       let l = l\<lparr>dl_sessions := (dl_sessions l)(ep \<mapsto> s)\<rparr>
       in Inr (if ds_destroyed s then remove_session (ds_client_ep s) l else l))"

definition dl_on_receive ::
    "bytes list \<Rightarrow> (bytes \<Rightarrow> bytes) \<Rightarrow> dns_cache \<Rightarrow> dtls_input \<Rightarrow> dtls_outcome \<Rightarrow> dtls_listener \<Rightarrow> dtls_listener res" where
  "dl_on_receive allowed sha224 dns inp c l = (case c of
     Op_data sender_ep d \<Rightarrow>
       rbind (case dl_sessions l sender_ep of
                Some session \<Rightarrow> deliver allowed sha224 inp sender_ep session l
              | None \<Rightarrow> deliver allowed sha224 inp sender_ep (ds_new sender_ep dns)
                  (l\<lparr>dl_sessions := (dl_sessions l)(sender_ep \<mapsto> ds_new sender_ep dns)\<rparr>)) (\<lambda>l.
       Inr (dl_do_receive l))
   | Op_error e \<Rightarrow> Inr (if e \<noteq> Op_aborted then dl_do_receive l else l)
   | _ \<Rightarrow> Inr l)"

text \<open>
  The listeners that can be reached: datagrams from any sender in any order, completions of the sessions'
  own operations, changes of the shared resolver cache, and \<open>stop\<close>.
\<close>

inductive listener_reach :: "bytes list \<Rightarrow> (bytes \<Rightarrow> bytes) \<Rightarrow> dtls_listener \<Rightarrow> bool" for allowed sha224 where
  Create: "dl_new li = Inr l \<Longrightarrow> listener_reach allowed sha224 (dl_start l)"
| Receive: "listener_reach allowed sha224 l \<Longrightarrow> dl_receiving l \<Longrightarrow> ssl_fits inp \<Longrightarrow>
    dl_on_receive allowed sha224 dns inp c (l\<lparr>dl_receiving := False\<rparr>) = Inr l' \<Longrightarrow> listener_reach allowed sha224 l'"
| Target: "listener_reach allowed sha224 l \<Longrightarrow> dl_sessions l ep = Some s \<Longrightarrow> p \<in> set (ds_pending s) \<Longrightarrow>
    target_fits p c \<Longrightarrow> c \<noteq> Op_error Op_aborted \<Longrightarrow>
    on_target_op inp p c (s\<lparr>ds_pending := remove1 p (ds_pending s)\<rparr>) = Inr s' \<Longrightarrow>
    listener_reach allowed sha224 (l\<lparr>dl_sessions := (dl_sessions l)(ep \<mapsto> s')\<rparr>)"
| Cache: "listener_reach allowed sha224 l \<Longrightarrow> dl_sessions l ep = Some s \<Longrightarrow>
    listener_reach allowed sha224 (l\<lparr>dl_sessions := (dl_sessions l)(ep \<mapsto> s\<lparr>ds_dns := dns\<rparr>)\<rparr>)"
| Stopped: "listener_reach allowed sha224 l \<Longrightarrow> listener_reach allowed sha224 (dl_stop l)"

subsection \<open>A session keeps its client\<close>

lemma do_send_to_target_client [ds_simps]: "ds_client_ep (do_send_to_target ep pl i s) = ds_client_ep s"
  by (simp add: do_send_to_target_def ds_start_op_def Let_def)

lemma do_resolve_and_send_client [ds_simps]: "ds_client_ep (do_resolve_and_send now d p pl i s) = ds_client_ep s"
  by (simp add: do_resolve_and_send_def ds_start_op_def ds_simps split: option.splits)

lemma other_client [ds_simps]:
  "ds_client_ep (ds_stop s) = ds_client_ep s" "ds_client_ep (do_read_target s) = ds_client_ep s"
  "ds_client_ep (send_to_client ok d s) = ds_client_ep s"
  by (simp_all add: ds_stop_def do_read_target_def ds_start_op_def send_to_client_def)

lemma proxy_record_client: "proxy_record now d s = Inr s' \<Longrightarrow> ds_client_ep s' = ds_client_ep s"
  by (auto simp: proxy_record_def Let_def rbind_eq_Inr ds_simps split: if_splits)

lemma auth_record_client: "auth_record allowed sha224 d s = Inr s' \<Longrightarrow> ds_client_ep s' = ds_client_ep s"
  by (auto simp: auth_record_def start_auth_def start_proxy_def Let_def rbind_eq_Inr ds_simps
      split: option.splits if_splits)

lemma try_read_client:
  "try_read_app_data allowed sha224 inp s = Inr s' \<Longrightarrow> ds_client_ep s' = ds_client_ep s"
  by (auto simp: try_read_app_data_def ds_simps dest: proxy_record_client auth_record_client
      split: if_splits ssl_read.splits)

lemma on_datagram_client: "on_datagram allowed sha224 inp s = Inr s' \<Longrightarrow> ds_client_ep s' = ds_client_ep s"
  by (auto simp: on_datagram_def process_handshake_def ds_simps dest!: try_read_client
      split: if_splits ssl_accept.splits)

lemma on_target_op_client: "on_target_op inp p c s = Inr s' \<Longrightarrow> ds_client_ep s' = ds_client_ep s"
  by (cases p) (auto simp: on_resolve_target_def on_receive_target_def ds_simps Let_def
      split: dtls_outcome.splits list.splits if_splits)

lemma on_target_op_alive: "on_target_op inp p c s = Inr s' \<Longrightarrow> ds_destroyed s' = ds_destroyed s"
  by (cases p) (auto simp: on_resolve_target_def on_receive_target_def ds_simps Let_def
      split: dtls_outcome.splits list.splits if_splits)

subsection \<open>The session table\<close>

definition table_ok :: "bytes list \<Rightarrow> (bytes \<Rightarrow> bytes) \<Rightarrow> dtls_listener \<Rightarrow> bool" where
  "table_ok allowed sha224 l \<longleftrightarrow> (\<forall>ep s. dl_sessions l ep = Some s \<longrightarrow>
     ds_client_ep s = ep \<and> \<not> ds_destroyed s \<and> (\<exists>tr. dtls_reach allowed sha224 s tr))"

lemma table_okD:
  assumes "table_ok allowed sha224 l" and "dl_sessions l ep = Some s"
  obtains tr where "ds_client_ep s = ep" "\<not> ds_destroyed s" "dtls_reach allowed sha224 s tr"
  using assms by (auto simp: table_ok_def)

lemma deliver_effect:
  assumes "deliver allowed sha224 inp ep s l = Inr l'" and "ds_client_ep s = ep"
  shows "\<exists>s'. on_datagram allowed sha224 inp s = Inr s' \<and> ds_client_ep s' = ep \<and>
    dl_sessions l' = (dl_sessions l)(ep := if ds_destroyed s' then None else Some s')"
proof -
  obtain s' where s': "on_datagram allowed sha224 inp s = Inr s'"
    using assms(1) by (auto simp: deliver_def rbind_eq_Inr)
  then have "ds_client_ep s' = ep"
    using on_datagram_client assms(2) by simp
  then show ?thesis
    using assms(1) s' by (auto simp: deliver_def remove_session_def Let_def)
qed

lemma on_receive_data_effect:
  assumes "table_ok allowed sha224 l" and "dl_on_receive allowed sha224 dns inp (Op_data ep d) l = Inr l'"
  shows "\<exists>s s'. s = (case dl_sessions l ep of Some s \<Rightarrow> s | None \<Rightarrow> ds_new ep dns) \<and>
    on_datagram allowed sha224 inp s = Inr s' \<and> ds_client_ep s' = ep \<and>
    dl_sessions l' = (dl_sessions l)(ep := if ds_destroyed s' then None else Some s')"
proof (cases "dl_sessions l ep")
  case None
  let ?s = "ds_new ep dns" and ?l = "l\<lparr>dl_sessions := (dl_sessions l)(ep \<mapsto> ds_new ep dns)\<rparr>"
  obtain l1 where l1: "deliver allowed sha224 inp ep ?s ?l = Inr l1" "l' = dl_do_receive l1"
    using assms(2) None by (auto simp: dl_on_receive_def rbind_eq_Inr)
  have "ds_client_ep ?s = ep"
    by (simp add: ds_new_def)
  from deliver_effect [OF l1(1) this] show ?thesis
    using None l1(2) by (auto simp: dl_do_receive_def)
next
  case (Some s)
  obtain l1 where l1: "deliver allowed sha224 inp ep s l = Inr l1" "l' = dl_do_receive l1"
    using assms(2) Some by (auto simp: dl_on_receive_def rbind_eq_Inr)
  have "ds_client_ep s = ep"
    using assms(1) Some by (rule table_okD)
  from deliver_effect [OF l1(1) this] show ?thesis
    using Some l1(2) by (auto simp: dl_do_receive_def)
qed

lemma table_ok_receive:
  assumes "table_ok allowed sha224 l" and "ssl_fits inp" and "dl_on_receive allowed sha224 dns inp c l = Inr l'"
  shows "table_ok allowed sha224 l'"
proof (cases c)
  case (Op_data ep d)
  obtain s s' where s: "s = (case dl_sessions l ep of Some s \<Rightarrow> s | None \<Rightarrow> ds_new ep dns)"
    "on_datagram allowed sha224 inp s = Inr s'" "ds_client_ep s' = ep"
    "dl_sessions l' = (dl_sessions l)(ep := if ds_destroyed s' then None else Some s')"
    using on_receive_data_effect [OF assms(1) assms(3) [unfolded Op_data]] by blast
  have "\<exists>tr. dtls_reach allowed sha224 s tr"
    using s(1) assms(1) by (cases "dl_sessions l ep") (auto intro: dtls_reach.Init elim: table_okD)
  then have "\<exists>tr. dtls_reach allowed sha224 s' tr"
    using dtls_reach.Recv [OF _ assms(2) s(2)] by blast
  then show ?thesis
    using assms(1) s(3,4) by (auto simp: table_ok_def)
qed (use assms in \<open>auto simp: dl_on_receive_def dl_do_receive_def table_ok_def split: if_splits\<close>)

lemma dl_new_empty: "dl_new li = Inr l \<Longrightarrow> dl_sessions l = Map.empty"
  by (cases "li_resolved li") (auto simp: dl_new_def Let_def split: if_splits list.splits)

lemma listener_reach_ok: "listener_reach allowed sha224 l \<Longrightarrow> table_ok allowed sha224 l"
proof (induction rule: listener_reach.induct)
  case (Create li l)
  then show ?case
    using dl_new_empty by (simp add: table_ok_def dl_start_def dl_do_receive_def)
next
  case (Receive l inp dns c l')
  have "table_ok allowed sha224 (l\<lparr>dl_receiving := False\<rparr>)"
    using Receive.IH by (simp add: table_ok_def)
  then show ?case
    using table_ok_receive Receive.hyps(3,4) by blast
next
  case (Target l ep s p c inp s')
  obtain tr where s: "ds_client_ep s = ep" "\<not> ds_destroyed s" "dtls_reach allowed sha224 s tr"
    using Target.IH Target.hyps(2) by (rule table_okD)
  have r: "dtls_reach allowed sha224 s' (tr @ [Completed p c])"
    using dtls_reach.Complete [OF s(3) Target.hyps(3,4) _ Target.hyps(6)] Target.hyps(5) by blast
  moreover have "ds_client_ep s' = ep" "\<not> ds_destroyed s'"
    using on_target_op_client [OF Target.hyps(6)] on_target_op_alive [OF Target.hyps(6)] s by simp_all
  ultimately show ?case
    using Target.IH by (auto simp: table_ok_def)
next
  case (Cache l ep s dns)
  obtain tr where s: "ds_client_ep s = ep" "\<not> ds_destroyed s" "dtls_reach allowed sha224 s tr"
    using Cache.IH Cache.hyps(2) by (rule table_okD)
  then show ?case
    using Cache.IH dtls_reach.Dns [OF s(3)] by (auto simp: table_ok_def)
next
  case (Stopped l)
  then show ?case
    by (simp add: dl_stop_def table_ok_def)
qed

text \<open>C16: clients of the DTLS port are kept apart. In every reachable listener each entry of the table is the
  live session of its own endpoint and a reachable session, so it proxies only after that client's own
  password was accepted; a datagram touches the entry of its sender only, an entry whose session was
  destroyed is gone, and the socket is read again.\<close>

theorem listener_isolates_clients:
  assumes "listener_reach allowed sha224 l" and "dl_sessions l client = Some s"
    and "dl_on_receive allowed sha224 dns inp (Op_data sender d) l = Inr l'"
  shows "ds_client_ep s = client \<and> \<not> ds_destroyed s \<and>
    (\<exists>tr. dtls_reach allowed sha224 s tr \<and> (ds_state s = D_PROXY \<longrightarrow> authed allowed sha224 tr)) \<and>
    (client \<noteq> sender \<longrightarrow> dl_sessions l' client = Some s) \<and>
    (\<forall>q. dl_sessions l' sender = Some q \<longrightarrow> \<not> ds_destroyed q) \<and> dl_receiving l'"
proof -
  have ok: "table_ok allowed sha224 l"
    by (rule listener_reach_ok) (fact assms(1))
  obtain tr where s: "ds_client_ep s = client" "\<not> ds_destroyed s" "dtls_reach allowed sha224 s tr"
    using ok assms(2) by (rule table_okD)
  obtain q q' where q: "on_datagram allowed sha224 inp q = Inr q'"
    "dl_sessions l' = (dl_sessions l)(sender := if ds_destroyed q' then None else Some q')"
    using on_receive_data_effect [OF ok assms(3)] by blast
  have "dl_receiving l'"
    using assms(3) by (auto simp: dl_on_receive_def dl_do_receive_def rbind_eq_Inr)
  moreover have "ds_state s = D_PROXY \<longrightarrow> authed allowed sha224 tr"
    using dtls_reach_inv [OF s(3)] by (simp add: dtls_inv_def)
  ultimately show ?thesis
    using s q(2) assms(2) by auto
qed

definition ex_listener :: dtls_listener where
  "ex_listener = \<lparr>dl_ctx = True, dl_socket_open = True, dl_receiving = True,
     dl_sessions = [default_endpoint \<mapsto> ex_proxy]\<rparr>"

lemma ex_listener_reach: "listener_reach [hex_digest [112, 119]] (\<lambda>p. p) ex_listener"
proof -
  let ?li = "\<lparr>li_ctx_ok = True, li_cert_ok = True, li_key_ok = True, li_check_ok = True,
    li_resolved = Inr [default_endpoint]\<rparr>"
  let ?l = "\<lparr>dl_ctx = True, dl_socket_open = True, dl_receiving = False, dl_sessions = Map.empty\<rparr>"
  have "dl_new ?li = Inr ?l"
    by (simp add: dl_new_def)
  then have 1: "listener_reach [hex_digest [112, 119]] (\<lambda>p. p) (dl_start ?l)"
    by (rule Create)
  have auth: "on_datagram [hex_digest [112, 119]] (\<lambda>p. p) ex_auth_input (ds_new default_endpoint new_dns_cache) =
      Inr ex_proxy"
    by (rule ex_proxy_step)
  have "\<not> ds_destroyed ex_proxy"
    by (simp add: ex_proxy_def ds_new_def)
  then have "dl_on_receive [hex_digest [112, 119]] (\<lambda>p. p) new_dns_cache ex_auth_input
      (Op_data default_endpoint [22]) ((dl_start ?l)\<lparr>dl_receiving := False\<rparr>) = Inr ex_listener"
    by (simp add: dl_on_receive_def dl_start_def dl_do_receive_def deliver_def auth ex_listener_def)
  then show ?thesis
    using Receive [OF 1, of ex_auth_input new_dns_cache "Op_data default_endpoint [22]" ex_listener]
    by (simp add: dl_start_def dl_do_receive_def ssl_fits_def ex_auth_input_def)
qed

theorem listener_isolates_clients_witness:
  "\<exists>l'. dl_on_receive [hex_digest [112, 119]] (\<lambda>p. p) new_dns_cache ex_auth_input
      (Op_data \<lparr>ep_addr = Ip4 9 9 9 9, ep_port = 1\<rparr> [22]) ex_listener = Inr l' \<and>
     dl_sessions l' default_endpoint = Some ex_proxy"
proof -
  let ?ep = "\<lparr>ep_addr = Ip4 9 9 9 9, ep_port = 1\<rparr>"
  have ne: "default_endpoint \<noteq> ?ep"
    by (simp add: default_endpoint_def)
  have "dl_sessions ex_listener ?ep = None"
    using ne by (simp add: ex_listener_def)
  moreover have "\<exists>s. on_datagram [hex_digest [112, 119]] (\<lambda>p. p) ex_auth_input (ds_new ?ep new_dns_cache) = Inr s"
    by (simp add: on_datagram_def process_handshake_def try_read_app_data_def auth_record_def start_auth_def
        ex_auth_input_def ds_new_def)
  ultimately obtain l' where l': "dl_on_receive [hex_digest [112, 119]] (\<lambda>p. p) new_dns_cache ex_auth_input
      (Op_data ?ep [22]) ex_listener = Inr l'"
    by (auto simp: dl_on_receive_def deliver_def Let_def)
  have "dl_sessions ex_listener default_endpoint = Some ex_proxy"
    by (simp add: ex_listener_def)
  then have "dl_sessions l' default_endpoint = Some ex_proxy"
    using listener_isolates_clients [OF ex_listener_reach _ l'] ne by blast
  then show ?thesis
    using l' by blast
qed

text \<open>When the certificate, the key or their match is rejected, the constructor returns without an error
  and without a socket, and the receive loop livelocks: a failing receive on the closed socket re-creates
  exactly the same state, so the loop runs for ever without receiving anything.\<close>

theorem listener_unbound_spins:
  assumes "li_ctx_ok li" and "\<not> (li_cert_ok li \<and> li_key_ok li \<and> li_check_ok li)"
  shows "\<exists>l. dl_new li = Inr l \<and> \<not> dl_socket_open l \<and>
    dl_on_receive allowed sha224 dns inp (Op_error Op_failed) ((dl_start l)\<lparr>dl_receiving := False\<rparr>) = Inr (dl_start l)"
  using assms by (auto simp: dl_new_def dl_on_receive_def dl_start_def dl_do_receive_def Let_def)

theorem listener_unbound_spins_witness:
  "\<exists>l. dl_new \<lparr>li_ctx_ok = True, li_cert_ok = False, li_key_ok = True, li_check_ok = True, li_resolved = Inr []\<rparr> = Inr l \<and>
    \<not> dl_socket_open l \<and>
    dl_on_receive [] (\<lambda>p. p) new_dns_cache ex_auth_input (Op_error Op_failed) ((dl_start l)\<lparr>dl_receiving := False\<rparr>) =
      Inr (dl_start l)"
  by (rule listener_unbound_spins) simp_all

end
