(* ===== verification/DtlsChannel.thy ===== *)
theory DtlsChannel
  imports DtlsServerSession
begin

text \<open>
  \<^verbatim>\<open>Shared/DtlsChannel.{h,cpp}\<close>: the client's DTLS connection, shared by all its UDP relays. What OpenSSL returns
  is an input of each step; \<open>ch_offered\<close> lists the plain-text records given to \<open>SSL_write\<close>, each with whether
  it was taken. A call of one of the two callbacks is the last thing a handler does that matters to the
  channel, and is part of the handler's result.
\<close>

subsection \<open>Model\<close>

datatype chan_op = Post_handshake | Timer_timeout | Timer_retry | Chan_recv

datatype chan_callback = On_handshake bool | On_data bytes

record dtls_channel =
  ch_server_ep :: endpoint
  ch_ssl :: bool
  ch_password :: bytes
  ch_handshake_done :: bool
  ch_running :: bool
  ch_pending :: "chan_op list"
  ch_offered :: "(bytes \<times> bool) list"

datatype ssl_result = Ssl_ok | Ssl_err ssl_err

record chan_input =
  ci_handshake :: ssl_result
  ci_read :: ssl_read
  ci_write :: ssl_result

text \<open>\<open>make_address\<close> throws when the text is not an address; the two OpenSSL objects may fail to be created.\<close>

definition ch_new :: "(bytes \<Rightarrow> ip_addr option) \<Rightarrow> bool \<Rightarrow> bool \<Rightarrow> bytes \<Rightarrow> u16 \<Rightarrow> bytes \<Rightarrow> dtls_channel res" where
  "ch_new make_address ctx_ok ssl_ok server_addr server_port password =
     (case make_address server_addr of
        None \<Rightarrow> Inl Invalid_argument
      | Some addr \<Rightarrow>
          Inr \<lparr>ch_server_ep = \<lparr>ep_addr = addr, ep_port = server_port\<rparr>, ch_ssl = (ctx_ok \<and> ssl_ok),
               ch_password = password, ch_handshake_done = False, ch_running = False,
               ch_pending = [], ch_offered = []\<rparr>)"

definition is_ready :: "dtls_channel \<Rightarrow> bool" where
  "is_ready c = ch_handshake_done c"

definition ch_start_op :: "chan_op \<Rightarrow> dtls_channel \<Rightarrow> dtls_channel" where
  "ch_start_op p c = c\<lparr>ch_pending := ch_pending c @ [p]\<rparr>"

text \<open>\<open>expires_after\<close> cancels a wait that is still pending on the timer.\<close>

definition ch_arm_timer :: "chan_op \<Rightarrow> dtls_channel \<Rightarrow> dtls_channel" where
  "ch_arm_timer p c =
     ch_start_op p (c\<lparr>ch_pending := filter (\<lambda>q. q \<noteq> Timer_timeout \<and> q \<noteq> Timer_retry) (ch_pending c)\<rparr>)"

definition ch_do_receive :: "dtls_channel \<Rightarrow> dtls_channel" where
  "ch_do_receive c = (if \<not> ch_running c then c else ch_start_op Chan_recv c)"

definition ch_start :: "dtls_channel \<Rightarrow> dtls_channel" where
  "ch_start c =
     (let c = c\<lparr>ch_running := True\<rparr>;
          c = ch_do_receive c
      in ch_start_op Post_handshake c)"

definition ch_stop :: "dtls_channel \<Rightarrow> dtls_channel" where
  "ch_stop c = c\<lparr>ch_running := False\<rparr>"

definition ch_send :: "ssl_result \<Rightarrow> bytes \<Rightarrow> dtls_channel \<Rightarrow> dtls_channel" where
  "ch_send write data c =
     (if \<not> ch_ssl c then c
      else if \<not> ch_handshake_done c then c
      else if \<not> ch_running c then c
      else case write of
        Ssl_ok \<Rightarrow> c\<lparr>ch_offered := ch_offered c @ [(data, True)]\<rparr>
      | Ssl_err err \<Rightarrow>
          let c = c\<lparr>ch_offered := ch_offered c @ [(data, False)]\<rparr> in
          if err = Want_write \<or> err = Want_read then ch_do_receive c else c)"

definition ch_do_handshake :: "chan_input \<Rightarrow> dtls_channel \<Rightarrow> dtls_channel \<times> chan_callback list" where
  "ch_do_handshake inp c =
     (if \<not> ch_ssl c \<or> \<not> ch_running c \<or> ch_handshake_done c then (c, [])
      else case ci_handshake inp of
        Ssl_err err \<Rightarrow>
          if err = Want_read then (ch_arm_timer Timer_timeout c, [])
          else if err = Want_write then (ch_arm_timer Timer_retry c, [])
          else (c, [On_handshake False])
      | Ssl_ok \<Rightarrow>
          let c = c\<lparr>ch_handshake_done := True\<rparr>;
              auth = ch_password c @ [10];
              c = ch_send (ci_write inp) auth c
          in (c, [On_handshake True]))"

definition ch_handle_timeout :: "chan_input \<Rightarrow> dtls_channel \<Rightarrow> dtls_channel \<times> chan_callback list" where
  "ch_handle_timeout inp c =
     (if \<not> ch_ssl c \<or> \<not> ch_running c then (c, []) else ch_do_handshake inp c)"

text \<open>The result of \<open>SSL_read\<close> is only used once the handshake is over; before that the handshake is continued
  by a posted call.\<close>

definition ch_on_receive :: "chan_input \<Rightarrow> bool \<Rightarrow> dtls_channel \<Rightarrow> dtls_channel \<times> chan_callback list" where
  "ch_on_receive inp ec c =
     (if ec \<or> \<not> ch_running c then (c, [])
      else if \<not> ch_handshake_done c then (ch_do_receive (ch_start_op Post_handshake c), [])
      else case ci_read inp of
        Plain d \<Rightarrow> (ch_do_receive c, [On_data d])
      | Read_err err \<Rightarrow> (ch_do_receive c, []))"

fun ch_complete :: "chan_input \<Rightarrow> bool \<Rightarrow> chan_op \<Rightarrow> dtls_channel \<Rightarrow> dtls_channel \<times> chan_callback list" where
  "ch_complete inp ec Post_handshake c = ch_do_handshake inp c"
| "ch_complete inp ec Timer_timeout c = (if \<not> ec \<and> ch_running c then ch_handle_timeout inp c else (c, []))"
| "ch_complete inp ec Timer_retry c = (if \<not> ec \<and> ch_running c then ch_do_handshake inp c else (c, []))"
| "ch_complete inp ec Chan_recv c = ch_on_receive inp ec c"

text \<open>The channels that can be reached: started once, then any pending operation completes, with or without an
  error, the relays send anything at any time, and the channel may be stopped.\<close>

inductive chan_reach :: "bytes \<Rightarrow> dtls_channel \<Rightarrow> chan_callback list \<Rightarrow> bool" for password where
  Start: "ch_new make_address ctx_ok ssl_ok addr port password = Inr c \<Longrightarrow> chan_reach password (ch_start c) []"
| Complete: "chan_reach password c cbs \<Longrightarrow> p \<in> set (ch_pending c) \<Longrightarrow>
    ch_complete inp ec p (c\<lparr>ch_pending := remove1 p (ch_pending c)\<rparr>) = (c', new) \<Longrightarrow>
    chan_reach password c' (cbs @ new)"
| Send: "chan_reach password c cbs \<Longrightarrow> chan_reach password (ch_send w data c) cbs"
| Stop: "chan_reach password c cbs \<Longrightarrow> chan_reach password (ch_stop c) cbs"

subsection \<open>The password line comes first\<close>

definition chan_inv :: "bytes \<Rightarrow> dtls_channel \<Rightarrow> chan_callback list \<Rightarrow> bool" where
  "chan_inv password c cbs \<longleftrightarrow> ch_password c = password \<and>
     (if ch_handshake_done c
      then ch_offered c \<noteq> [] \<and> fst (hd (ch_offered c)) = password @ [10] \<and>
        count_list cbs (On_handshake True) = 1
      else ch_offered c = [] \<and> (\<forall>b \<in> set cbs. b = On_handshake False))"

lemma ch_send_fields:
  "ch_password (ch_send w data c) = ch_password c" "ch_handshake_done (ch_send w data c) = ch_handshake_done c"
  "ch_offered (ch_send w data c) = ch_offered c @
     (if ch_ssl c \<and> ch_handshake_done c \<and> ch_running c then [(data, w = Ssl_ok)] else [])"
  by (auto simp: ch_send_def ch_do_receive_def ch_start_op_def Let_def split: ssl_result.splits)

lemma ch_do_handshake_inv:
  assumes "chan_inv password c cbs" and "ch_do_handshake inp c = (c', new)"
  shows "chan_inv password c' (cbs @ new)"
proof (cases "\<not> ch_ssl c \<or> \<not> ch_running c \<or> ch_handshake_done c")
  case True
  then show ?thesis
    using assms by (auto simp: ch_do_handshake_def)
next
  case False
  then have o: "ch_offered c = []" "ch_password c = password" "On_handshake True \<notin> set cbs"
    using assms(1) by (auto simp: chan_inv_def)
  show ?thesis
  proof (cases "ci_handshake inp")
    case Ssl_ok
    then have c': "c' = ch_send (ci_write inp) (password @ [10]) (c\<lparr>ch_handshake_done := True\<rparr>)"
      "new = [On_handshake True]"
      using assms(2) False o by (auto simp: ch_do_handshake_def Let_def)
    show ?thesis
      using o False by (simp add: chan_inv_def c' ch_send_fields count_list_0_iff)
  next
    case (Ssl_err e)
    then show ?thesis
      using assms False
      by (auto simp: ch_do_handshake_def chan_inv_def ch_arm_timer_def ch_start_op_def split: if_splits)
  qed
qed

lemma ch_complete_inv:
  assumes "chan_inv password c cbs" and "ch_complete inp ec p c = (c', new)"
  shows "chan_inv password c' (cbs @ new)"
proof (cases p)
  case Chan_recv
  then have r: "ch_on_receive inp ec c = (c', new)"
    using assms(2) by simp
  have same: "chan_inv password c (cbs @ new)" if "new \<in> {[]} \<union> range (\<lambda>d. [On_data d])" "ch_handshake_done c \<or> new = []"
    using assms(1) that by (auto simp: chan_inv_def)
  show ?thesis
    using r same assms(1)
    by (auto simp: ch_on_receive_def ch_do_receive_def ch_start_op_def chan_inv_def split: if_splits ssl_read.splits)
qed (use assms ch_do_handshake_inv in \<open>auto simp: ch_handle_timeout_def split: if_splits\<close>)

lemma chan_reach_inv: "chan_reach password c cbs \<Longrightarrow> chan_inv password c cbs"
proof (induction rule: chan_reach.induct)
  case (Start make_address ctx_ok ssl_ok addr port c)
  then show ?case
    by (auto simp: chan_inv_def ch_new_def ch_start_def ch_do_receive_def ch_start_op_def Let_def split: option.splits)
next
  case (Complete c cbs p inp ec c' new)
  have "chan_inv password (c\<lparr>ch_pending := remove1 p (ch_pending c)\<rparr>) cbs"
    using Complete.IH by (simp add: chan_inv_def)
  then show ?case
    using ch_complete_inv Complete.hyps(3) by blast
next
  case (Send c cbs w data)
  then show ?case
    by (auto simp: chan_inv_def ch_send_fields)
next
  case (Stop c cbs)
  then show ?case
    by (simp add: chan_inv_def ch_stop_def)
qed

text \<open>C17: whatever the relays send and whenever timers, receives and posted calls complete, nothing is given to
  the DTLS connection before the handshake is over, and the first record given to it is the password line; the
  owner is told of the success exactly once.\<close>

theorem channel_password_first:
  assumes "chan_reach password c cbs"
  shows "(ch_offered c \<noteq> [] \<longrightarrow> ch_handshake_done c) \<and>
    (ch_handshake_done c \<longrightarrow> ch_offered c \<noteq> [] \<and> fst (hd (ch_offered c)) = password @ [10]) \<and>
    count_list cbs (On_handshake True) = (if ch_handshake_done c then 1 else 0)"
  using chan_reach_inv [OF assms] by (auto simp: chan_inv_def count_list_0_iff split: if_splits)

text \<open>A channel that was started and whose first handshake step succeeded.\<close>

definition ex_channel :: dtls_channel where
  "ex_channel = \<lparr>ch_server_ep = default_endpoint, ch_ssl = True, ch_password = [112, 119],
     ch_handshake_done = True, ch_running = True, ch_pending = [Chan_recv],
     ch_offered = [([112, 119, 10], True)]\<rparr>"

lemma ex_channel_reach: "chan_reach [112, 119] ex_channel [On_handshake True]"
proof -
  let ?inp = "\<lparr>ci_handshake = Ssl_ok, ci_read = Read_err Want_read, ci_write = Ssl_ok\<rparr>"
  let ?c = "\<lparr>ch_server_ep = default_endpoint, ch_ssl = True, ch_password = [112, 119],
     ch_handshake_done = False, ch_running = False, ch_pending = [], ch_offered = []\<rparr>"
  have "ch_new (\<lambda>_. Some (Ip4 0 0 0 0)) True True [] 0 [112, 119] = Inr ?c"
    by (simp add: ch_new_def default_endpoint_def)
  then have 1: "chan_reach [112, 119] (ch_start ?c) []"
    by (rule Start)
  show ?thesis
    using Complete [OF 1, of Post_handshake ?inp False ex_channel "[On_handshake True]"]
    by (simp add: ch_start_def ch_do_receive_def ch_start_op_def ch_do_handshake_def ch_send_def ex_channel_def)
qed

theorem channel_password_first_witness:
  "fst (hd (ch_offered ex_channel)) = [112, 119] @ [10] \<and> count_list [On_handshake True] (On_handshake True) = 1"
  using channel_password_first [OF ex_channel_reach] by (simp add: ex_channel_def)

end
