(* ===== verification/UdpRelay.thy ===== *)
theory UdpRelay
  imports UdpFrame UdpRequest DnsCache ProxyStats DtlsChannel
begin

text \<open>
  \<^verbatim>\<open>Client/UdpRelay.{h,cpp}\<close>: the local end of one SOCKS5 UDP association. It wraps the datagrams of local
  applications into frames for the shared DTLS channel and unwraps the replies. A handler's calls of
  \<open>dtls_->send\<close> and \<open>local_socket_.send_to\<close> are part of its result; whether the channel is ready is an
  input.
\<close>

subsection \<open>Model\<close>

record udp_relay =
  rl_local_port :: u16
  rl_open :: bool
  rl_sender_ep :: endpoint
  rl_dtls :: bool
  rl_session_id :: u16
  rl_pending_frames :: "bytes list"
  rl_target_to_sender :: "bytes \<Rightarrow> endpoint option"
  rl_running :: bool
  rl_receiving :: bool

definition rl_new :: "u16 \<Rightarrow> udp_relay" where
  "rl_new port =
     \<lparr>rl_local_port = port, rl_open = True, rl_sender_ep = default_endpoint, rl_dtls = False, rl_session_id = 0,
      rl_pending_frames = [], rl_target_to_sender = Map.empty, rl_running = False, rl_receiving = False\<rparr>"

definition rl_do_receive_local :: "udp_relay \<Rightarrow> udp_relay" where
  "rl_do_receive_local r = r\<lparr>rl_receiving := True\<rparr>"

definition rl_start :: "u16 \<Rightarrow> udp_relay \<Rightarrow> bool \<times> u16 \<times> udp_relay" where
  "rl_start session_id r =
     (let local_port = rl_local_port r;
          r = r\<lparr>rl_dtls := True, rl_session_id := session_id, rl_running := True\<rparr>
      in (True, local_port, rl_do_receive_local r))"

definition rl_stop :: "udp_relay \<Rightarrow> udp_relay" where
  "rl_stop r = (if \<not> rl_running r then r else r\<lparr>rl_running := False, rl_open := False\<rparr>)"

text \<open>The session id in front of a frame.\<close>

definition rl_pkt :: "u16 \<Rightarrow> bytes \<Rightarrow> bytes" where
  "rl_pkt session_id frame = [hi8 session_id] @ [lo8 session_id] @ frame"

fun rl_flush_loop :: "u16 \<Rightarrow> bytes list \<Rightarrow> bytes list" where
  "rl_flush_loop session_id [] = []"
| "rl_flush_loop session_id (frame # frames) = rl_pkt session_id frame # rl_flush_loop session_id frames"

definition rl_flush_pending :: "bool \<Rightarrow> udp_relay \<Rightarrow> udp_relay \<times> bytes list" where
  "rl_flush_pending ready r =
     (if \<not> rl_dtls r \<or> \<not> ready then (r, [])
      else (r\<lparr>rl_pending_frames := []\<rparr>, rl_flush_loop (rl_session_id r) (rl_pending_frames r)))"

definition target_key :: "bytes \<Rightarrow> u16 \<Rightarrow> bytes" where
  "target_key addr port = addr @ ascii '':'' @ to_dec (unat port)"

text \<open>A frame from the server; the result has the datagram that is sent to an application.\<close>

definition rl_on_dtls_data ::
    "bytes \<Rightarrow> udp_relay \<Rightarrow> proxy_stats \<Rightarrow> (udp_relay \<times> proxy_stats \<times> (bytes \<times> endpoint) list) res" where
  "rl_on_dtls_data data r st =
     (if \<not> rl_running r then Inr (r, st, [])
      else rbind (uf_parse new_udp_frame data 0) (\<lambda>(ok, frame, frame_len).
        if \<not> ok then Inr (r, st, [])
        else
          let st = addDownstreamDelta (of_nat (length data)) st;
              udp_resp = new_udp_request\<lparr>ur_addr_type := uf_addr_type frame, ur_dst_addr := uf_address frame,
                                         ur_dst_port := uf_port frame, ur_payload := uf_payload frame\<rparr>;
              pkt = ureq_serialize udp_resp;
              key = target_key (uf_address frame) (uf_port frame)
          in case rl_target_to_sender r key of
               Some app_ep \<Rightarrow>
                 Inr (r\<lparr>rl_target_to_sender := (rl_target_to_sender r)(key := None)\<rparr>, st, [(pkt, app_ep)])
             | None \<Rightarrow> Inr (r, st, [(pkt, rl_sender_ep r)])))"

text \<open>The frame for a request of an application.\<close>

definition rl_frame :: "udp_request \<Rightarrow> bytes res" where
  "rl_frame udp_req =
     (if ur_addr_type udp_req = 0x03 then
        Inr (uf_generate_domain (ur_dst_addr udp_req) (ur_dst_port udp_req) (ur_payload udp_req))
      else rbind (ureq_dest_endpoint udp_req) (\<lambda>ep. Inr (uf_generate_ep ep (ur_payload udp_req))))"

text \<open>The completion of a receive on the local socket: an error, or a datagram with its sender, which
  \<open>async_receive_from\<close> stored in \<open>sender_ep_\<close>. The result has the packets given to the channel.\<close>

datatype local_recv = Local_error | Local_data endpoint bytes

definition rl_on_local ::
    "bool \<Rightarrow> local_recv \<Rightarrow> udp_relay \<Rightarrow> proxy_stats \<Rightarrow> (udp_relay \<times> proxy_stats \<times> bytes list) res" where
  "rl_on_local ready c r st = (case c of
     Local_error \<Rightarrow> Inr (if \<not> rl_running r then r else rl_do_receive_local r, st, [])
   | Local_data sender data \<Rightarrow>
       let r = r\<lparr>rl_sender_ep := sender\<rparr> in
       if \<not> rl_running r then Inr (r, st, [])
       else if length data < 4 then Inr (rl_do_receive_local r, st, [])
       else
         let st = addUpstreamDelta (of_nat (length data)) st in
         rbind (ureq_parse new_udp_request data) (\<lambda>(ok, udp_req).
           if \<not> ok then Inr (rl_do_receive_local r, st, [])
           else
             let r = r\<lparr>rl_target_to_sender := (rl_target_to_sender r)
                        (target_key (ur_dst_addr udp_req) (ur_dst_port udp_req) \<mapsto> rl_sender_ep r)\<rparr> in
             rbind (rl_frame udp_req) (\<lambda>frame.
               if rl_dtls r \<and> ready then Inr (rl_do_receive_local r, st, [rl_pkt (rl_session_id r) frame])
               else Inr (rl_do_receive_local (r\<lparr>rl_pending_frames := rl_pending_frames r @ [frame]\<rparr>), st, []))))"

subsection \<open>From the applications to the channel\<close>

text \<open>The frame that a datagram asks for, if any.\<close>

definition wanted :: "bytes \<Rightarrow> bytes list" where
  "wanted d = (case ureq_parse new_udp_request d of
     Inr (ok, q) \<Rightarrow> if ok then (case rl_frame q of Inr f \<Rightarrow> [f] | Inl _ \<Rightarrow> []) else []
   | Inl _ \<Rightarrow> [])"

definition key_of :: "bytes \<Rightarrow> bytes option" where
  "key_of d = (case ureq_parse new_udp_request d of
     Inr (ok, q) \<Rightarrow> if ok then Some (target_key (ur_dst_addr q) (ur_dst_port q)) else None
   | Inl _ \<Rightarrow> None)"

lemma rl_frame_ok: "ureq_wf q \<Longrightarrow> \<exists>f. rl_frame q = Inr f"
  by (auto simp: ureq_wf_def rl_frame_def ureq_dest_endpoint_def v4_of_bytes_def v6_of_bytes_def str_data_def)

lemma ureq_parse_total:
  assumes "length d \<le> max_datagram"
  obtains q where "ureq_parse new_udp_request d = Inr (False, q)"
    | q f where "ureq_parse new_udp_request d = Inr (True, q)" "rl_frame q = Inr f"
proof -
  obtain ok q where p: "ureq_parse new_udp_request d = Inr (ok, q)"
    using ureq_parse_shape [OF assms, of new_udp_request] by blast
  show thesis
  proof (cases ok)
    case True
    then show thesis
      using that(2) [of q] p ureq_parse_accepts [OF assms, of new_udp_request q] rl_frame_ok [of q] by auto
  next
    case False
    then show thesis
      using that(1) [of q] p by simp
  qed
qed

lemma short_datagram: "length d < 4 \<Longrightarrow> ureq_parse r d = Inr (False, r)"
  by (simp add: ureq_parse_def)

lemma rl_on_local_step:
  assumes "rl_running r" and "length d \<le> max_datagram"
  shows "\<exists>r' st'. rl_on_local ready (Local_data ep d) r st =
      Inr (r', st', if rl_dtls r \<and> ready then map (rl_pkt (rl_session_id r)) (wanted d) else []) \<and>
    rl_running r' \<and> rl_receiving r' \<and> rl_dtls r' = rl_dtls r \<and> rl_session_id r' = rl_session_id r \<and>
    rl_pending_frames r' = rl_pending_frames r @ (if rl_dtls r \<and> ready then [] else wanted d) \<and>
    rl_sender_ep r' = ep \<and>
    rl_target_to_sender r' = (case key_of d of Some k \<Rightarrow> (rl_target_to_sender r)(k \<mapsto> ep) | None \<Rightarrow> rl_target_to_sender r)"
proof (cases "length d < 4")
  case True
  then show ?thesis
    using assms(1) by (simp add: rl_on_local_def wanted_def key_of_def short_datagram rl_do_receive_local_def)
next
  case False
  from assms(2) show ?thesis
  proof (cases rule: ureq_parse_total)
    case (1 q)
    then show ?thesis
      using assms(1) False by (simp add: rl_on_local_def wanted_def key_of_def rl_do_receive_local_def)
  next
    case (2 q f)
    then show ?thesis
      using assms(1) False
      by (simp add: rl_on_local_def wanted_def key_of_def rl_do_receive_local_def Let_def)
  qed
qed

fun rl_local_run :: "bool \<Rightarrow> (endpoint \<times> bytes) list \<Rightarrow> udp_relay \<Rightarrow> proxy_stats \<Rightarrow>
    (udp_relay \<times> proxy_stats \<times> bytes list) res" where
  "rl_local_run ready [] r st = Inr (r, st, [])"
| "rl_local_run ready ((ep, d) # xs) r st =
     rbind (rl_on_local ready (Local_data ep d) r st) (\<lambda>(r, st, ps).
     rbind (rl_local_run ready xs r st) (\<lambda>(r, st, qs). Inr (r, st, ps @ qs)))"

lemma rl_local_run_effect:
  assumes "rl_running r" and "\<forall>x \<in> set xs. length (snd x) \<le> max_datagram"
  shows "\<exists>r' st'. rl_local_run ready xs r st =
      Inr (r', st', if rl_dtls r \<and> ready then map (rl_pkt (rl_session_id r)) (concat (map (wanted \<circ> snd) xs)) else []) \<and>
    rl_running r' \<and> rl_dtls r' = rl_dtls r \<and> rl_session_id r' = rl_session_id r \<and>
    rl_pending_frames r' = rl_pending_frames r @ (if rl_dtls r \<and> ready then [] else concat (map (wanted \<circ> snd) xs)) \<and>
    (\<forall>k. k \<notin> {k'. \<exists>x \<in> set xs. key_of (snd x) = Some k'} \<longrightarrow> rl_target_to_sender r' k = rl_target_to_sender r k)"
  using assms
proof (induction xs arbitrary: r st)
  case (Cons x xs)
  obtain ep d where x: "x = (ep, d)"
    by (cases x)
  obtain r1 st1 where 1: "rl_on_local ready (Local_data ep d) r st =
      Inr (r1, st1, if rl_dtls r \<and> ready then map (rl_pkt (rl_session_id r)) (wanted d) else [])"
    "rl_running r1" "rl_dtls r1 = rl_dtls r" "rl_session_id r1 = rl_session_id r"
    "rl_pending_frames r1 = rl_pending_frames r @ (if rl_dtls r \<and> ready then [] else wanted d)"
    "rl_target_to_sender r1 = (case key_of d of Some k \<Rightarrow> (rl_target_to_sender r)(k \<mapsto> ep) | None \<Rightarrow> rl_target_to_sender r)"
    using rl_on_local_step [OF Cons.prems(1), of d ready ep st] Cons.prems(2) x by auto
  have "\<forall>x \<in> set xs. length (snd x) \<le> max_datagram"
    using Cons.prems(2) by simp
  from Cons.IH [OF 1(2) this, of st1] obtain r2 st2 where 2: "rl_local_run ready xs r1 st1 =
      Inr (r2, st2, if rl_dtls r1 \<and> ready then map (rl_pkt (rl_session_id r1)) (concat (map (wanted \<circ> snd) xs)) else [])"
    "rl_running r2" "rl_dtls r2 = rl_dtls r1" "rl_session_id r2 = rl_session_id r1"
    "rl_pending_frames r2 = rl_pending_frames r1 @ (if rl_dtls r1 \<and> ready then [] else concat (map (wanted \<circ> snd) xs))"
    "\<forall>k. k \<notin> {k'. \<exists>x \<in> set xs. key_of (snd x) = Some k'} \<longrightarrow> rl_target_to_sender r2 k = rl_target_to_sender r1 k"
    by blast
  have run: "rl_local_run ready (x # xs) r st = Inr (r2, st2,
      if rl_dtls r \<and> ready then map (rl_pkt (rl_session_id r)) (concat (map (wanted \<circ> snd) (x # xs))) else [])"
    using 1(1,3,4) 2(1) by (simp add: x)
  have keep: "rl_target_to_sender r2 k = rl_target_to_sender r k"
    if "k \<notin> {k'. \<exists>x \<in> set (x # xs). key_of (snd x) = Some k'}" for k
    using that 2(6) 1(6) by (auto simp: x split: option.splits)
  show ?case
    using run 1(3-5) 2(2-5) keep by (intro exI [of _ r2] exI [of _ st2] conjI) (simp_all add: x)
qed simp

lemma rl_flush_loop_map: "rl_flush_loop i frames = map (rl_pkt i) frames"
  by (induction frames) simp_all

text \<open>C20: no datagram is lost or reordered by waiting for the channel. Take any datagrams received before the
  channel is ready and any received after: what the relay gives to the channel, by the flush on readiness and
  then directly, is the frame of every well-formed datagram, once, in the order they were received, each with
  the relay's session id in front; malformed ones are skipped and nothing faults.\<close>

theorem relay_keeps_order:
  assumes "rl_running r" and "rl_dtls r" and "rl_pending_frames r = []"
    and "\<forall>x \<in> set (xs @ ys). length (snd x) \<le> 65535"
  shows "\<exists>r1 st1 r2 ps r3 st3 qs. rl_local_run False xs r st = Inr (r1, st1, []) \<and>
    rl_flush_pending True r1 = (r2, ps) \<and> rl_local_run True ys r2 st1 = Inr (r3, st3, qs) \<and>
    ps @ qs = map (rl_pkt (rl_session_id r)) (concat (map (wanted \<circ> snd) (xs @ ys))) \<and>
    rl_pending_frames r3 = []"
proof -
  have xs: "\<forall>x \<in> set xs. length (snd x) \<le> max_datagram" and ys: "\<forall>x \<in> set ys. length (snd x) \<le> max_datagram"
    using assms(4) by (auto simp: max_datagram_def)
  obtain r1 st1 where 1: "rl_local_run False xs r st = Inr (r1, st1, [])" "rl_running r1" "rl_dtls r1"
    "rl_session_id r1 = rl_session_id r" "rl_pending_frames r1 = concat (map (wanted \<circ> snd) xs)"
    using rl_local_run_effect [OF assms(1) xs, of False st] assms(2,3) by auto
  define r2 where "r2 = r1\<lparr>rl_pending_frames := []\<rparr>"
  have 2: "rl_flush_pending True r1 = (r2, map (rl_pkt (rl_session_id r)) (concat (map (wanted \<circ> snd) xs)))"
    using 1(3-5) by (simp add: rl_flush_pending_def rl_flush_loop_map r2_def)
  have r2: "rl_running r2" "rl_dtls r2" "rl_session_id r2 = rl_session_id r" "rl_pending_frames r2 = []"
    using 1(2-4) by (simp_all add: r2_def)
  obtain r3 st3 where "rl_local_run True ys r2 st1 =
      Inr (r3, st3, map (rl_pkt (rl_session_id r)) (concat (map (wanted \<circ> snd) ys)))" "rl_pending_frames r3 = []"
    using rl_local_run_effect [OF r2(1) ys, of True st1] r2(2-4) by auto
  then show ?thesis
    using 1(1) 2 by auto
qed

subsection \<open>From the channel to the applications\<close>

text \<open>The SOCKS5 header for an IPv4 peer.\<close>

definition v4_datagram :: "endpoint \<Rightarrow> bytes \<Rightarrow> udp_request" where
  "v4_datagram ep payload = \<lparr>ur_rsv0 = 0, ur_rsv1 = 0, ur_frag = 0, ur_addr_type = 1,
     ur_dst_addr = addr_bytes (ep_addr ep), ur_dst_port = ep_port ep, ur_payload = payload\<rparr>"

lemma v4_datagram_wf: "is_v4 (ep_addr ep) \<Longrightarrow> ureq_wf (v4_datagram ep payload)"
  by (cases "ep_addr ep") (simp_all add: ureq_wf_def v4_datagram_def)

lemma length_v4_frame: "is_v4 (ep_addr ep) \<Longrightarrow> length (uf_generate_ep ep payload) = 11 + length payload"
  by (cases "ep_addr ep") (simp_all add: uf_generate_ep_shape Let_def)

lemma length_v4_datagram: "is_v4 (ep_addr ep) \<Longrightarrow> length (ureq_serialize (v4_datagram ep payload)) = 10 + length payload"
  by (cases "ep_addr ep") (simp_all add: ureq_serialize_def v4_datagram_def)

lemma rl_on_dtls_data_v4:
  assumes "rl_running r" and "is_v4 (ep_addr ep)" and "length payload \<le> 65500"
  shows "rl_on_dtls_data (uf_generate_ep ep payload) r st =
    (let key = target_key (addr_bytes (ep_addr ep)) (ep_port ep);
         st' = addDownstreamDelta (of_nat (length (uf_generate_ep ep payload))) st
     in Inr (case rl_target_to_sender r key of
         Some app \<Rightarrow> (r\<lparr>rl_target_to_sender := (rl_target_to_sender r)(key := None)\<rparr>, st',
                       [(ureq_serialize (v4_datagram ep payload), app)])
       | None \<Rightarrow> (r, st', [(ureq_serialize (v4_datagram ep payload), rl_sender_ep r)])))"
proof -
  have wf: "wf_ep ep"
    using assms(2) by (cases "ep_addr ep") (simp_all add: wf_ep_def)
  have len: "length (uf_generate_ep ep payload) < 2 ^ 16"
    using assms(2,3) by (simp add: length_v4_frame)
  show ?thesis
    using assms(1,2) uf_parse_generated_ep [OF wf len, of new_udp_frame "[]" 0]
    by (simp add: rl_on_dtls_data_def Let_def v4_datagram_def new_udp_request_def ADDR_IPV4_def split: option.splits)
qed

lemma key_of_v4:
  assumes "is_v4 (ep_addr ep)" and "length payload \<le> 65500"
  shows "key_of (ureq_serialize (v4_datagram ep payload)) = Some (target_key (addr_bytes (ep_addr ep)) (ep_port ep))"
  using ureq_parse_serialize [OF v4_datagram_wf [OF assms(1)], of payload new_udp_request] assms
  by (simp add: key_of_def length_v4_datagram max_datagram_def) (simp add: v4_datagram_def)

text \<open>A reply reaches the application that asked. After an application has sent a datagram to an IPv4
  target, and whatever datagrams to other targets any applications send in between, the next frame from that
  target is delivered to this application as a well-formed SOCKS5 datagram that names the target and carries
  exactly the payload; the association is used up by it.\<close>

theorem relay_reply_to_sender:
  assumes "rl_running r" and "is_v4 (ep_addr target)" and "length req \<le> 65500" and "length resp \<le> 65500"
    and "\<forall>x \<in> set ys. length (snd x) \<le> 65535 \<and>
      key_of (snd x) \<noteq> Some (target_key (addr_bytes (ep_addr target)) (ep_port target))"
  shows "\<exists>r1 st1 ps r2 st2. rl_local_run ready ((app, ureq_serialize (v4_datagram target req)) # ys) r st = Inr (r1, st1, ps) \<and>
    rl_on_dtls_data (uf_generate_ep target resp) r1 st1 =
      Inr (r2, st2, [(ureq_serialize (v4_datagram target resp), app)]) \<and>
    ureq_parse new_udp_request (ureq_serialize (v4_datagram target resp)) = Inr (True, v4_datagram target resp) \<and>
    rl_target_to_sender r2 (target_key (addr_bytes (ep_addr target)) (ep_port target)) = None"
proof -
  let ?k = "target_key (addr_bytes (ep_addr target)) (ep_port target)"
  let ?d = "ureq_serialize (v4_datagram target req)"
  have d: "length ?d \<le> max_datagram"
    using assms(2,3) by (simp add: length_v4_datagram max_datagram_def)
  have ys: "\<forall>x \<in> set ys. length (snd x) \<le> max_datagram"
    using assms(5) by (auto simp: max_datagram_def)
  obtain r0 st0 ps0 where 0: "rl_on_local ready (Local_data app ?d) r st = Inr (r0, st0, ps0)" "rl_running r0"
    "rl_target_to_sender r0 ?k = Some app"
    using rl_on_local_step [OF assms(1) d, of ready app st] key_of_v4 [OF assms(2,3)] by auto
  obtain r1 st1 ps1 where 1: "rl_local_run ready ys r0 st0 = Inr (r1, st1, ps1)" "rl_running r1"
    "rl_target_to_sender r1 ?k = Some app"
    using rl_local_run_effect [OF 0(2) ys, of ready st0] 0(3) assms(5) by fastforce
  have "ureq_parse new_udp_request (ureq_serialize (v4_datagram target resp)) = Inr (True, v4_datagram target resp)"
    using ureq_parse_serialize [OF v4_datagram_wf [OF assms(2)], of resp] assms(2,4)
    by (simp add: length_v4_datagram max_datagram_def)
  moreover have "rl_local_run ready ((app, ?d) # ys) r st = Inr (r1, st1, ps0 @ ps1)"
    using 0(1) 1(1) by simp
  ultimately show ?thesis
    using rl_on_dtls_data_v4 [OF 1(2) assms(2,4), of st1] 1(3) by (simp add: Let_def)
qed

text \<open>Replies from IPv6 targets are broken. The frame's address type 6 is copied into the SOCKS5 header,
  where IPv6 is type 4: the datagram delivered to the application has no address at all, and the program's own
  parser of that header rejects it.\<close>

theorem relay_v6_reply_malformed:
  assumes "rl_running r" and "ep_addr target = Ip6 bs" and "length bs = 16" and "length resp \<le> 65500"
  shows "\<exists>r' st' app q. rl_on_dtls_data (uf_generate_ep target resp) r st =
      Inr (r', st', [([0, 0, 0, 6, hi8 (ep_port target), lo8 (ep_port target)] @ resp, app)]) \<and>
    ureq_parse new_udp_request ([0, 0, 0, 6, hi8 (ep_port target), lo8 (ep_port target)] @ resp) = Inr (False, q)"
proof -
  have wf: "wf_ep target"
    using assms(2,3) by (simp add: wf_ep_def)
  have len: "length (uf_generate_ep target resp) < 2 ^ 16"
    using assms(2-4) by (simp add: uf_generate_ep_shape Let_def)
  have "ureq_parse new_udp_request ([0, 0, 0, 6, hi8 (ep_port target), lo8 (ep_port target)] @ resp) =
      Inr (False, new_udp_request\<lparr>ur_addr_type := 6\<rparr>)"
    by (simp add: ureq_parse_def new_udp_request_def)
  then show ?thesis
    using assms(1,2) uf_parse_generated_ep [OF wf len, of new_udp_frame "[]" 0]
    by (simp add: rl_on_dtls_data_def Let_def new_udp_request_def ADDR_IPV6_def ureq_serialize_def split: option.splits)
qed

subsection \<open>Witnesses\<close>

definition ex_app :: endpoint where
  "ex_app = \<lparr>ep_addr = Ip4 127 0 0 1, ep_port = 5000\<rparr>"

definition ex_dns_server :: endpoint where
  "ex_dns_server = \<lparr>ep_addr = Ip4 8 8 8 8, ep_port = 53\<rparr>"

definition ex_relay :: udp_relay where
  "ex_relay = snd (snd (rl_start 1 (rl_new 40000)))"

lemma ex_relay_fields:
  "rl_running ex_relay" "rl_dtls ex_relay" "rl_pending_frames ex_relay = []" "rl_session_id ex_relay = 1"
  by (simp_all add: ex_relay_def rl_start_def rl_new_def rl_do_receive_local_def)

lemma wanted_v4:
  assumes "is_v4 (ep_addr ep)" and "length payload \<le> 65500"
  shows "wanted (ureq_serialize (v4_datagram ep payload)) = [uf_generate_ep ep payload]"
proof -
  have "ureq_parse new_udp_request (ureq_serialize (v4_datagram ep payload)) = Inr (True, v4_datagram ep payload)"
    using ureq_parse_serialize [OF v4_datagram_wf [OF assms(1)], of payload] assms
    by (simp add: length_v4_datagram max_datagram_def)
  moreover have "rl_frame (v4_datagram ep payload) = Inr (uf_generate_ep ep payload)"
    using assms(1)
    by (cases ep; cases "ep_addr ep")
      (simp_all add: rl_frame_def v4_datagram_def ureq_dest_endpoint_def v4_of_bytes_def str_data_def)
  ultimately show ?thesis
    by (simp add: wanted_def)
qed

theorem relay_keeps_order_witness:
  "\<exists>r1 st1 r2 ps r3 st3 qs.
    rl_local_run False [(ex_app, ureq_serialize (v4_datagram ex_dns_server [65])), (ex_app, [0, 0])] ex_relay new_proxy_stats = Inr (r1, st1, []) \<and>
    rl_flush_pending True r1 = (r2, ps) \<and>
    rl_local_run True [(ex_app, ureq_serialize (v4_datagram ex_dns_server [66]))] r2 st1 = Inr (r3, st3, qs) \<and>
    ps @ qs = map (rl_pkt 1) [uf_generate_ep ex_dns_server [65], uf_generate_ep ex_dns_server [66]] \<and>
    rl_pending_frames r3 = []"
proof -
  have v4: "is_v4 (ep_addr ex_dns_server)"
    by (simp add: ex_dns_server_def)
  have len: "\<forall>x \<in> set ([(ex_app, ureq_serialize (v4_datagram ex_dns_server [65])), (ex_app, [0, 0])] @
      [(ex_app, ureq_serialize (v4_datagram ex_dns_server [66]))]). length (snd x) \<le> 65535"
    by (simp add: length_v4_datagram v4)
  have skip: "wanted [0, 0] = []"
    by (simp add: wanted_def short_datagram)
  show ?thesis
    using relay_keeps_order [OF ex_relay_fields(1-3) len, of new_proxy_stats]
    by (simp add: wanted_v4 [OF v4] skip ex_relay_fields)
qed

theorem relay_reply_to_sender_witness:
  "\<exists>r1 st1 ps r2 st2. rl_local_run True [(ex_app, ureq_serialize (v4_datagram ex_dns_server [65])), (ex_dns_server, [0])] ex_relay new_proxy_stats = Inr (r1, st1, ps) \<and>
    rl_on_dtls_data (uf_generate_ep ex_dns_server [66]) r1 st1 =
      Inr (r2, st2, [([0, 0, 0, 1, 8, 8, 8, 8, 0, 53, 66], ex_app)])"
proof -
  have v4: "is_v4 (ep_addr ex_dns_server)"
    by (simp add: ex_dns_server_def)
  have ys: "\<forall>x \<in> set [(ex_dns_server, [0 :: byte])]. length (snd x) \<le> 65535 \<and>
      key_of (snd x) \<noteq> Some (target_key (addr_bytes (ep_addr ex_dns_server)) (ep_port ex_dns_server))"
    by (simp add: key_of_def short_datagram)
  have reply: "ureq_serialize (v4_datagram ex_dns_server [66]) = [0, 0, 0, 1, 8, 8, 8, 8, 0, 53, 66]"
    by (simp add: ureq_serialize_def v4_datagram_def ex_dns_server_def hi8_def lo8_def drop_bit_eq_div)
  show ?thesis
    using relay_reply_to_sender [OF ex_relay_fields(1) v4 _ _ ys, of "[65]" "[66]" True ex_app new_proxy_stats]
    unfolding reply by fastforce
qed

theorem relay_v6_reply_malformed_witness:
  "\<exists>r' st' app q. rl_on_dtls_data (uf_generate_ep \<lparr>ep_addr = Ip6 (replicate 16 1), ep_port = 0\<rparr> [66]) ex_relay new_proxy_stats =
      Inr (r', st', [([0, 0, 0, 6, hi8 0, lo8 0] @ [66], app)]) \<and>
    ureq_parse new_udp_request ([0, 0, 0, 6, hi8 0, lo8 0] @ [66]) = Inr (False, q)"
  using relay_v6_reply_malformed [OF ex_relay_fields(1), of "\<lparr>ep_addr = Ip6 (replicate 16 1), ep_port = 0\<rparr>" "replicate 16 1" "[66]" new_proxy_stats]
  by simp

end
