(* ===== verification/ClientServer.thy ===== *)
theory ClientServer
  imports Asio CText Config UdpRelay
begin

text \<open>
  \<^verbatim>\<open>Client/Server.{h,cpp}\<close>: the client's acceptor, the owner of the shared DTLS channel and the table of
  UDP relays. \<open>relays_\<close> holds raw pointers, so relays live in a heap: a cell records whether the session that
  created the relay still holds its shared pointer, and it is freed when neither that session nor a pending
  receive (whose handler holds another shared pointer) keeps it alive.
\<close>

subsection \<open>Heap of relays\<close>

record relay_cell =
  rc_relay :: udp_relay
  rc_owned :: bool

type_synonym relay_heap = "nat \<Rightarrow> relay_cell option"

definition reclaim :: "nat \<Rightarrow> relay_heap \<Rightarrow> relay_heap" where
  "reclaim p h = (case h p of
     Some cell \<Rightarrow> if \<not> rc_owned cell \<and> \<not> rl_receiving (rc_relay cell) then h(p := None) else h
   | None \<Rightarrow> h)"

definition deref :: "nat \<Rightarrow> relay_heap \<Rightarrow> udp_relay res" where
  "deref p h = (case h p of Some cell \<Rightarrow> Inr (rc_relay cell) | None \<Rightarrow> Inl Dangling)"

definition store :: "nat \<Rightarrow> udp_relay \<Rightarrow> relay_heap \<Rightarrow> relay_heap" where
  "store p r h = (case h p of Some cell \<Rightarrow> h(p \<mapsto> cell\<lparr>rc_relay := r\<rparr>) | None \<Rightarrow> h)"

subsection \<open>Model\<close>

record client_server =
  cs_local_endpoint :: endpoint
  cs_acceptor_open :: bool
  cs_accepting :: "session_kind option"
  cs_useWebSocket :: bool
  cs_dtls :: "dtls_channel option"
  cs_next_session_id :: u16
  cs_relays :: "u16 \<Rightarrow> nat option"
  cs_dtls_ready :: bool
  cs_stopped :: bool

text \<open>\<open>resolve\<close> gives a non-empty list or throws.\<close>

definition cs_new :: "(bytes \<Rightarrow> bytes \<Rightarrow> endpoint list res) \<Rightarrow> client_config \<Rightarrow> bytes \<Rightarrow> bytes \<Rightarrow> client_server res" where
  "cs_new resolve cfg address port =
     rbind (resolve address port) (\<lambda>results. case results of
       [] \<Rightarrow> Inl Oob
     | e # _ \<Rightarrow>
         Inr \<lparr>cs_local_endpoint = e, cs_acceptor_open = False, cs_accepting = None,
              cs_useWebSocket = cc_useWebSocket cfg, cs_dtls = None, cs_next_session_id = 1,
              cs_relays = Map.empty, cs_dtls_ready = False, cs_stopped = False\<rparr>)"

definition do_accept_tls :: "client_server \<Rightarrow> client_server" where
  "do_accept_tls cs = cs\<lparr>cs_accepting := Some Tls\<rparr>"

definition do_accept_ws :: "client_server \<Rightarrow> client_server" where
  "do_accept_ws cs = cs\<lparr>cs_accepting := Some Websocket\<rparr>"

definition cs_do_accept :: "client_server \<Rightarrow> client_server" where
  "cs_do_accept cs = (if cs_useWebSocket cs then do_accept_ws cs else do_accept_tls cs)"

text \<open>The posted body; \<open>open\<close>, \<open>bind\<close> and \<open>listen\<close> throw when they fail.\<close>

definition cs_start_accept :: "bool \<Rightarrow> client_server \<Rightarrow> client_server res" where
  "cs_start_accept bind_ok cs =
     (let cs = cs\<lparr>cs_acceptor_open := True\<rparr> in
      if \<not> bind_ok then Inl Runtime_error else Inr (cs_do_accept cs))"

text \<open>The completion of an accept: the session of the pending accept is started and counted. The result says
  whether it was.\<close>

definition on_accept_tls :: "errc option \<Rightarrow> client_server \<Rightarrow> proxy_stats \<Rightarrow> client_server \<times> proxy_stats \<times> bool" where
  "on_accept_tls ec cs st =
     (let cs = cs\<lparr>cs_accepting := None\<rparr> in
      if \<not> cs_acceptor_open cs then (cs, st, False)
      else if ec = Some Aborted then (cs, st, False)
      else if ec = None then (do_accept_tls cs, sessionCreated st, True)
      else (do_accept_tls cs, st, False))"

definition on_accept_ws :: "errc option \<Rightarrow> client_server \<Rightarrow> proxy_stats \<Rightarrow> client_server \<times> proxy_stats \<times> bool" where
  "on_accept_ws ec cs st =
     (let cs = cs\<lparr>cs_accepting := None\<rparr> in
      if \<not> cs_acceptor_open cs then (cs, st, False)
      else if ec = Some Aborted then (cs, st, False)
      else if ec = None then (do_accept_ws cs, sessionCreated st, True)
      else (do_accept_ws cs, st, False))"

definition cs_on_accept ::
    "session_kind \<Rightarrow> errc option \<Rightarrow> client_server \<Rightarrow> proxy_stats \<Rightarrow> client_server \<times> proxy_stats \<times> bool" where
  "cs_on_accept kind ec cs st = (case kind of
     Tls \<Rightarrow> on_accept_tls ec cs st | Websocket \<Rightarrow> on_accept_ws ec cs st)"

text \<open>The bodies posted by \<open>stop_accept\<close> and \<open>stop_dtls\<close>, and \<open>stop\<close>.\<close>

definition cs_stop_accept :: "client_server \<Rightarrow> client_server" where
  "cs_stop_accept cs = (if cs_acceptor_open cs then cs\<lparr>cs_acceptor_open := False\<rparr> else cs)"

definition cs_stop_dtls :: "client_server \<Rightarrow> client_server" where
  "cs_stop_dtls cs =
     (let cs = (case cs_dtls cs of Some c \<Rightarrow> cs\<lparr>cs_dtls := None\<rparr> | None \<Rightarrow> cs)
      in cs\<lparr>cs_dtls_ready := False\<rparr>)"

definition cs_stop :: "client_server \<Rightarrow> client_server" where
  "cs_stop cs = cs\<lparr>cs_stopped := True\<rparr>"

definition start_dtls ::
    "(bytes \<Rightarrow> ip_addr option) \<Rightarrow> bool \<Rightarrow> bool \<Rightarrow> client_config \<Rightarrow> client_server \<Rightarrow> client_server res" where
  "start_dtls make_address ctx_ok ssl_ok cfg cs =
     (if \<not> cc_udp_enabled cfg then Inr cs
      else
        rbind (stoi (if cc_dtls_port cfg = [] then cc_remote_port cfg else cc_dtls_port cfg)) (\<lambda>n.
        rbind (ch_new make_address ctx_ok ssl_ok (cc_remote_addr cfg) (word_of_int n) (cc_text_password cfg)) (\<lambda>c.
          Inr (cs\<lparr>cs_dtls := Some (ch_start c)\<rparr>))))"

definition has_dtls :: "client_server \<Rightarrow> bool" where
  "has_dtls cs \<longleftrightarrow> cs_dtls cs \<noteq> None"

definition allocate_session_id :: "client_server \<Rightarrow> u16 \<times> client_server" where
  "allocate_session_id cs = (cs_next_session_id cs, cs\<lparr>cs_next_session_id := cs_next_session_id cs + 1\<rparr>)"

definition register_relay :: "u16 \<Rightarrow> nat \<Rightarrow> client_server \<Rightarrow> client_server" where
  "register_relay sid p cs = cs\<lparr>cs_relays := (cs_relays cs)(sid \<mapsto> p)\<rparr>"

definition unregister_relay :: "u16 \<Rightarrow> client_server \<Rightarrow> client_server" where
  "unregister_relay sid cs = cs\<lparr>cs_relays := (cs_relays cs)(sid := None)\<rparr>"

text \<open>The success callback: all relays are flushed, in the unspecified order in which the hash table is walked.
  The packets go to the channel.\<close>

fun flush_relays :: "bool \<Rightarrow> u16 list \<Rightarrow> client_server \<Rightarrow> relay_heap \<Rightarrow> (relay_heap \<times> bytes list) res" where
  "flush_relays ready [] cs h = Inr (h, [])"
| "flush_relays ready (sid # sids) cs h = (case cs_relays cs sid of
     None \<Rightarrow> Inl Oob
   | Some p \<Rightarrow>
       rbind (deref p h) (\<lambda>r. let (r', ps) = rl_flush_pending ready r in
       rbind (flush_relays ready sids cs (store p r' h)) (\<lambda>(h, qs). Inr (h, ps @ qs))))"

definition cs_ready :: "client_server \<Rightarrow> bool" where
  "cs_ready cs = (case cs_dtls cs of Some c \<Rightarrow> is_ready c | None \<Rightarrow> False)"

definition cs_on_handshake ::
    "u16 list \<Rightarrow> bool \<Rightarrow> client_server \<Rightarrow> relay_heap \<Rightarrow> (client_server \<times> relay_heap \<times> bytes list) res" where
  "cs_on_handshake order ok cs h =
     (if ok then
        let cs = cs\<lparr>cs_dtls_ready := True\<rparr> in
        rbind (flush_relays (cs_ready cs) order cs h) (\<lambda>(h, ps). Inr (cs, h, ps))
      else Inr (cs, h, []))"

text \<open>A record from the server: the relay named by the first two bytes gets the rest.\<close>

definition cs_on_dtls_data ::
    "bytes \<Rightarrow> client_server \<Rightarrow> relay_heap \<Rightarrow> proxy_stats \<Rightarrow> (relay_heap \<times> proxy_stats \<times> (bytes \<times> endpoint) list) res" where
  "cs_on_dtls_data data cs h st =
     (if length data < 2 then Inr (h, st, [])
      else
        let sid = be16 (data ! 0) (data ! 1) in
        case cs_relays cs sid of
          Some p \<Rightarrow>
            rbind (deref p h) (\<lambda>r.
            rbind (rl_on_dtls_data (drop 2 data) r st) (\<lambda>(r', st, out). Inr (store p r' h, st, out)))
        | None \<Rightarrow> Inr (h, st, []))"

subsection \<open>Session ids\<close>

fun allocate_many :: "nat \<Rightarrow> client_server \<Rightarrow> u16 list \<times> client_server" where
  "allocate_many 0 cs = ([], cs)"
| "allocate_many (Suc n) cs =
     (let (i, cs) = allocate_session_id cs; (is, cs) = allocate_many n cs in (i # is, cs))"

lemma allocate_many_eq:
  "allocate_many n cs = (map (\<lambda>k. cs_next_session_id cs + of_nat k) [0..<n],
     cs\<lparr>cs_next_session_id := cs_next_session_id cs + of_nat n\<rparr>)"
  by (induction n arbitrary: cs)
    (simp_all add: allocate_session_id_def upt_conv_Cons map_Suc_upt [symmetric] add.assoc del: upt_Suc)

lemma ids_inj:
  assumes "j < 2 ^ 16" "k < 2 ^ 16" "(i :: u16) + of_nat j = i + of_nat k"
  shows "j = k"
proof -
  have "(of_nat j :: u16) = of_nat k"
    using assms(3) by simp
  then show ?thesis
    using assms(1,2) by (simp add: word_of_nat_eq_iff take_bit_nat_eq_self)
qed

end
