(* ===== verification/ClientSession.thy ===== *)
theory ClientSession
  imports ClientServer Socks5 Http VRequest
begin

text \<open>
  \<^verbatim>\<open>Client/Session.{h,cpp}\<close>: one connection of a local application. The session speaks SOCKS5 or HTTP CONNECT
  with the application, opens a TLS or WebSocket connection to the proxy server, sends the V request and then
  copies bytes both ways; or it sets up a UDP association. As for the server's sessions, an operation that was
  started is an element of \<open>cl_pending\<close> until its handler runs. Handlers also change what the session shares
  with others: the server object, the heap of relays and the statistics.
\<close>

subsection \<open>Model\<close>

datatype client_op =
    Cl_greeting
  | Cl_write_auth bytes
  | Cl_read_request
  | Cl_read_line bytes
  | Cl_write_http bytes
  | Cl_resolve bytes bytes
  | Cl_connect endpoint
  | Cl_ssl_handshake
  | Cl_ws_handshake bytes
  | Cl_write_vreq bytes
  | Cl_write_reply bytes
  | Cl_write_assoc bytes
  | Cl_read_control
  | Cl_read_local
  | Cl_read_server
  | Cl_write_server bytes
  | Cl_write_local bytes

datatype client_state = C_HANDSHAKE | C_FORWARD

definition CLIENT_BUFF_SIZE :: nat where
  "CLIENT_BUFF_SIZE = 64 * 1024"

record client_session =
  cl_kind :: session_kind
  cl_remote_host :: bytes
  cl_remote_port :: bytes
  cl_user_name :: bytes
  cl_password :: bytes
  cl_in_buf :: bytes
  cl_out_buf :: bytes
  cl_message_buf :: bytes
  cl_socks5_req :: socks_request
  cl_http_req :: http_request
  cl_state :: client_state
  cl_response_sent :: bool
  cl_destroyed :: bool
  cl_udp_relay :: "nat option"
  cl_session_id :: u16
  cl_in_open :: bool
  cl_out_open :: bool
  cl_peer :: "endpoint option"
  cl_pending :: "client_op list"

text \<open>What the session shares with the rest of the client.\<close>

record client_ctx =
  cx_server :: client_server
  cx_heap :: relay_heap
  cx_stats :: proxy_stats

text \<open>What a handler gets from the system synchronously: whether a blocking write succeeds, the address of a new
  relay and the port its socket is bound to.\<close>

record client_input =
  in_write_ok :: bool
  in_addr :: nat
  in_port :: u16

definition new_socks_request :: socks_request where
  "new_socks_request = \<lparr>sq_version = 0, sq_cmd = 0, sq_reserved = 0, sq_addrType = 0, sq_remote_host = [], sq_remote_port = 0\<rparr>"

definition new_auth_req :: auth_req where
  "new_auth_req = \<lparr>aq_version = 0, aq_nmethod = 0, aq_methods = []\<rparr>"

definition new_vrequest :: vrequest where
  "new_vrequest = \<lparr>vr_version = 0, vr_len = 0, vr_user_name = [], vr_password = [], vr_address = [], vr_port = 0,
     vr_packed_buff = []\<rparr>"

definition cl_new :: "session_kind \<Rightarrow> client_config \<Rightarrow> client_session" where
  "cl_new kind config =
     \<lparr>cl_kind = kind, cl_remote_host = cc_remote_addr config, cl_remote_port = cc_remote_port config,
      cl_user_name = cc_user_name config, cl_password = cc_password config,
      cl_in_buf = replicate CLIENT_BUFF_SIZE 0, cl_out_buf = replicate CLIENT_BUFF_SIZE 0, cl_message_buf = [],
      cl_socks5_req = new_socks_request, cl_http_req = new_http_request, cl_state = C_HANDSHAKE,
      cl_response_sent = False, cl_destroyed = False, cl_udp_relay = None, cl_session_id = 0,
      cl_in_open = True, cl_out_open = False, cl_peer = None, cl_pending = []\<rparr>"

definition cl_start_op :: "client_op \<Rightarrow> client_session \<Rightarrow> client_session" where
  "cl_start_op p s = s\<lparr>cl_pending := cl_pending s @ [p]\<rparr>"

definition cl_start :: "client_session \<Rightarrow> client_session" where
  "cl_start s = cl_start_op Cl_greeting s"

subsection \<open>Destroy\<close>

text \<open>The overrides of \<open>destroy_out_socket\<close> close the raw socket below their TLS or WebSocket stream.\<close>

definition tls_destroy_out_socket :: "client_session \<Rightarrow> client_session" where
  "tls_destroy_out_socket s = (if cl_out_open s then s\<lparr>cl_out_open := False\<rparr> else s)"

definition ws_destroy_out_socket :: "client_session \<Rightarrow> client_session" where
  "ws_destroy_out_socket s = (if cl_out_open s then s\<lparr>cl_out_open := False\<rparr> else s)"

definition destroy_out_socket :: "client_session \<Rightarrow> client_session" where
  "destroy_out_socket s = (case cl_kind s of
     Tls \<Rightarrow> tls_destroy_out_socket s | Websocket \<Rightarrow> ws_destroy_out_socket s)"

text \<open>\<open>udp_relay_->stop()\<close> and \<open>reset()\<close>.\<close>

definition release_relay :: "nat \<Rightarrow> relay_heap \<Rightarrow> relay_heap" where
  "release_relay p h = (case h p of
     Some cell \<Rightarrow> reclaim p (h(p \<mapsto> cell\<lparr>rc_relay := rl_stop (rc_relay cell), rc_owned := False\<rparr>))
   | None \<Rightarrow> h)"

definition cl_destroy :: "client_session \<times> client_ctx \<Rightarrow> client_session \<times> client_ctx" where
  "cl_destroy = (\<lambda>(s, cx).
     if cl_destroyed s then (s, cx)
     else
       let s = s\<lparr>cl_destroyed := True\<rparr>;
           cx = cx\<lparr>cx_stats := sessionDestroyed (cx_stats cx)\<rparr>;
           s = (if cl_in_open s then s\<lparr>cl_in_open := False\<rparr> else s);
           s = destroy_out_socket s;
           cx = (if cl_session_id s \<noteq> 0 then cx\<lparr>cx_server := unregister_relay (cl_session_id s) (cx_server cx)\<rparr> else cx)
       in case cl_udp_relay s of
            Some p \<Rightarrow> (s\<lparr>cl_udp_relay := None\<rparr>, cx\<lparr>cx_heap := release_relay p (cx_heap cx)\<rparr>)
          | None \<Rightarrow> (s, cx))"

subsection \<open>Forwarding\<close>

definition read_packet :: "nat \<Rightarrow> client_session \<Rightarrow> client_session" where
  "read_packet direction s =
     (let s = (if odd direction then cl_start_op Cl_read_local s else s)
      in if odd (direction div 2) then cl_start_op Cl_read_server s else s)"

definition write_packet :: "nat \<Rightarrow> nat \<Rightarrow> client_session \<Rightarrow> client_session" where
  "write_packet direction len s =
     (if direction = 1 then cl_start_op (Cl_write_server (take len (cl_in_buf s))) s
      else if direction = 2 then cl_start_op (Cl_write_local (take len (cl_out_buf s))) s
      else s)"

definition on_read_local :: "completion \<Rightarrow> client_session \<times> client_ctx \<Rightarrow> client_session \<times> client_ctx" where
  "on_read_local c = (\<lambda>(s, cx). case c of
     Data d \<Rightarrow>
       (write_packet 1 (length d) (s\<lparr>cl_in_buf := fill (cl_in_buf s) d\<rparr>),
        cx\<lparr>cx_stats := addUpstreamDelta (of_nat (length d)) (cx_stats cx)\<rparr>)
   | _ \<Rightarrow> cl_destroy (s, cx))"

definition on_read_server :: "completion \<Rightarrow> client_session \<times> client_ctx \<Rightarrow> client_session \<times> client_ctx" where
  "on_read_server c = (\<lambda>(s, cx). case c of
     Data d \<Rightarrow>
       (write_packet 2 (length d) (s\<lparr>cl_out_buf := fill (cl_out_buf s) d\<rparr>),
        cx\<lparr>cx_stats := addDownstreamDelta (of_nat (length d)) (cx_stats cx)\<rparr>)
   | _ \<Rightarrow> cl_destroy (s, cx))"

definition on_write_server :: "completion \<Rightarrow> client_session \<times> client_ctx \<Rightarrow> client_session \<times> client_ctx" where
  "on_write_server c = (\<lambda>(s, cx). case c of Sent n \<Rightarrow> (read_packet 1 s, cx) | _ \<Rightarrow> cl_destroy (s, cx))"

definition on_write_local :: "completion \<Rightarrow> client_session \<times> client_ctx \<Rightarrow> client_session \<times> client_ctx" where
  "on_write_local c = (\<lambda>(s, cx). case c of Sent n \<Rightarrow> (read_packet 2 s, cx) | _ \<Rightarrow> cl_destroy (s, cx))"

subsection \<open>Opening the connection to the server\<close>

text \<open>\<open>to_v4\<close> throws \<open>bad_address_cast\<close> for an IPv6 peer; \<open>remote_endpoint\<close> throws when there is none.\<close>

definition write_socks5_response :: "client_session \<Rightarrow> client_session res" where
  "write_socks5_response s = (case cl_peer s of
     None \<Rightarrow> Inl Runtime_error
   | Some ep \<Rightarrow>
       if \<not> is_v4 (ep_addr ep) then Inl Bad_cast
       else
         let reply = \<lparr>rp_version = 0x05, rp_repResult = 0x00, rp_reserved = 0x00, rp_addrtype = ATYP_V4,
                      rp_realRemoteIP = v4_to_uint (ep_addr ep), rp_realRemotePort = ep_port ep\<rparr>;
             s = s\<lparr>cl_message_buf := reply_stream reply []\<rparr>
         in Inr (cl_start_op (Cl_write_reply (cl_message_buf s)) s))"

definition on_write_reply :: "completion \<Rightarrow> client_session \<times> client_ctx \<Rightarrow> client_session \<times> client_ctx" where
  "on_write_reply c = (\<lambda>(s, cx). case c of
     Sent n \<Rightarrow> (read_packet 3 (s\<lparr>cl_state := C_FORWARD\<rparr>), cx)
   | _ \<Rightarrow> cl_destroy (s, cx))"

definition do_sent_v_req :: "client_session \<Rightarrow> client_session" where
  "do_sent_v_req s =
     (let request = new_vrequest\<lparr>vr_version := 0x01, vr_user_name := cl_user_name s, vr_password := cl_password s,
                      vr_address := sq_remote_host (cl_socks5_req s), vr_port := sq_remote_port (cl_socks5_req s)\<rparr>;
          s = s\<lparr>cl_message_buf := snd (vr_stream request [])\<rparr>
      in cl_start_op (Cl_write_vreq (cl_message_buf s)) s)"

definition on_write_vreq :: "completion \<Rightarrow> client_session \<times> client_ctx \<Rightarrow> (client_session \<times> client_ctx) res" where
  "on_write_vreq c = (\<lambda>(s, cx). case c of
     Sent n \<Rightarrow>
       let s = s\<lparr>cl_state := C_FORWARD\<rparr> in
       if cl_response_sent s then Inr (read_packet 3 s, cx)
       else rbind (write_socks5_response s) (\<lambda>s. Inr (s, cx))
   | _ \<Rightarrow> Inr (cl_destroy (s, cx)))"

definition tls_after_ssl_handshake :: "client_session \<Rightarrow> client_session" where
  "tls_after_ssl_handshake s = do_sent_v_req s"

definition do_ws_handshake :: "client_session \<Rightarrow> client_session" where
  "do_ws_handshake s = cl_start_op (Cl_ws_handshake (cl_remote_host s)) s"

definition on_ws_handshake :: "completion \<Rightarrow> client_session \<times> client_ctx \<Rightarrow> client_session \<times> client_ctx" where
  "on_ws_handshake c = (\<lambda>(s, cx). case c of Done \<Rightarrow> (do_sent_v_req s, cx) | _ \<Rightarrow> cl_destroy (s, cx))"

definition ws_after_ssl_handshake :: "client_session \<Rightarrow> client_session" where
  "ws_after_ssl_handshake s = do_ws_handshake s"

definition after_ssl_handshake :: "client_session \<Rightarrow> client_session" where
  "after_ssl_handshake s = (case cl_kind s of
     Tls \<Rightarrow> tls_after_ssl_handshake s | Websocket \<Rightarrow> ws_after_ssl_handshake s)"

definition tls_perform_ssl_handshake :: "client_session \<Rightarrow> client_session" where
  "tls_perform_ssl_handshake s = cl_start_op Cl_ssl_handshake s"

definition ws_perform_ssl_handshake :: "client_session \<Rightarrow> client_session" where
  "ws_perform_ssl_handshake s = cl_start_op Cl_ssl_handshake s"

definition do_ssl_handshake :: "client_session \<Rightarrow> client_session" where
  "do_ssl_handshake s = (case cl_kind s of
     Tls \<Rightarrow> tls_perform_ssl_handshake s | Websocket \<Rightarrow> ws_perform_ssl_handshake s)"

definition on_ssl_handshake :: "completion \<Rightarrow> client_session \<times> client_ctx \<Rightarrow> client_session \<times> client_ctx" where
  "on_ssl_handshake c = (\<lambda>(s, cx). case c of Done \<Rightarrow> (after_ssl_handshake s, cx) | _ \<Rightarrow> cl_destroy (s, cx))"

text \<open>\<open>async_connect\<close> opens the socket.\<close>

definition cl_do_connect :: "endpoint \<Rightarrow> client_session \<Rightarrow> client_session" where
  "cl_do_connect ep s = cl_start_op (Cl_connect ep) (s\<lparr>cl_out_open := True\<rparr>)"

definition cl_on_connect :: "endpoint \<Rightarrow> completion \<Rightarrow> client_session \<times> client_ctx \<Rightarrow> client_session \<times> client_ctx" where
  "cl_on_connect ep c = (\<lambda>(s, cx). case c of
     Done \<Rightarrow> (do_ssl_handshake (s\<lparr>cl_peer := Some ep\<rparr>), cx)
   | _ \<Rightarrow> cl_destroy (s, cx))"

definition cl_do_resolve :: "client_session \<Rightarrow> client_session" where
  "cl_do_resolve s = cl_start_op (Cl_resolve (cl_remote_host s) (cl_remote_port s)) s"

definition cl_on_resolve :: "completion \<Rightarrow> client_session \<times> client_ctx \<Rightarrow> client_session \<times> client_ctx" where
  "cl_on_resolve c = (\<lambda>(s, cx). case c of
     Results (ep # _) \<Rightarrow> (cl_do_connect ep s, cx)
   | _ \<Rightarrow> cl_destroy (s, cx))"

subsection \<open>UDP association\<close>

definition do_read_control :: "client_session \<Rightarrow> client_session" where
  "do_read_control s = cl_start_op Cl_read_control s"

definition on_read_control :: "completion \<Rightarrow> client_session \<times> client_ctx \<Rightarrow> client_session \<times> client_ctx" where
  "on_read_control c = (\<lambda>(s, cx). case c of Data d \<Rightarrow> (do_read_control s, cx) | _ \<Rightarrow> cl_destroy (s, cx))"

text \<open>A refusal is written with a blocking \<open>write\<close>, which throws when it fails.\<close>

definition assoc_refused :: "bool \<Rightarrow> client_session \<times> client_ctx \<Rightarrow> (client_session \<times> client_ctx) res" where
  "assoc_refused write_ok = (\<lambda>(s, cx).
     let reply = \<lparr>rp_version = 0x05, rp_repResult = 0x02, rp_reserved = 0x00, rp_addrtype = ATYP_V4,
                  rp_realRemoteIP = 0, rp_realRemotePort = 0\<rparr>;
         s = s\<lparr>cl_message_buf := reply_stream reply []\<rparr>
     in if \<not> write_ok then Inl Runtime_error else Inr (cl_destroy (s, cx)))"

definition do_handle_socks5_udp_associate ::
    "client_input \<Rightarrow> client_session \<times> client_ctx \<Rightarrow> (client_session \<times> client_ctx) res" where
  "do_handle_socks5_udp_associate inp = (\<lambda>(s, cx).
     if \<not> has_dtls (cx_server cx) then assoc_refused (in_write_ok inp) (s, cx)
     else
       let (sid, srv) = allocate_session_id (cx_server cx);
           (ok, local_port, relay) = rl_start sid (rl_new (in_port inp));
           s = s\<lparr>cl_session_id := sid, cl_udp_relay := Some (in_addr inp)\<rparr>;
           cx = cx\<lparr>cx_heap := (cx_heap cx)(in_addr inp \<mapsto> \<lparr>rc_relay = relay, rc_owned = True\<rparr>), cx_server := srv\<rparr>
       in if \<not> ok then Inr (cl_destroy (s, cx\<lparr>cx_server := unregister_relay sid (cx_server cx)\<rparr>))
          else
            let cx = cx\<lparr>cx_server := register_relay sid (in_addr inp) (cx_server cx)\<rparr>;
                reply = \<lparr>rp_version = 0x05, rp_repResult = 0x00, rp_reserved = 0x00, rp_addrtype = ATYP_V4,
                         rp_realRemoteIP = 0x7f000001, rp_realRemotePort = local_port\<rparr>;
                s = s\<lparr>cl_message_buf := reply_stream reply []\<rparr>
            in Inr (cl_start_op (Cl_write_assoc (cl_message_buf s)) s, cx))"

definition on_write_assoc :: "completion \<Rightarrow> client_session \<times> client_ctx \<Rightarrow> client_session \<times> client_ctx" where
  "on_write_assoc c = (\<lambda>(s, cx). case c of Sent n \<Rightarrow> (do_read_control s, cx) | _ \<Rightarrow> cl_destroy (s, cx))"

subsection \<open>SOCKS5 and HTTP\<close>

definition read_socks5_request :: "client_session \<Rightarrow> client_session" where
  "read_socks5_request s = cl_start_op Cl_read_request s"

definition on_read_request ::
    "(ip_addr \<Rightarrow> bytes) \<Rightarrow> bool \<Rightarrow> client_input \<Rightarrow> completion \<Rightarrow> client_session \<times> client_ctx \<Rightarrow> (client_session \<times> client_ctx) res" where
  "on_read_request to_string udp_enabled inp c = (\<lambda>(s, cx). case c of
     Data d \<Rightarrow>
       let s = s\<lparr>cl_in_buf := fill (cl_in_buf s) d\<rparr> in
       rbind (sreq_unsteam to_string (cl_socks5_req s) (cl_in_buf s) (length d)) (\<lambda>(ok, q).
         let s = s\<lparr>cl_socks5_req := q\<rparr> in
         if \<not> ok then Inr (cl_destroy (s, cx))
         else if sq_cmd q = CMD_UDP_ASSOCIATE then
           (if \<not> udp_enabled then assoc_refused (in_write_ok inp) (s, cx)
            else do_handle_socks5_udp_associate inp (s, cx))
         else Inr (cl_do_resolve s, cx))
   | _ \<Rightarrow> Inr (cl_destroy (s, cx)))"

definition write_sock5_hanshake_reply :: "auth_req \<Rightarrow> client_session \<times> client_ctx \<Rightarrow> client_session \<times> client_ctx" where
  "write_sock5_hanshake_reply req = (\<lambda>(s, cx).
     if NO_AUTHENTICATION \<notin> set (aq_methods req) then cl_destroy (s, cx)
     else
       let authRes = \<lparr>as_version = 0x05, as_method = NO_AUTHENTICATION\<rparr>;
           s = s\<lparr>cl_message_buf := auth_res_stream authRes (cl_message_buf s)\<rparr>
       in (cl_start_op (Cl_write_auth (cl_message_buf s)) s, cx))"

definition on_write_auth :: "completion \<Rightarrow> client_session \<times> client_ctx \<Rightarrow> client_session \<times> client_ctx" where
  "on_write_auth c = (\<lambda>(s, cx). case c of
     Sent n \<Rightarrow> if cl_in_buf s ! 1 = 0xFF then cl_destroy (s, cx) else (read_socks5_request s, cx)
   | _ \<Rightarrow> cl_destroy (s, cx))"

definition write_http_connect_response :: "client_session \<Rightarrow> client_session" where
  "write_http_connect_response s =
     (let s = s\<lparr>cl_response_sent := True, cl_message_buf := http_ok []\<rparr>
      in cl_start_op (Cl_write_http (cl_message_buf s)) s)"

definition on_write_http :: "completion \<Rightarrow> client_session \<times> client_ctx \<Rightarrow> client_session \<times> client_ctx" where
  "on_write_http c = (\<lambda>(s, cx). case c of Sent n \<Rightarrow> (cl_do_resolve s, cx) | _ \<Rightarrow> cl_destroy (s, cx))"

text \<open>\<open>async_read_until\<close> completes with \<open>Data d\<close> after appending \<open>d\<close> to the buffer, at once with
  \<open>d = []\<close> when the delimiter is already there.\<close>

definition http_connect_handshake :: "bytes \<Rightarrow> client_session \<Rightarrow> client_session" where
  "http_connect_handshake initial s = cl_start_op (Cl_read_line initial) s"

definition on_read_line ::
    "bytes \<Rightarrow> completion \<Rightarrow> client_session \<times> client_ctx \<Rightarrow> (client_session \<times> client_ctx) res" where
  "on_read_line initial c = (\<lambda>(s, cx). case c of
     Data d \<Rightarrow>
       rbind (hr_unstream (cl_http_req s) (initial @ d)) (\<lambda>(ok, q).
         let s = s\<lparr>cl_http_req := q\<rparr> in
         if \<not> ok then Inr (cl_destroy (s, cx))
         else
           let s = s\<lparr>cl_socks5_req := (cl_socks5_req s)\<lparr>sq_remote_host := hr_host q, sq_remote_port := hr_port q\<rparr>\<rparr>
           in Inr (write_http_connect_response s, cx))
   | _ \<Rightarrow> Inr (cl_destroy (s, cx)))"

definition on_greeting :: "completion \<Rightarrow> client_session \<times> client_ctx \<Rightarrow> (client_session \<times> client_ctx) res" where
  "on_greeting c = (\<lambda>(s, cx). case c of
     Data d \<Rightarrow>
       let s = s\<lparr>cl_in_buf := fill (cl_in_buf s) d\<rparr> in
       if cl_in_buf s ! 0 = 0x05 then
         rbind (auth_unstream new_auth_req (cl_in_buf s)) (\<lambda>(ok, auth_req).
           if \<not> ok then Inr (cl_destroy (s, cx)) else Inr (write_sock5_hanshake_reply auth_req (s, cx)))
       else if cl_in_buf s ! 0 = 67 \<or> cl_in_buf s ! 0 = 99 then
         Inr (http_connect_handshake (take (length d) (cl_in_buf s)) s, cx)
       else Inr (cl_destroy (s, cx))
   | _ \<Rightarrow> Inr (cl_destroy (s, cx)))"

subsection \<open>Completions\<close>

record client_env =
  env_to_string :: "ip_addr \<Rightarrow> bytes"
  env_udp_enabled :: bool

fun cl_complete ::
    "client_env \<Rightarrow> client_input \<Rightarrow> client_op \<Rightarrow> completion \<Rightarrow> client_session \<times> client_ctx \<Rightarrow> (client_session \<times> client_ctx) res" where
  "cl_complete env inp Cl_greeting c x = on_greeting c x"
| "cl_complete env inp (Cl_write_auth b) c x = Inr (on_write_auth c x)"
| "cl_complete env inp Cl_read_request c x = on_read_request (env_to_string env) (env_udp_enabled env) inp c x"
| "cl_complete env inp (Cl_read_line b) c x = on_read_line b c x"
| "cl_complete env inp (Cl_write_http b) c x = Inr (on_write_http c x)"
| "cl_complete env inp (Cl_resolve h p) c x = Inr (cl_on_resolve c x)"
| "cl_complete env inp (Cl_connect ep) c x = Inr (cl_on_connect ep c x)"
| "cl_complete env inp Cl_ssl_handshake c x = Inr (on_ssl_handshake c x)"
| "cl_complete env inp (Cl_ws_handshake h) c x = Inr (on_ws_handshake c x)"
| "cl_complete env inp (Cl_write_vreq b) c x = on_write_vreq c x"
| "cl_complete env inp (Cl_write_reply b) c x = Inr (on_write_reply c x)"
| "cl_complete env inp (Cl_write_assoc b) c x = Inr (on_write_assoc c x)"
| "cl_complete env inp Cl_read_control c x = Inr (on_read_control c x)"
| "cl_complete env inp Cl_read_local c x = Inr (on_read_local c x)"
| "cl_complete env inp Cl_read_server c x = Inr (on_read_server c x)"
| "cl_complete env inp (Cl_write_server b) c x = Inr (on_write_server c x)"
| "cl_complete env inp (Cl_write_local b) c x = Inr (on_write_local c x)"

text \<open>Which outcomes an operation can have.\<close>

fun cl_fits :: "client_op \<Rightarrow> completion \<Rightarrow> bool" where
  "cl_fits p (Error e) = True"
| "cl_fits p Done = (case p of Cl_connect _ \<Rightarrow> True | Cl_ssl_handshake \<Rightarrow> True | Cl_ws_handshake _ \<Rightarrow> True | _ \<Rightarrow> False)"
| "cl_fits p (Data d) = (case p of
     Cl_greeting \<Rightarrow> length d \<le> CLIENT_BUFF_SIZE | Cl_read_request \<Rightarrow> length d \<le> CLIENT_BUFF_SIZE
   | Cl_read_local \<Rightarrow> length d \<le> CLIENT_BUFF_SIZE | Cl_read_server \<Rightarrow> length d \<le> CLIENT_BUFF_SIZE
   | Cl_read_control \<Rightarrow> length d \<le> 128
   | Cl_read_line b \<Rightarrow> find_str crlf (b @ d) \<noteq> None
   | _ \<Rightarrow> False)"
| "cl_fits p (Sent n) = (case p of
     Cl_write_auth b \<Rightarrow> n = length b | Cl_write_http b \<Rightarrow> n = length b | Cl_write_vreq b \<Rightarrow> n = length b
   | Cl_write_reply b \<Rightarrow> n = length b | Cl_write_assoc b \<Rightarrow> n = length b
   | Cl_write_server b \<Rightarrow> n = length b | Cl_write_local b \<Rightarrow> n = length b | _ \<Rightarrow> False)"
| "cl_fits p (Results es) = (case p of Cl_resolve _ _ \<Rightarrow> True | _ \<Rightarrow> False)"

definition cl_finish :: "client_op \<Rightarrow> client_session \<Rightarrow> client_session" where
  "cl_finish p s = s\<lparr>cl_pending := remove1 p (cl_pending s)\<rparr>"

end
