(* ===== verification/ClientRelay.thy ===== *)
theory ClientRelay
  imports ClientSession "HOL-Library.Sublist"
begin

text \<open>
  What a client session guarantees over every interleaving of its completions: everything it sends to the server
  is the V request for the target the application asked for, followed by the application's bytes; each direction
  of the relay copies bytes without loss, duplication or reordering, with one operation outstanding.
\<close>

subsection \<open>One direction of a copying relay\<close>

text \<open>A direction of a relay reads into a buffer, then writes what it read, then reads again. \<open>payload\<close> gives
  the bytes of a write of this direction.\<close>

definition received :: "'op \<Rightarrow> ('op \<times> completion) list \<Rightarrow> bytes" where
  "received rd tr = concat (map (\<lambda>(p, c). case c of Data d \<Rightarrow> if p = rd then d else [] | _ \<Rightarrow> []) tr)"

definition delivered :: "('op \<Rightarrow> bytes option) \<Rightarrow> ('op \<times> completion) list \<Rightarrow> bytes" where
  "delivered payload tr = concat (map (\<lambda>(p, c). case c of
     Sent n \<Rightarrow> (case payload p of Some b \<Rightarrow> take n b | None \<Rightarrow> []) | _ \<Rightarrow> []) tr)"

lemma received_snoc [simp]:
  "received rd [] = []"
  "received rd (tr @ [(p, c)]) = received rd tr @ (case c of Data d \<Rightarrow> if p = rd then d else [] | _ \<Rightarrow> [])"
  by (simp_all add: received_def)

lemma delivered_snoc [simp]:
  "delivered payload [] = []"
  "delivered payload (tr @ [(p, c)]) = delivered payload tr @
     (case c of Sent n \<Rightarrow> (case payload p of Some b \<Rightarrow> take n b | None \<Rightarrow> []) | _ \<Rightarrow> [])"
  by (simp_all add: delivered_def)

locale pump =
  fixes rd :: 'op and payload :: "'op \<Rightarrow> bytes option"
  assumes read_no_payload: "payload rd = None"
begin

definition belongs :: "'op \<Rightarrow> bool" where
  "belongs p \<longleftrightarrow> p = rd \<or> payload p \<noteq> None"

definition inflight :: "'op \<Rightarrow> bytes" where
  "inflight p = (case payload p of Some b \<Rightarrow> b | None \<Rightarrow> [])"

text \<open>At most one operation of the direction is outstanding; what was read is what was written, then what is in
  flight. With none outstanding, what was written is a beginning of what was read.\<close>

definition pump_ok :: "'op list \<Rightarrow> ('op \<times> completion) list \<Rightarrow> bool" where
  "pump_ok ops tr \<longleftrightarrow>
     (filter belongs ops = [] \<and> prefix (delivered payload tr) (received rd tr)) \<or>
     (\<exists>a. filter belongs ops = [a] \<and> received rd tr = delivered payload tr @ inflight a)"

lemma pump_init: "filter belongs ops = [] \<Longrightarrow> pump_ok ops []"
  by (simp add: pump_ok_def)

lemma pump_foreign:
  assumes "pump_ok ops tr" and "\<not> belongs p" and "filter belongs ops' = filter belongs ops"
  shows "pump_ok ops' (tr @ [(p, c)])"
proof -
  have "received rd (tr @ [(p, c)]) = received rd tr" "delivered payload (tr @ [(p, c)]) = delivered payload tr"
    using assms(2) by (auto simp: belongs_def split: completion.splits)
  then show ?thesis
    using assms(1,3) by (simp add: pump_ok_def)
qed


lemma filter_remove1_belongs:
  assumes "filter belongs ops = [a]"
  shows "filter belongs (remove1 a ops) = []"
  using assms by (simp add: filter_remove1)

lemma filter_foreign: "\<not> belongs p \<Longrightarrow> filter belongs (remove1 p ops) = filter belongs ops"
  by (simp add: filter_remove1 remove1_idem)

lemma pump_only:
  assumes "pump_ok ops tr" and "p \<in> set ops" and "belongs p"
  shows "filter belongs ops = [p]" "filter belongs (remove1 p ops) = []"
    "received rd tr = delivered payload tr @ inflight p"
proof -
  have "filter belongs ops \<noteq> []"
    using assms(2,3) by (auto simp: filter_empty_conv)
  then obtain a where a: "filter belongs ops = [a]" "received rd tr = delivered payload tr @ inflight a"
    using assms(1) by (auto simp: pump_ok_def)
  have "p \<in> set [a]"
    unfolding a(1) [symmetric] using assms(2,3) by simp
  then show f: "filter belongs ops = [p]" and "received rd tr = delivered payload tr @ inflight p"
    using a by simp_all
  show "filter belongs (remove1 p ops) = []"
    by (rule filter_remove1_belongs [OF f])
qed

lemma pump_read:
  assumes "pump_ok ops tr" and "rd \<in> set ops" and "payload w = Some d"
    and "filter belongs ops' = filter belongs (remove1 rd ops @ [w])"
  shows "pump_ok ops' (tr @ [(rd, Data d)])"
  using pump_only [OF assms(1,2)] assms(3,4) read_no_payload
  by (auto simp: pump_ok_def belongs_def inflight_def)

lemma pump_write:
  assumes "pump_ok ops tr" and "w \<in> set ops" and "payload w = Some b"
    and "filter belongs ops' = filter belongs (remove1 w ops @ [rd])"
  shows "pump_ok ops' (tr @ [(w, Sent (length b))])"
  using pump_only [OF assms(1,2)] assms(3,4) read_no_payload
  by (auto simp: pump_ok_def belongs_def inflight_def)

lemma pump_fail:
  assumes "pump_ok ops tr" and "p \<in> set ops" and "belongs p" and "\<forall>d. c \<noteq> Data d" and "\<forall>n. c \<noteq> Sent n"
    and "filter belongs ops' = filter belongs (remove1 p ops)"
  shows "pump_ok ops' (tr @ [(p, c)])"
  using pump_only [OF assms(1-3)] assms(4-6)
  by (auto simp: pump_ok_def split: completion.splits)

lemma pump_prefix: "pump_ok ops tr \<Longrightarrow> prefix (delivered payload tr) (received rd tr)"
  by (auto simp: pump_ok_def)

end

fun to_server :: "client_op \<Rightarrow> bytes option" where
  "to_server (Cl_write_server b) = Some b"
| "to_server _ = None"

fun to_local :: "client_op \<Rightarrow> bytes option" where
  "to_local (Cl_write_local b) = Some b"
| "to_local _ = None"

interpretation up: pump Cl_read_local to_server
  by unfold_locales simp

interpretation down: pump Cl_read_server to_local
  by unfold_locales simp


subsection \<open>Reachable sessions\<close>

type_synonym client_trace = "(client_op \<times> completion) list"

text \<open>Between two handlers of a session anything may happen to what it shares with others.\<close>

inductive cl_reach :: "client_env \<Rightarrow> session_kind \<Rightarrow> client_config \<Rightarrow> client_session \<Rightarrow> client_trace \<Rightarrow> bool"
  for env kind cfg where
  Init: "cl_reach env kind cfg (cl_start (cl_new kind cfg)) []"
| Step: "cl_reach env kind cfg s tr \<Longrightarrow> p \<in> set (cl_pending s) \<Longrightarrow> cl_fits p c \<Longrightarrow>
    cl_complete env inp p c (cl_finish p s, cx) = Inr (s', cx') \<Longrightarrow> cl_reach env kind cfg s' (tr @ [(p, c)])"

text \<open>What the application asked for: the target of a SOCKS5 request or of an HTTP CONNECT line it sent.\<close>

definition asked :: "client_env \<Rightarrow> client_trace \<Rightarrow> bytes \<Rightarrow> u16 \<Rightarrow> bool" where
  "asked env tr host port \<longleftrightarrow>
     (\<exists>cmd a. is_v4 a \<and> (Cl_read_request, Data (sreq_v4_wire cmd a port)) \<in> set tr \<and> host = env_to_string env a) \<or>
     (\<exists>cmd. length host < 256 \<and> (Cl_read_request, Data (sreq_dom_wire cmd host port)) \<in> set tr) \<or>
     (\<exists>b d q. (Cl_read_line b, Data d) \<in> set tr \<and> hr_unstream new_http_request (b @ d) = Inr (True, q) \<and>
        host = hr_host q \<and> port = hr_port q)"

definition client_vreq :: "client_config \<Rightarrow> bytes \<Rightarrow> u16 \<Rightarrow> vrequest" where
  "client_vreq cfg host port = new_vrequest\<lparr>vr_version := 1, vr_user_name := cc_user_name cfg,
     vr_password := cc_password cfg, vr_address := host, vr_port := port\<rparr>"

text \<open>Everything the session has written to the server.\<close>

fun upstream_payload :: "client_op \<Rightarrow> bytes option" where
  "upstream_payload (Cl_write_vreq b) = Some b"
| "upstream_payload (Cl_write_server b) = Some b"
| "upstream_payload _ = None"

fun early_op :: "client_op \<Rightarrow> bool" where
  "early_op Cl_greeting = True"
| "early_op (Cl_write_auth _) = True"
| "early_op Cl_read_request = True"
| "early_op (Cl_read_line _) = True"
| "early_op _ = False"

fun mid_op :: "client_op \<Rightarrow> bool" where
  "mid_op (Cl_write_http _) = True"
| "mid_op (Cl_resolve _ _) = True"
| "mid_op (Cl_connect _) = True"
| "mid_op Cl_ssl_handshake = True"
| "mid_op (Cl_ws_handshake _) = True"
| "mid_op (Cl_write_vreq _) = True"
| "mid_op _ = False"

fun assoc_op :: "client_op \<Rightarrow> bool" where
  "assoc_op (Cl_write_assoc _) = True"
| "assoc_op Cl_read_control = True"
| "assoc_op _ = False"

definition relay_op :: "client_op \<Rightarrow> bool" where
  "relay_op p \<longleftrightarrow> up.belongs p \<or> down.belongs p"

lemma up_op_cases: "up.belongs u \<Longrightarrow> u = Cl_read_local \<and> up.inflight u = [] \<or> (\<exists>b. u = Cl_write_server b \<and> up.inflight u = b)"
  by (cases u) (simp_all add: up.belongs_def up.inflight_def)

lemma down_op_cases: "down.belongs d \<Longrightarrow> d = Cl_read_server \<and> down.inflight d = [] \<or> (\<exists>b. d = Cl_write_local b \<and> down.inflight d = b)"
  by (cases d) (simp_all add: down.belongs_def down.inflight_def)

lemma relay_op_cases: "relay_op p \<longleftrightarrow> \<not> early_op p \<and> \<not> mid_op p \<and> \<not> assoc_op p \<and> (\<forall>b. p \<noteq> Cl_write_reply b)"
  by (cases p) (simp_all add: relay_op_def up.belongs_def down.belongs_def)

subsection \<open>Invariant\<close>

text \<open>The parts of the state that stay as they were constructed.\<close>

definition cl_fixed :: "client_config \<Rightarrow> client_session \<Rightarrow> bool" where
  "cl_fixed cfg s \<longleftrightarrow> cl_user_name s = cc_user_name cfg \<and> cl_password s = cc_password cfg \<and>
     length (cl_in_buf s) = CLIENT_BUFF_SIZE \<and> length (cl_out_buf s) = CLIENT_BUFF_SIZE"

definition goal :: "client_env \<Rightarrow> client_session \<Rightarrow> client_trace \<Rightarrow> bool" where
  "goal env s tr \<longleftrightarrow> asked env tr (sq_remote_host (cl_socks5_req s)) (sq_remote_port (cl_socks5_req s))"

definition cl_wire :: "client_config \<Rightarrow> client_session \<Rightarrow> bytes" where
  "cl_wire cfg s = vr_wire (client_vreq cfg (sq_remote_host (cl_socks5_req s)) (sq_remote_port (cl_socks5_req s)))"

definition inv_opening :: "client_env \<Rightarrow> client_config \<Rightarrow> client_session \<Rightarrow> client_trace \<Rightarrow> bool" where
  "inv_opening env cfg s tr \<longleftrightarrow> \<not> cl_destroyed s \<and> (\<forall>x \<in> set tr. \<not> relay_op (fst x)) \<and>
     (\<exists>p. cl_pending s = [p] \<and>
       ((early_op p \<or> assoc_op p) \<and> delivered upstream_payload tr = [] \<and> (early_op p \<longrightarrow> cl_http_req s = new_http_request) \<or>
        mid_op p \<and> delivered upstream_payload tr = [] \<and> goal env s tr \<and> (\<forall>b. p = Cl_write_vreq b \<longrightarrow> b = cl_wire cfg s) \<or>
        (\<exists>b. p = Cl_write_reply b) \<and> delivered upstream_payload tr = cl_wire cfg s \<and> goal env s tr))"

definition inv_relay :: "client_env \<Rightarrow> client_config \<Rightarrow> client_session \<Rightarrow> client_trace \<Rightarrow> bool" where
  "inv_relay env cfg s tr \<longleftrightarrow> (\<forall>p \<in> set (cl_pending s). relay_op p) \<and>
     up.pump_ok (cl_pending s) tr \<and> down.pump_ok (cl_pending s) tr \<and>
     (\<not> cl_destroyed s \<longrightarrow> filter up.belongs (cl_pending s) \<noteq> [] \<and> filter down.belongs (cl_pending s) \<noteq> []) \<and>
     (cl_destroyed s \<and> cl_pending s = [] \<and> delivered upstream_payload tr = [] \<or>
      goal env s tr \<and> delivered upstream_payload tr = cl_wire cfg s @ delivered to_server tr)"

definition cl_inv :: "client_env \<Rightarrow> client_config \<Rightarrow> client_session \<Rightarrow> client_trace \<Rightarrow> bool" where
  "cl_inv env cfg s tr \<longleftrightarrow> cl_fixed cfg s \<and> (inv_opening env cfg s tr \<or> inv_relay env cfg s tr)"


lemma quiet_trace:
  assumes "\<forall>x \<in> set tr. \<not> relay_op (fst x)"
  shows "received Cl_read_local tr = []" "received Cl_read_server tr = []" "delivered to_server tr = []"
    "delivered to_local tr = []"
  using assms
  by (auto simp: received_def delivered_def relay_op_def up.belongs_def down.belongs_def split: completion.splits)

lemma asked_intros:
  "is_v4 a \<Longrightarrow> (Cl_read_request, Data (sreq_v4_wire cmd a port)) \<in> set tr \<Longrightarrow> asked env tr (env_to_string env a) port"
  "length host < 256 \<Longrightarrow> (Cl_read_request, Data (sreq_dom_wire cmd host port)) \<in> set tr \<Longrightarrow> asked env tr host port"
  "(Cl_read_line b, Data d) \<in> set tr \<Longrightarrow> hr_unstream new_http_request (b @ d) = Inr (True, q) \<Longrightarrow>
    asked env tr (hr_host q) (hr_port q)"
  unfolding asked_def by blast+

lemma asked_mono: "asked env tr host port \<Longrightarrow> asked env (tr @ xs) host port"
  unfolding asked_def set_append by blast

lemma goal_mono: "goal env s tr \<Longrightarrow> goal env s (tr @ xs)"
  by (simp add: goal_def asked_mono)

lemma cl_destroy_fields [simp]:
  "cl_destroyed (fst (cl_destroy (s, cx)))" "cl_pending (fst (cl_destroy (s, cx))) = cl_pending s"
  "cl_fixed cfg (fst (cl_destroy (s, cx))) = cl_fixed cfg s"
  "goal env (fst (cl_destroy (s, cx))) tr = goal env s tr" "cl_wire cfg (fst (cl_destroy (s, cx))) = cl_wire cfg s"
  by (auto simp: cl_destroy_def Let_def cl_fixed_def goal_def cl_wire_def destroy_out_socket_def
      tls_destroy_out_socket_def ws_destroy_out_socket_def split: option.splits session_kind.splits)

lemma cl_start_op_fields [simp]:
  "cl_destroyed (cl_start_op p s) = cl_destroyed s" "cl_pending (cl_start_op p s) = cl_pending s @ [p]"
  "cl_fixed cfg (cl_start_op p s) = cl_fixed cfg s" "cl_http_req (cl_start_op p s) = cl_http_req s"
  "goal env (cl_start_op p s) tr = goal env s tr" "cl_wire cfg (cl_start_op p s) = cl_wire cfg s"
  by (simp_all add: cl_start_op_def cl_fixed_def goal_def cl_wire_def)

lemma cl_finish_fields [simp]:
  "cl_destroyed (cl_finish p s) = cl_destroyed s" "cl_pending (cl_finish p s) = remove1 p (cl_pending s)"
  "cl_fixed cfg (cl_finish p s) = cl_fixed cfg s" "cl_http_req (cl_finish p s) = cl_http_req s"
  "goal env (cl_finish p s) tr = goal env s tr" "cl_wire cfg (cl_finish p s) = cl_wire cfg s"
  by (simp_all add: cl_finish_def cl_fixed_def goal_def cl_wire_def)

subsection \<open>Opening\<close>

text \<open>The ways a handler of the opening phase can leave the session: destroyed, with the next operation, or
  relaying.\<close>

definition calm :: "client_config \<Rightarrow> client_session \<Rightarrow> client_trace \<Rightarrow> bool" where
  "calm cfg s tr \<longleftrightarrow> cl_fixed cfg s \<and> \<not> cl_destroyed s \<and> cl_pending s = [] \<and> (\<forall>x \<in> set tr. \<not> relay_op (fst x))"

lemma calm_update:
  assumes "calm cfg s tr"
  shows "calm cfg (s\<lparr>cl_message_buf := m\<rparr>) tr" "calm cfg (s\<lparr>cl_socks5_req := q\<rparr>) tr"
    "calm cfg (s\<lparr>cl_http_req := h\<rparr>) tr" "calm cfg (s\<lparr>cl_state := st\<rparr>) tr" "calm cfg (s\<lparr>cl_peer := pe\<rparr>) tr"
    "calm cfg (s\<lparr>cl_response_sent := b\<rparr>) tr" "calm cfg (s\<lparr>cl_out_open := b\<rparr>) tr"
    "calm cfg (s\<lparr>cl_session_id := i, cl_udp_relay := r\<rparr>) tr"
    "length d \<le> CLIENT_BUFF_SIZE \<Longrightarrow> calm cfg (s\<lparr>cl_in_buf := fill (cl_in_buf s) d\<rparr>) tr"
  using assms by (simp_all add: calm_def cl_fixed_def)

lemma goal_update [simp]:
  "goal env (s\<lparr>cl_message_buf := m\<rparr>) tr = goal env s tr" "goal env (s\<lparr>cl_state := st\<rparr>) tr = goal env s tr"
  "goal env (s\<lparr>cl_peer := pe\<rparr>) tr = goal env s tr" "goal env (s\<lparr>cl_response_sent := b\<rparr>) tr = goal env s tr"
  "goal env (s\<lparr>cl_out_open := b\<rparr>) tr = goal env s tr"
  "cl_wire cfg (s\<lparr>cl_message_buf := m\<rparr>) = cl_wire cfg s" "cl_wire cfg (s\<lparr>cl_state := st\<rparr>) = cl_wire cfg s"
  by (simp_all add: goal_def cl_wire_def)

lemma calm_destroy:
  assumes "calm cfg s tr"
    and "delivered upstream_payload tr = [] \<or> goal env s tr \<and> delivered upstream_payload tr = cl_wire cfg s"
  shows "cl_inv env cfg (fst (cl_destroy (s, cx))) tr"
  using assms quiet_trace [of tr]
  by (auto simp: calm_def cl_inv_def inv_relay_def up.pump_ok_def down.pump_ok_def)

lemma calm_early:
  assumes "calm cfg s tr" and "delivered upstream_payload tr = []" and "early_op q" and "cl_http_req s = new_http_request"
  shows "cl_inv env cfg (cl_start_op q s) tr"
  using assms by (auto simp: calm_def cl_inv_def inv_opening_def)

lemma calm_assoc:
  assumes "calm cfg s tr" and "delivered upstream_payload tr = []" and "assoc_op q"
  shows "cl_inv env cfg (cl_start_op q s) tr"
  using assms by (cases q) (auto simp: calm_def cl_inv_def inv_opening_def)

lemma calm_mid:
  assumes "calm cfg s tr" and "delivered upstream_payload tr = []" and "goal env s tr" and "mid_op q"
    and "\<forall>b. q = Cl_write_vreq b \<longrightarrow> b = cl_wire cfg s"
  shows "cl_inv env cfg (cl_start_op q s) tr"
  using assms by (auto simp: calm_def cl_inv_def inv_opening_def)

lemma calm_reply:
  assumes "calm cfg s tr" and "delivered upstream_payload tr = cl_wire cfg s" and "goal env s tr"
  shows "cl_inv env cfg (cl_start_op (Cl_write_reply b) s) tr"
  using assms by (auto simp: calm_def cl_inv_def inv_opening_def)

lemma calm_relay:
  assumes "calm cfg s tr" and "delivered upstream_payload tr = cl_wire cfg s" and "goal env s tr"
  shows "cl_inv env cfg (read_packet 3 s) tr"
proof -
  have "cl_pending (read_packet 3 s) = [Cl_read_local, Cl_read_server]"
    using assms(1) by (simp add: read_packet_def calm_def)
  moreover have "filter up.belongs [Cl_read_local, Cl_read_server] = [Cl_read_local]"
    "filter down.belongs [Cl_read_local, Cl_read_server] = [Cl_read_server]"
    by (simp_all add: up.belongs_def down.belongs_def)
  moreover have "goal env (read_packet 3 s) tr" "cl_wire cfg (read_packet 3 s) = cl_wire cfg s" "cl_fixed cfg (read_packet 3 s)"
    using assms by (simp_all add: read_packet_def calm_def)
  ultimately show ?thesis
    using assms quiet_trace [of tr]
    by (simp add: calm_def cl_inv_def inv_relay_def up.pump_ok_def down.pump_ok_def up.inflight_def down.inflight_def
        relay_op_def up.belongs_def down.belongs_def)
qed


lemma greeting_step:
  assumes "calm cfg s tr" and "delivered upstream_payload tr = []" and "cl_http_req s = new_http_request"
    and "cl_fits Cl_greeting c" and "on_greeting c (s, cx) = Inr (s', cx')"
  shows "cl_inv env cfg s' tr"
proof (cases "\<exists>d. c = Data d")
  case True
  then obtain d where c: "c = Data d"
    by blast
  define t where "t = s\<lparr>cl_in_buf := fill (cl_in_buf s) d\<rparr>"
  have t: "calm cfg t tr" "cl_http_req t = new_http_request"
    using assms(1,3,4) calm_update(9) [of cfg s tr d] by (simp_all add: t_def c)
  note next_op = calm_early [OF t(1) assms(2) _ t(2)] calm_destroy [OF t(1) disjI1 [OF assms(2)]]
  have auth: "cl_inv env cfg (fst (write_sock5_hanshake_reply req (t, cx))) tr" for req
    using next_op(2) calm_early [OF calm_update(1) [OF t(1)] assms(2)] t(2)
    by (simp add: write_sock5_hanshake_reply_def Let_def)
  show ?thesis
    using assms(5) next_op(1) [of "Cl_read_line (take (length d) (cl_in_buf t))"] next_op(2) [of env cx] auth
    unfolding on_greeting_def http_connect_handshake_def
    by (auto simp: c Let_def t_def [symmetric] rbind_def split: if_splits sum.splits dest!: arg_cong [where f = fst])
next
  case False
  then show ?thesis
    using assms(5) calm_destroy [OF assms(1) disjI1 [OF assms(2)], of env cx]
    by (cases c) (auto simp: on_greeting_def dest!: arg_cong [where f = fst])
qed

lemma write_auth_step:
  assumes "calm cfg s tr" and "delivered upstream_payload tr = []" and "cl_http_req s = new_http_request"
  shows "cl_inv env cfg (fst (on_write_auth c (s, cx))) tr"
  using calm_early [OF assms(1,2) _ assms(3)] calm_destroy [OF assms(1) disjI1 [OF assms(2)], of env cx]
  by (cases c) (simp_all add: on_write_auth_def read_socks5_request_def)

lemma assoc_step:
  assumes "calm cfg s tr" and "delivered upstream_payload tr = []"
    and "do_handle_socks5_udp_associate inp (s, cx) = Inr (s', cx')"
  shows "cl_inv env cfg s' tr"
proof (cases "has_dtls (cx_server cx)")
  case True
  let ?reply = "reply_stream \<lparr>rp_version = 0x05, rp_repResult = 0x00, rp_reserved = 0x00, rp_addrtype = ATYP_V4,
    rp_realRemoteIP = 0x7f000001, rp_realRemotePort = in_port inp\<rparr> []"
  let ?t = "s\<lparr>cl_session_id := cs_next_session_id (cx_server cx), cl_udp_relay := Some (in_addr inp)\<rparr>"
  have "s' = cl_start_op (Cl_write_assoc ?reply) (?t\<lparr>cl_message_buf := ?reply\<rparr>)"
    using assms(3) True
    by (auto simp: do_handle_socks5_udp_associate_def allocate_session_id_def rl_start_def rl_new_def Let_def)
  moreover have "calm cfg (?t\<lparr>cl_message_buf := ?reply\<rparr>) tr"
    by (rule calm_update(1) [OF calm_update(8) [OF assms(1)]])
  ultimately show ?thesis
    using calm_assoc [OF _ assms(2)] by simp
next
  case False
  then show ?thesis
    using assms(3) calm_destroy [OF calm_update(1) [OF assms(1)] disjI1 [OF assms(2)], of env _ cx]
    by (auto simp: do_handle_socks5_udp_associate_def assoc_refused_def Let_def split: if_splits dest!: arg_cong [where f = fst])
qed

lemma read_request_step:
  assumes "calm cfg s tr" and "delivered upstream_payload tr = []" and "cl_fits Cl_read_request c"
    and "(Cl_read_request, c) \<in> set tr" and "on_read_request (env_to_string env) ue inp c (s, cx) = Inr (s', cx')"
  shows "cl_inv env cfg s' tr"
proof (cases "\<exists>d. c = Data d")
  case True
  then obtain d where c: "c = Data d"
    by blast
  define t where "t = s\<lparr>cl_in_buf := fill (cl_in_buf s) d\<rparr>"
  have t: "calm cfg t tr"
    using assms(1,3) calm_update(9) [of cfg s tr d] by (simp add: t_def c)
  have len: "262 < length (cl_in_buf t)"
    using t by (simp add: calm_def cl_fixed_def CLIENT_BUFF_SIZE_def)
  obtain ok q where q: "sreq_unsteam (env_to_string env) (cl_socks5_req t) (cl_in_buf t) (length d) = Inr (ok, q)"
    using assms(5) by (auto simp: on_read_request_def c t_def Let_def rbind_def split: sum.splits)
  have tq: "calm cfg (t\<lparr>cl_socks5_req := q\<rparr>) tr"
    by (rule calm_update(2) [OF t])
  have tk: "take (length d) (cl_in_buf t) = d"
    by (simp add: t_def)
  have goal: "goal env (t\<lparr>cl_socks5_req := q\<rparr>) tr" if ok
    using q that assms(4) sreq_unsteam_iff [OF len, of "env_to_string env" "cl_socks5_req t" "length d" q]
    unfolding tk by (auto simp: goal_def c intro: asked_intros)
  have run: "on_read_request (env_to_string env) ue inp c (s, cx) =
      (let u = t\<lparr>cl_socks5_req := q\<rparr> in
       if \<not> ok then Inr (cl_destroy (u, cx))
       else if sq_cmd q = CMD_UDP_ASSOCIATE then
         (if \<not> ue then assoc_refused (in_write_ok inp) (u, cx) else do_handle_socks5_udp_associate inp (u, cx))
       else Inr (cl_do_resolve u, cx))"
    using q by (simp add: on_read_request_def c t_def Let_def)
  have refused: "cl_inv env cfg s' tr" if "assoc_refused b (t\<lparr>cl_socks5_req := q\<rparr>, cx) = Inr (s', cx')" for b
    using that calm_destroy [OF calm_update(1) [OF tq] disjI1 [OF assms(2)], of env _ cx]
    by (auto simp: assoc_refused_def Let_def split: if_splits dest!: arg_cong [where f = fst])
  show ?thesis
    using assms(5) goal assoc_step [OF tq assms(2), of inp cx s' cx' env] refused
      calm_destroy [OF tq disjI1 [OF assms(2)], of env cx] calm_mid [OF tq assms(2), of env]
    unfolding run by (auto simp: Let_def cl_do_resolve_def split: if_splits dest!: arg_cong [where f = fst])
next
  case False
  then show ?thesis
    using assms(5) calm_destroy [OF assms(1) disjI1 [OF assms(2)], of env cx]
    by (cases c) (auto simp: on_read_request_def dest!: arg_cong [where f = fst])
qed

lemma read_line_step:
  assumes "calm cfg s tr" and "delivered upstream_payload tr = []" and "cl_http_req s = new_http_request"
    and "(Cl_read_line b, c) \<in> set tr" and "on_read_line b c (s, cx) = Inr (s', cx')"
  shows "cl_inv env cfg s' tr"
proof (cases "\<exists>d. c = Data d")
  case True
  then obtain d where c: "c = Data d"
    by blast
  obtain ok q where q: "hr_unstream new_http_request (b @ d) = Inr (ok, q)"
    using assms(3,5) by (auto simp: on_read_line_def c Let_def rbind_def split: sum.splits)
  have tq: "calm cfg (s\<lparr>cl_http_req := q\<rparr>) tr"
    by (rule calm_update(3) [OF assms(1)])
  define u where "u = s\<lparr>cl_http_req := q, cl_socks5_req := (cl_socks5_req s)\<lparr>sq_remote_host := hr_host q, sq_remote_port := hr_port q\<rparr>\<rparr>"
  have u: "calm cfg (u\<lparr>cl_response_sent := True, cl_message_buf := http_ok []\<rparr>) tr"
    unfolding u_def by (intro calm_update(1) calm_update(6) calm_update(2) tq)
  have goal: "goal env (u\<lparr>cl_response_sent := True, cl_message_buf := http_ok []\<rparr>) tr" if ok
    using q that assms(4) asked_intros(3) [of b d tr q env] by (simp add: goal_def u_def c)
  have run: "on_read_line b c (s, cx) = (if \<not> ok then Inr (cl_destroy (s\<lparr>cl_http_req := q\<rparr>, cx)) else Inr (write_http_connect_response u, cx))"
    using q assms(3) by (simp add: on_read_line_def c u_def Let_def)
  show ?thesis
    using assms(5) goal calm_destroy [OF tq disjI1 [OF assms(2)], of env cx] calm_mid [OF u assms(2), of env]
    unfolding run by (auto simp: Let_def write_http_connect_response_def split: if_splits dest!: arg_cong [where f = fst])
next
  case False
  then show ?thesis
    using assms(5) calm_destroy [OF assms(1) disjI1 [OF assms(2)], of env cx]
    by (cases c) (auto simp: on_read_line_def dest!: arg_cong [where f = fst])
qed


lemma mid_step:
  assumes "calm cfg s tr" and "delivered upstream_payload tr = []" and "goal env s tr" and "mid_op p"
    and "\<forall>b. p \<noteq> Cl_write_vreq b" and "cl_complete env inp p c (s, cx) = Inr (s', cx')"
  shows "cl_inv env cfg s' tr"
proof -
  note destroy = calm_destroy [OF assms(1) disjI1 [OF assms(2)], of env cx]
  note mid = calm_mid [OF assms(1,2,3)]
  have vreq: "cl_inv env cfg (do_sent_v_req s) tr"
    using calm_mid [OF calm_update(1) [OF assms(1)] assms(2), of env] assms(1,3)
    by (simp add: do_sent_v_req_def Let_def cl_wire_def vr_wire_def client_vreq_def calm_def cl_fixed_def)
  have conn: "cl_inv env cfg (cl_do_connect ep s) tr" for ep
    using calm_mid [OF calm_update(7) [OF assms(1)] assms(2), of env] assms(3) by (simp add: cl_do_connect_def)
  have ssl: "cl_inv env cfg (do_ssl_handshake (s\<lparr>cl_peer := Some ep\<rparr>)) tr" for ep
    using calm_mid [OF calm_update(5) [OF assms(1)] assms(2), of env] assms(3)
    by (simp add: do_ssl_handshake_def tls_perform_ssl_handshake_def ws_perform_ssl_handshake_def split: session_kind.splits)
  have after: "cl_inv env cfg (after_ssl_handshake s) tr"
    using vreq mid [of "Cl_ws_handshake (cl_remote_host s)"]
    by (simp add: after_ssl_handshake_def tls_after_ssl_handshake_def ws_after_ssl_handshake_def do_ws_handshake_def
        split: session_kind.splits)
  have res: "cl_inv env cfg (cl_do_resolve s) tr"
    using mid by (simp add: cl_do_resolve_def)
  show ?thesis
    using assms(4,5,6) destroy vreq conn ssl after res
    by (cases p)
      (auto simp: on_write_http_def cl_on_resolve_def cl_on_connect_def on_ssl_handshake_def on_ws_handshake_def
        split: completion.splits list.splits dest!: arg_cong [where f = fst])
qed

lemma write_vreq_step:
  assumes "calm cfg s tr" and "goal env s tr" and "on_write_vreq c (s, cx) = Inr (s', cx')"
    and "delivered upstream_payload tr = (case c of Sent n \<Rightarrow> cl_wire cfg s | _ \<Rightarrow> [])"
  shows "cl_inv env cfg s' tr"
proof (cases "\<exists>n. c = Sent n")
  case True
  then obtain n where c: "c = Sent n"
    by blast
  let ?t = "s\<lparr>cl_state := C_FORWARD\<rparr>"
  have t: "calm cfg ?t tr" "goal env ?t tr" "delivered upstream_payload tr = cl_wire cfg ?t"
    using calm_update(4) [OF assms(1)] assms(2,4) by (simp_all add: c)
  have reply: "cl_inv env cfg u tr" if "write_socks5_response ?t = Inr u" for u
    using that calm_reply [OF calm_update(1) [OF t(1)], of _ env] t(2,3)
    by (auto simp: write_socks5_response_def Let_def split: option.splits if_splits)
  show ?thesis
    using assms(3) calm_relay [OF t(1,3,2)] reply
    by (auto simp: on_write_vreq_def c Let_def rbind_def split: if_splits sum.splits)
next
  case False
  then show ?thesis
    using assms(3,4) calm_destroy [OF assms(1) disjI1, of env cx]
    by (cases c) (auto simp: on_write_vreq_def dest!: arg_cong [where f = fst])
qed

lemma write_reply_step:
  assumes "calm cfg s tr" and "goal env s tr" and "delivered upstream_payload tr = cl_wire cfg s"
  shows "cl_inv env cfg (fst (on_write_reply c (s, cx))) tr"
  using calm_relay [OF calm_update(4) [OF assms(1)], of C_FORWARD env] calm_destroy [OF assms(1), of env cx] assms(2,3)
  by (cases c) (simp_all add: on_write_reply_def)

lemma control_step:
  assumes "calm cfg s tr" and "delivered upstream_payload tr = []" and "assoc_op p"
    and "cl_complete env inp p c (s, cx) = Inr (s', cx')"
  shows "cl_inv env cfg s' tr"
  using assms(3,4) calm_destroy [OF assms(1) disjI1 [OF assms(2)], of env cx] calm_assoc [OF assms(1,2), of Cl_read_control env]
  by (cases p)
    (auto simp: on_write_assoc_def on_read_control_def do_read_control_def split: completion.splits
      dest!: arg_cong [where f = fst])

lemma cl_opening_step:
  assumes "inv_opening env cfg s tr" and "cl_fixed cfg s" and "p \<in> set (cl_pending s)" and "cl_fits p c"
    and step: "cl_complete env inp p c (cl_finish p s, cx) = Inr (s', cx')"
  shows "cl_inv env cfg s' (tr @ [(p, c)])"
proof -
  let ?s = "cl_finish p s" and ?tr = "tr @ [(p, c)]"
  have pend: "cl_pending s = [p]"
    using assms(1,3) by (auto simp: inv_opening_def)
  have not_relay: "\<not> relay_op p"
    using assms(1) pend by (auto simp: inv_opening_def relay_op_cases)
  then have calm: "calm cfg ?s ?tr"
    using assms(1,2) pend by (auto simp: calm_def inv_opening_def)
  have mem: "(p, c) \<in> set ?tr"
    by simp
  from assms(1) pend consider
      "early_op p" "delivered upstream_payload tr = []" "cl_http_req s = new_http_request"
    | "assoc_op p" "delivered upstream_payload tr = []"
    | b where "p = Cl_write_vreq b" "delivered upstream_payload tr = []" "goal env s tr" "b = cl_wire cfg s"
    | "mid_op p" "\<forall>b. p \<noteq> Cl_write_vreq b" "delivered upstream_payload tr = []" "goal env s tr"
    | b where "p = Cl_write_reply b" "delivered upstream_payload tr = cl_wire cfg s" "goal env s tr"
    unfolding inv_opening_def by auto
  then show ?thesis
  proof cases
    case 1
    then have d: "delivered upstream_payload ?tr = []"
      by (cases p) (auto split: completion.splits)
    have h: "cl_http_req ?s = new_http_request"
      using 1 by simp
    have line: ?thesis if "p = Cl_read_line b" for b
      using read_line_step [OF calm d h, of b c cx s' cx' env] step mem that by simp
    show ?thesis
      using 1(1) step assms(4) mem greeting_step [OF calm d h, of c cx s' cx' env]
        write_auth_step [OF calm d h, of env c cx] read_request_step [OF calm d, of c env _ inp cx s' cx'] line
      by (cases p) (auto dest!: arg_cong [where f = fst])
  next
    case 2
    then have "delivered upstream_payload ?tr = []"
      by (cases p) (auto split: completion.splits)
    then show ?thesis
      using control_step [OF calm _ 2(1) step] by simp
  next
    case (3 b)
    then have "delivered upstream_payload ?tr = (case c of Sent n \<Rightarrow> cl_wire cfg ?s | _ \<Rightarrow> [])"
      using assms(4) by (cases c) simp_all
    then show ?thesis
      using write_vreq_step [OF calm, of env c cx s' cx'] 3 step goal_mono [of env s tr] by simp
  next
    case 4
    then have "delivered upstream_payload ?tr = []"
      by (cases p) (auto split: completion.splits)
    then show ?thesis
      using mid_step [OF calm _ _ 4(1,2) step] 4 goal_mono [of env s tr] by simp
  next
    case (5 b)
    then have "delivered upstream_payload ?tr = cl_wire cfg ?s"
      by (cases c) simp_all
    then show ?thesis
      using write_reply_step [OF calm, of env c cx] 5 step goal_mono [of env s tr]
      by (auto dest!: arg_cong [where f = fst])
  qed
qed


subsection \<open>Relaying\<close>

definition same_goal :: "client_session \<Rightarrow> client_session \<Rightarrow> bool" where
  "same_goal s s' \<longleftrightarrow> cl_socks5_req s' = cl_socks5_req s"

lemma inv_relay_sent:
  assumes "inv_relay env cfg s tr" and "p \<in> set (cl_pending s)"
  shows "relay_op p" "goal env s tr" "delivered upstream_payload tr = cl_wire cfg s @ delivered to_server tr"
    "up.pump_ok (cl_pending s) tr" "down.pump_ok (cl_pending s) tr"
  using assms by (auto simp: inv_relay_def)

lemma upstream_snoc:
  assumes "relay_op p" and "delivered upstream_payload tr = w @ delivered to_server tr"
  shows "delivered upstream_payload (tr @ [(p, c)]) = w @ delivered to_server (tr @ [(p, c)])"
  using assms by (cases p) (auto simp: relay_op_cases split: completion.splits)

text \<open>A direction goes on with its next operation.\<close>

lemma relay_next:
  assumes inv: "inv_relay env cfg s tr" and p: "p \<in> set (cl_pending s)"
    and s': "cl_pending s' = remove1 p (cl_pending s) @ [w]" "cl_destroyed s' = cl_destroyed s" "same_goal s s'"
    and dir: "up.belongs p \<and> up.belongs w \<and> \<not> down.belongs p \<and> \<not> down.belongs w \<and> up.pump_ok (cl_pending s') (tr @ [(p, c)]) \<or>
      down.belongs p \<and> down.belongs w \<and> \<not> up.belongs p \<and> \<not> up.belongs w \<and> down.pump_ok (cl_pending s') (tr @ [(p, c)])"
  shows "inv_relay env cfg s' (tr @ [(p, c)])"
proof -
  note old = inv_relay_sent [OF inv p]
  have "up.pump_ok (cl_pending s') (tr @ [(p, c)]) \<and> down.pump_ok (cl_pending s') (tr @ [(p, c)])"
    using dir up.pump_foreign [OF old(4), of p "cl_pending s'" c] down.pump_foreign [OF old(5), of p "cl_pending s'" c]
    by (auto simp: s' up.filter_foreign down.filter_foreign)
  moreover have "goal env s' (tr @ [(p, c)])" "cl_wire cfg s' = cl_wire cfg s"
    using old(2) s'(3) goal_mono [of env s tr] by (simp_all add: goal_def cl_wire_def same_goal_def)
  moreover have "\<forall>q \<in> set (cl_pending s'). relay_op q"
    using inv dir by (auto simp: s' inv_relay_def relay_op_def dest: in_set_remove1 [THEN iffD1, rotated] notin_set_remove1)
  moreover have "filter up.belongs (cl_pending s') \<noteq> [] \<and> filter down.belongs (cl_pending s') \<noteq> []" if "\<not> cl_destroyed s'"
    using inv dir that by (auto simp: s' inv_relay_def up.filter_foreign down.filter_foreign)
  ultimately show ?thesis
    using upstream_snoc [OF old(1,3), of c] unfolding inv_relay_def by simp
qed

text \<open>The other completions destroy the session.\<close>

lemma relay_destroy:
  assumes inv: "inv_relay env cfg s tr" and p: "p \<in> set (cl_pending s)" and c: "\<forall>d. c \<noteq> Data d" "\<forall>n. c \<noteq> Sent n"
  shows "inv_relay env cfg (fst (cl_destroy (cl_finish p s, cx))) (tr @ [(p, c)])"
proof -
  note old = inv_relay_sent [OF inv p]
  let ?ops = "remove1 p (cl_pending s)"
  have "up.pump_ok ?ops (tr @ [(p, c)])"
    using up.pump_fail [OF old(4) p _ c refl] up.pump_foreign [OF old(4), of p ?ops c] by (cases "up.belongs p") (auto simp: up.filter_foreign)
  moreover have "down.pump_ok ?ops (tr @ [(p, c)])"
    using down.pump_fail [OF old(5) p _ c refl] down.pump_foreign [OF old(5), of p ?ops c] by (cases "down.belongs p") (auto simp: down.filter_foreign)
  moreover have "\<forall>q \<in> set ?ops. relay_op q"
    using inv by (auto simp: inv_relay_def dest: notin_set_remove1)
  ultimately show ?thesis
    using upstream_snoc [OF old(1,3), of c] goal_mono [OF old(2), of "[(p, c)]"] unfolding inv_relay_def by simp
qed

lemmas belongs_defs = up.belongs_def down.belongs_def

lemma relay_step:
  assumes inv: "inv_relay env cfg s tr" and fixed: "cl_fixed cfg s" and p: "p \<in> set (cl_pending s)" and fits: "cl_fits p c"
    and step: "cl_complete env inp p c (cl_finish p s, cx) = Inr (s', cx')"
  shows "cl_inv env cfg s' (tr @ [(p, c)])"
proof -
  note old = inv_relay_sent [OF inv p]
  have destroy: ?thesis if "Inr (cl_destroy (cl_finish p s, cx)) = (Inr (s', cx') :: _ res)" "\<forall>d. c \<noteq> Data d" "\<forall>n. c \<noteq> Sent n"
    using relay_destroy [OF inv p that(2,3), of cx] fixed that(1)
    by (auto simp: cl_inv_def dest!: arg_cong [where f = fst])
  show ?thesis
  proof (cases p)
    case Cl_read_local
    show ?thesis
    proof (cases c)
      case (Data d)
      have s': "s' = cl_start_op (Cl_write_server d) ((cl_finish p s)\<lparr>cl_in_buf := fill (cl_in_buf (cl_finish p s)) d\<rparr>)"
        using step by (simp add: Cl_read_local Data on_read_local_def write_packet_def)
      have "inv_relay env cfg s' (tr @ [(p, c)])"
        using up.pump_read [OF old(4), of "Cl_write_server d" d] p
        by (intro relay_next [OF inv p, of _ "Cl_write_server d"]) (simp_all add: s' Cl_read_local Data same_goal_def belongs_defs cl_start_op_def cl_finish_def)
      then show ?thesis
        using fixed fits by (simp add: cl_inv_def s' Data Cl_read_local cl_fixed_def cl_start_op_def cl_finish_def)
    qed (use step destroy fits in \<open>simp_all add: Cl_read_local on_read_local_def\<close>)
  next
    case Cl_read_server
    show ?thesis
    proof (cases c)
      case (Data d)
      have s': "s' = cl_start_op (Cl_write_local d) ((cl_finish p s)\<lparr>cl_out_buf := fill (cl_out_buf (cl_finish p s)) d\<rparr>)"
        using step by (simp add: Cl_read_server Data on_read_server_def write_packet_def)
      have "inv_relay env cfg s' (tr @ [(p, c)])"
        using down.pump_read [OF old(5), of "Cl_write_local d" d] p
        by (intro relay_next [OF inv p, of _ "Cl_write_local d"]) (simp_all add: s' Cl_read_server Data same_goal_def belongs_defs cl_start_op_def cl_finish_def)
      then show ?thesis
        using fixed fits by (simp add: cl_inv_def s' Data Cl_read_server cl_fixed_def cl_start_op_def cl_finish_def)
    qed (use step destroy fits in \<open>simp_all add: Cl_read_server on_read_server_def\<close>)
  next
    case (Cl_write_server b)
    show ?thesis
    proof (cases c)
      case (Sent n)
      have s': "s' = cl_start_op Cl_read_local (cl_finish p s)" and n: "n = length b"
        using step fits by (simp_all add: Cl_write_server Sent on_write_server_def read_packet_def)
      have "inv_relay env cfg s' (tr @ [(p, c)])"
        using up.pump_write [OF old(4), of "Cl_write_server b" b] p
        by (intro relay_next [OF inv p, of _ Cl_read_local]) (simp_all add: s' n Cl_write_server Sent same_goal_def belongs_defs cl_start_op_def cl_finish_def)
      then show ?thesis
        using fixed by (simp add: cl_inv_def s')
    qed (use step destroy fits in \<open>simp_all add: Cl_write_server on_write_server_def\<close>)
  next
    case (Cl_write_local b)
    show ?thesis
    proof (cases c)
      case (Sent n)
      have s': "s' = cl_start_op Cl_read_server (cl_finish p s)" and n: "n = length b"
        using step fits by (simp_all add: Cl_write_local Sent on_write_local_def read_packet_def)
      have "inv_relay env cfg s' (tr @ [(p, c)])"
        using down.pump_write [OF old(5), of "Cl_write_local b" b] p
        by (intro relay_next [OF inv p, of _ Cl_read_server]) (simp_all add: s' n Cl_write_local Sent same_goal_def belongs_defs cl_start_op_def cl_finish_def)
      then show ?thesis
        using fixed by (simp add: cl_inv_def s')
    qed (use step destroy fits in \<open>simp_all add: Cl_write_local on_write_local_def\<close>)
  qed (use old(1) in \<open>simp_all add: relay_op_cases\<close>)
qed

lemma cl_reach_inv: "cl_reach env kind cfg s tr \<Longrightarrow> cl_inv env cfg s tr"
proof (induction rule: cl_reach.induct)
  case Init
  have "calm cfg (cl_new kind cfg) []" "cl_http_req (cl_new kind cfg) = new_http_request"
    by (simp_all add: calm_def cl_new_def cl_fixed_def)
  then show ?case
    using calm_early [of cfg "cl_new kind cfg" "[]" Cl_greeting env] by (simp add: cl_start_def)
next
  case (Step s tr p c inp cx s' cx')
  then show ?case
    using cl_opening_step [of env cfg s tr p c inp cx s' cx'] relay_step [of env cfg s tr p c inp cx s' cx']
    by (auto simp: cl_inv_def)
qed

subsection \<open>Properties\<close>

lemma upstream_bytes:
  assumes "cl_reach env kind cfg s tr"
  shows "(delivered upstream_payload tr = [] \<or>
     (\<exists>host port. asked env tr host port \<and>
       delivered upstream_payload tr = snd (vr_stream (client_vreq cfg host port) []) @ delivered to_server tr)) \<and>
    prefix (delivered to_server tr) (received Cl_read_local tr) \<and>
    prefix (delivered to_local tr) (received Cl_read_server tr)"
proof -
  have "cl_inv env cfg s tr"
    by (rule cl_reach_inv [OF assms])
  then consider "inv_opening env cfg s tr" | "inv_relay env cfg s tr"
    by (auto simp: cl_inv_def)
  then show ?thesis
  proof cases
    case 1
    then show ?thesis
      using quiet_trace [of tr] by (auto simp: inv_opening_def goal_def cl_wire_def vr_wire_def)
  next
    case 2
    then show ?thesis
      using up.pump_prefix down.pump_prefix unfolding inv_relay_def goal_def cl_wire_def vr_wire_def by blast
  qed
qed

text \<open>C8: the client sends the server exactly what the application means. In every reachable session, under any
  interleaving and any failures, what was written to the server is nothing, or the V request for a target that
  the application itself asked for (by SOCKS5 or HTTP CONNECT) with the configured user name and password, followed by
  bytes of the application in order; and what was written to the application during the relay is a beginning of
  what the server sent.\<close>

theorem client_upstream_bytes:
  assumes "cl_reach env kind cfg s tr"
  shows "(delivered upstream_payload tr = [] \<or>
     (\<exists>host port. asked env tr host port \<and>
       delivered upstream_payload tr = snd (vr_stream (client_vreq cfg host port) []) @ delivered to_server tr)) \<and>
    prefix (delivered to_server tr) (received Cl_read_local tr) \<and>
    prefix (delivered to_local tr) (received Cl_read_server tr)"
  using assms by (rule upstream_bytes)

text \<open>C14: the relay of a client session never stalls or overtakes itself. While a reachable session is alive and
  relaying, exactly one operation of each direction is outstanding, and what a direction has read is what it has
  written followed by what that operation is writing.\<close>

theorem client_relay_exact:
  assumes "cl_reach env kind cfg s tr" and "\<not> cl_destroyed s" and "relay_op p" and "p \<in> set (cl_pending s)"
  shows "\<exists>u d. mset (cl_pending s) = {#u, d#} \<and>
    (u = Cl_read_local \<and> received Cl_read_local tr = delivered to_server tr \<or>
     (\<exists>b. u = Cl_write_server b \<and> received Cl_read_local tr = delivered to_server tr @ b)) \<and>
    (d = Cl_read_server \<and> received Cl_read_server tr = delivered to_local tr \<or>
     (\<exists>b. d = Cl_write_local b \<and> received Cl_read_server tr = delivered to_local tr @ b))"
proof -
  have inv: "inv_relay env cfg s tr"
    using cl_reach_inv [OF assms(1)] assms(3,4) by (auto simp: cl_inv_def inv_opening_def relay_op_cases)
  obtain u where u: "filter up.belongs (cl_pending s) = [u]" "received Cl_read_local tr = delivered to_server tr @ up.inflight u"
    using inv assms(2) by (auto simp: inv_relay_def up.pump_ok_def)
  obtain d where d: "filter down.belongs (cl_pending s) = [d]" "received Cl_read_server tr = delivered to_local tr @ down.inflight d"
    using inv assms(2) by (auto simp: inv_relay_def down.pump_ok_def)
  have "up.belongs x \<longleftrightarrow> \<not> down.belongs x" if "relay_op x" for x
    using that by (cases x) (simp_all add: relay_op_def belongs_defs)
  then have "filter_mset down.belongs (mset (cl_pending s)) = filter_mset (\<lambda>x. \<not> up.belongs x) (mset (cl_pending s))"
    using inv by (intro filter_mset_cong) (auto simp: inv_relay_def)
  then have "mset (cl_pending s) = mset (filter up.belongs (cl_pending s)) + mset (filter down.belongs (cl_pending s))"
    using multiset_partition [of "mset (cl_pending s)" up.belongs] by simp
  moreover have "up.belongs u" "down.belongs d"
    using u(1) d(1) by (auto simp: filter_eq_Cons_iff)
  then have "u = Cl_read_local \<and> up.inflight u = [] \<or> (\<exists>b. u = Cl_write_server b \<and> up.inflight u = b)"
    "d = Cl_read_server \<and> down.inflight d = [] \<or> (\<exists>b. d = Cl_write_local b \<and> down.inflight d = b)"
    using up_op_cases down_op_cases by blast+
  ultimately show ?thesis
    using u d by (intro exI [of _ u] exI [of _ d]) auto
qed

subsection \<open>Witnesses\<close>

text \<open>A session that has answered \<open>CONNECT h\<close>, connected to the server and sent the V request.\<close>

definition ex_env :: client_env where
  "ex_env = \<lparr>env_to_string = (\<lambda>_. []), env_udp_enabled = True\<rparr>"

definition ex_line :: bytes where
  "ex_line = connect_line [104] [72] @ crlf"

lemma ex_line_parse: "hr_unstream new_http_request ex_line = Inr (True, \<lparr>hr_host = [104], hr_port = 443\<rparr>)"
  using hr_unstream_line [of "[104]" "[72]" new_http_request "[]"] by (simp add: ex_line_def new_http_request_def)

lemma ex_line_fits: "find_str crlf ex_line \<noteq> None" "ex_line \<noteq> []" "length ex_line \<le> CLIENT_BUFF_SIZE" "ex_line ! 0 = 67"
  by (simp_all add: ex_line_def connect_line_def connect_prefix_def ascii_def crlf_def CLIENT_BUFF_SIZE_def)

lemma reach_next:
  assumes "cl_reach env kind cfg s tr" and "cl_pending s = [p]" and "cl_fits p c"
    and "\<exists>cx'. cl_complete env inp p c (cl_finish p s, cx) = Inr (s', cx')"
  shows "cl_reach env kind cfg s' (tr @ [(p, c)])"
  using assms(4) by (auto intro: cl_reach.Step [OF assms(1) _ assms(3)] simp: assms(2))

definition ex_ep :: endpoint where
  "ex_ep = \<lparr>ep_addr = Ip4 10 0 0 1, ep_port = 443\<rparr>"

definition ex_vreq :: bytes where
  "ex_vreq = vr_wire (client_vreq ex_client_config [104] 443)"

definition ex_trace :: client_trace where
  "ex_trace = [(Cl_greeting, Data ex_line), (Cl_read_line ex_line, Data []), (Cl_write_http (http_ok []), Sent (length (http_ok []))),
     (Cl_resolve [] [], Results [ex_ep]), (Cl_connect ex_ep, Done), (Cl_ssl_handshake, Done), (Cl_write_vreq ex_vreq, Sent (length ex_vreq))]"

definition ex_ready :: "client_op \<Rightarrow> client_session \<Rightarrow> bool" where
  "ex_ready p s \<longleftrightarrow> cl_pending s = [p] \<and> cl_kind s = Tls \<and> cl_response_sent s \<and> \<not> cl_destroyed s \<and> cl_remote_host s = [] \<and>
     cl_remote_port s = [] \<and> sq_remote_host (cl_socks5_req s) = [104] \<and> sq_remote_port (cl_socks5_req s) = 443 \<and>
     cl_user_name s = [] \<and> cl_password s = []"

lemma ex_reach_http:
  "\<exists>s. cl_reach ex_env Tls ex_client_config s (take 2 ex_trace) \<and> ex_ready (Cl_write_http (http_ok [])) s"
proof -
  let ?start = "cl_start (cl_new Tls ex_client_config)"
  let ?s = "http_connect_handshake ex_line ((cl_finish Cl_greeting ?start)\<lparr>cl_in_buf := fill (cl_in_buf ?start) ex_line\<rparr>)"
  have "fill (cl_in_buf ?start) ex_line ! 0 = 67"
    using ex_line_fits(2,4) by (simp add: fill_def nth_append)
  then have r: "cl_reach ex_env Tls ex_client_config ?s ([] @ [(Cl_greeting, Data ex_line)])"
    using ex_line_fits(3)
    by (intro reach_next [OF cl_reach.Init, where inp = undefined and cx = undefined])
      (simp_all add: cl_start_def cl_new_def on_greeting_def cl_start_op_def cl_finish_def)
  have "cl_reach ex_env Tls ex_client_config
      (write_http_connect_response ((cl_finish (Cl_read_line ex_line) ?s)\<lparr>cl_http_req := \<lparr>hr_host = [104], hr_port = 443\<rparr>,
        cl_socks5_req := (cl_socks5_req ?s)\<lparr>sq_remote_host := [104], sq_remote_port := 443\<rparr>\<rparr>))
      (([] @ [(Cl_greeting, Data ex_line)]) @ [(Cl_read_line ex_line, Data [])])"
    by (rule reach_next [OF r, where inp = undefined and cx = undefined])
      (use ex_line_fits(1) in \<open>simp_all add: ex_line_parse http_connect_handshake_def cl_start_def cl_new_def on_read_line_def cl_start_op_def cl_finish_def\<close>)
  then show ?thesis
    by (intro exI conjI, simp add: ex_trace_def numeral_2_eq_2)
      (simp add: ex_ready_def write_http_connect_response_def http_connect_handshake_def cl_start_def cl_new_def cl_start_op_def
        cl_finish_def ex_client_config_def Let_def)
qed

lemma ex_advance:
  assumes "cl_reach ex_env Tls ex_client_config s tr" and "ex_ready p s" and "cl_fits p c"
    and "\<And>cx. \<exists>x. cl_complete ex_env undefined p c (cl_finish p s, cx) = Inr (f x (cl_finish p s), cx)"
    and "\<And>x. ex_ready q (f x (cl_finish p s))"
  shows "\<exists>s. cl_reach ex_env Tls ex_client_config s (tr @ [(p, c)]) \<and> ex_ready q s"
  using reach_next [OF assms(1) _ assms(3)] assms(2,4,5) unfolding ex_ready_def by blast

lemma ex_reach_vreq:
  "\<exists>s. cl_reach ex_env Tls ex_client_config s (take 6 ex_trace) \<and> ex_ready (Cl_write_vreq ex_vreq) s"
proof -
  obtain s where s: "cl_reach ex_env Tls ex_client_config s (take 2 ex_trace)" "ex_ready (Cl_write_http (http_ok [])) s"
    using ex_reach_http by blast
  note defs = ex_ready_def cl_finish_def cl_start_op_def
  have "\<exists>s. cl_reach ex_env Tls ex_client_config s (take 2 ex_trace @ [(Cl_write_http (http_ok []), Sent (length (http_ok [])))]) \<and>
      ex_ready (Cl_resolve [] []) s"
    using s(2) by (intro ex_advance [OF s, where f = "\<lambda>x. cl_do_resolve"]) (simp_all add: on_write_http_def cl_do_resolve_def defs)
  then obtain t where t: "cl_reach ex_env Tls ex_client_config t (take 3 ex_trace)" "ex_ready (Cl_resolve [] []) t"
    by (auto simp: ex_trace_def eval_nat_numeral)
  have "\<exists>s. cl_reach ex_env Tls ex_client_config s (take 3 ex_trace @ [(Cl_resolve [] [], Results [ex_ep])]) \<and> ex_ready (Cl_connect ex_ep) s"
    using t(2) by (intro ex_advance [OF t, where f = "\<lambda>x. cl_do_connect ex_ep"]) (simp_all add: cl_on_resolve_def cl_do_connect_def defs)
  then obtain u where u: "cl_reach ex_env Tls ex_client_config u (take 4 ex_trace)" "ex_ready (Cl_connect ex_ep) u"
    by (auto simp: ex_trace_def eval_nat_numeral)
  have "\<exists>s. cl_reach ex_env Tls ex_client_config s (take 4 ex_trace @ [(Cl_connect ex_ep, Done)]) \<and> ex_ready Cl_ssl_handshake s"
    using u(2) by (intro ex_advance [OF u, where f = "\<lambda>x s. do_ssl_handshake (s\<lparr>cl_peer := Some ex_ep\<rparr>)"])
      (simp_all add: cl_on_connect_def do_ssl_handshake_def tls_perform_ssl_handshake_def defs)
  then obtain v where v: "cl_reach ex_env Tls ex_client_config v (take 5 ex_trace)" "ex_ready Cl_ssl_handshake v"
    by (auto simp: ex_trace_def eval_nat_numeral)
  have "\<exists>s. cl_reach ex_env Tls ex_client_config s (take 5 ex_trace @ [(Cl_ssl_handshake, Done)]) \<and> ex_ready (Cl_write_vreq ex_vreq) s"
    using v(2) by (intro ex_advance [OF v, where f = "\<lambda>x. do_sent_v_req"])
      (simp_all add: on_ssl_handshake_def after_ssl_handshake_def tls_after_ssl_handshake_def do_sent_v_req_def defs Let_def
        ex_vreq_def vr_wire_def client_vreq_def ex_client_config_def)
  then show ?thesis
    by (auto simp: ex_trace_def eval_nat_numeral)
qed

lemma ex_reach_relay:
  "\<exists>s. cl_reach ex_env Tls ex_client_config s ex_trace \<and> cl_pending s = [Cl_read_local, Cl_read_server] \<and> \<not> cl_destroyed s"
proof -
  obtain s where s: "cl_reach ex_env Tls ex_client_config s (take 6 ex_trace)" "ex_ready (Cl_write_vreq ex_vreq) s"
    using ex_reach_vreq by blast
  let ?t = "read_packet 3 ((cl_finish (Cl_write_vreq ex_vreq) s)\<lparr>cl_state := C_FORWARD\<rparr>)"
  have "cl_reach ex_env Tls ex_client_config ?t (take 6 ex_trace @ [(Cl_write_vreq ex_vreq, Sent (length ex_vreq))])"
    using s(2) by (intro reach_next [OF s(1), where inp = undefined and cx = undefined])
      (simp_all add: ex_ready_def on_write_vreq_def cl_finish_def)
  moreover have "cl_pending ?t = [Cl_read_local, Cl_read_server]" "\<not> cl_destroyed ?t"
    using s(2) by (simp_all add: ex_ready_def read_packet_def cl_start_op_def cl_finish_def)
  ultimately show ?thesis
    by (auto simp: ex_trace_def eval_nat_numeral)
qed

theorem client_upstream_bytes_witness:
  "\<exists>s host port. cl_reach ex_env Tls ex_client_config s ex_trace \<and> asked ex_env ex_trace host port \<and>
    delivered upstream_payload ex_trace = snd (vr_stream (client_vreq ex_client_config host port) [])"
proof -
  obtain s where s: "cl_reach ex_env Tls ex_client_config s ex_trace"
    using ex_reach_relay by blast
  have "delivered upstream_payload ex_trace = ex_vreq" "delivered to_server ex_trace = []" "ex_vreq \<noteq> []"
    using length_vr_wire [of "client_vreq ex_client_config [104] 443"]
    by (auto simp: delivered_def ex_trace_def ex_vreq_def simp del: length_vr_wire)
  then show ?thesis
    using client_upstream_bytes [OF s] s by auto
qed

theorem client_relay_exact_witness:
  "\<exists>s u d. cl_reach ex_env Tls ex_client_config s ex_trace \<and> mset (cl_pending s) = {#u, d#} \<and>
    (u = Cl_read_local \<and> received Cl_read_local ex_trace = delivered to_server ex_trace \<or> (\<exists>b. u = Cl_write_server b)) \<and>
    (d = Cl_read_server \<and> received Cl_read_server ex_trace = delivered to_local ex_trace \<or> (\<exists>b. d = Cl_write_local b))"
proof -
  obtain s where s: "cl_reach ex_env Tls ex_client_config s ex_trace" "Cl_read_local \<in> set (cl_pending s)" "\<not> cl_destroyed s"
    using ex_reach_relay by auto
  have "relay_op Cl_read_local"
    by (simp add: relay_op_cases)
  then show ?thesis
    using client_relay_exact [OF s(1,3) _ s(2)] s(1) by blast
qed

end
