(* ===== verification/ClientWorld.thy ===== *)
theory ClientWorld
  imports ClientRelay
begin

text \<open>
  The whole client: one server object, its sessions, the heap of relays and the statistics. A step is an accept, a
  completion in one session, a datagram at a relay's local socket, a record from the DTLS channel, the end of its
  handshake, or a call on the server object. The sessions are listed in order of acceptance and stay in the list
  after they were destroyed.
\<close>

subsection \<open>Steps\<close>

text \<open>The handler of a relay's receive, run on the heap. Its shared pointer goes with it.\<close>

definition relay_local ::
    "bool \<Rightarrow> local_recv \<Rightarrow> nat \<Rightarrow> relay_heap \<Rightarrow> proxy_stats \<Rightarrow> (relay_heap \<times> proxy_stats \<times> bytes list) res" where
  "relay_local ready ev a h st =
     rbind (deref a h) (\<lambda>r.
     rbind (rl_on_local ready ev (r\<lparr>rl_receiving := False\<rparr>) st) (\<lambda>(r', st, ps).
       Inr (reclaim a (store a r' h), st, ps)))"

text \<open>Calls on the server object, and activity of the channel, that do not concern relays.\<close>

inductive server_step :: "client_server \<Rightarrow> client_server \<Rightarrow> bool" where
  Start_accept: "cs_start_accept b cs = Inr cs' \<Longrightarrow> server_step cs cs'"
| Stop_accept: "server_step cs (cs_stop_accept cs)"
| Start_dtls: "start_dtls make_address ctx_ok ssl_ok cfg cs = Inr cs' \<Longrightarrow> server_step cs cs'"
| Stop_dtls: "server_step cs (cs_stop_dtls cs)"
| Stop: "server_step cs (cs_stop cs)"
| Channel: "cs_dtls cs = Some c \<Longrightarrow> server_step cs (cs\<lparr>cs_dtls := Some c'\<rparr>)"

inductive world_reach :: "client_env \<Rightarrow> client_config \<Rightarrow> client_ctx \<Rightarrow> client_session list \<Rightarrow> bool" for env cfg where
  Init: "cs_new resolve cfg address port = Inr cs \<Longrightarrow>
    world_reach env cfg \<lparr>cx_server = cs, cx_heap = Map.empty, cx_stats = new_proxy_stats\<rparr> []"
| Server: "world_reach env cfg cx ss \<Longrightarrow> server_step (cx_server cx) cs' \<Longrightarrow> world_reach env cfg (cx\<lparr>cx_server := cs'\<rparr>) ss"
| Accept: "world_reach env cfg cx ss \<Longrightarrow> cs_accepting (cx_server cx) = Some kind \<Longrightarrow>
    cs_on_accept kind ec (cx_server cx) (cx_stats cx) = (cs', st', started) \<Longrightarrow>
    world_reach env cfg (cx\<lparr>cx_server := cs', cx_stats := st'\<rparr>) (ss @ (if started then [cl_start (cl_new kind cfg)] else []))"
| Session: "world_reach env cfg cx (xs @ s # ys) \<Longrightarrow> p \<in> set (cl_pending s) \<Longrightarrow> cl_fits p c \<Longrightarrow>
    cx_heap cx (in_addr inp) = None \<Longrightarrow> cl_complete env inp p c (cl_finish p s, cx) = Inr (s', cx') \<Longrightarrow>
    world_reach env cfg cx' (xs @ s' # ys)"
| Local: "world_reach env cfg cx ss \<Longrightarrow> relay_local ready ev a (cx_heap cx) (cx_stats cx) = Inr (h', st', ps) \<Longrightarrow>
    world_reach env cfg (cx\<lparr>cx_heap := h', cx_stats := st'\<rparr>) ss"
| Record: "world_reach env cfg cx ss \<Longrightarrow> cs_on_dtls_data d (cx_server cx) (cx_heap cx) (cx_stats cx) = Inr (h', st', out) \<Longrightarrow>
    world_reach env cfg (cx\<lparr>cx_heap := h', cx_stats := st'\<rparr>) ss"
| Ready: "world_reach env cfg cx ss \<Longrightarrow> cs_on_handshake order ok (cx_server cx) (cx_heap cx) = Inr (cs', h', ps) \<Longrightarrow>
    world_reach env cfg (cx\<lparr>cx_server := cs', cx_heap := h'\<rparr>) ss"

subsection \<open>What a session's handler does to the shared state\<close>

text \<open>The part of a session the others depend on.\<close>

definition face :: "client_session \<Rightarrow> u16 \<times> nat option \<times> bool" where
  "face s = (cl_session_id s, cl_udp_relay s, cl_destroyed s)"

definition quiet :: "client_session \<Rightarrow> client_ctx \<Rightarrow> client_session \<Rightarrow> client_ctx \<Rightarrow> bool" where
  "quiet s cx s' cx' \<longleftrightarrow> face s' = face s \<and> cx_server cx' = cx_server cx \<and> cx_heap cx' = cx_heap cx \<and>
     sessionCount (cx_stats cx') = sessionCount (cx_stats cx)"

definition destroys :: "client_session \<Rightarrow> client_ctx \<Rightarrow> client_session \<Rightarrow> client_ctx \<Rightarrow> bool" where
  "destroys s cx s' cx' \<longleftrightarrow> (\<exists>u. face u = face s \<and> cl_destroy (u, cx) = (s', cx'))"

definition associates :: "client_input \<Rightarrow> client_session \<Rightarrow> client_ctx \<Rightarrow> client_session \<Rightarrow> client_ctx \<Rightarrow> bool" where
  "associates inp s cx s' cx' \<longleftrightarrow>
     (let sid = cs_next_session_id (cx_server cx); a = in_addr inp in
      face s' = (sid, Some a, cl_destroyed s) \<and>
      cs_next_session_id (cx_server cx') = sid + 1 \<and> cs_relays (cx_server cx') = (cs_relays (cx_server cx))(sid \<mapsto> a) \<and>
      cx_heap cx' = (cx_heap cx)(a \<mapsto> \<lparr>rc_relay = snd (snd (rl_start sid (rl_new (in_port inp)))), rc_owned = True\<rparr>) \<and>
      cx_stats cx' = cx_stats cx)"

lemma face_update [simp]:
  "face (s\<lparr>cl_message_buf := m\<rparr>) = face s" "face (s\<lparr>cl_socks5_req := q\<rparr>) = face s" "face (s\<lparr>cl_http_req := h\<rparr>) = face s"
  "face (s\<lparr>cl_state := st\<rparr>) = face s" "face (s\<lparr>cl_peer := pe\<rparr>) = face s" "face (s\<lparr>cl_response_sent := b\<rparr>) = face s"
  "face (s\<lparr>cl_out_open := b\<rparr>) = face s" "face (s\<lparr>cl_in_buf := ib\<rparr>) = face s" "face (s\<lparr>cl_out_buf := ob\<rparr>) = face s"
  "face (s\<lparr>cl_pending := ops\<rparr>) = face s" "face (cl_start_op p s) = face s" "face (cl_finish p s) = face s"
  by (simp_all add: face_def cl_start_op_def cl_finish_def)

lemma quiet_refl [simp]: "quiet s cx s' cx \<longleftrightarrow> face s' = face s"
  by (simp add: quiet_def)

lemma destroysI: "cl_destroy (u, cx) = (s', cx') \<Longrightarrow> destroys u cx s' cx'"
  by (auto simp: destroys_def)

lemma destroys_update [simp]:
  "destroys (s\<lparr>cl_in_buf := ib\<rparr>) cx s' cx' = destroys s cx s' cx'" "destroys (s\<lparr>cl_socks5_req := q\<rparr>) cx s' cx' = destroys s cx s' cx'"
  "destroys (s\<lparr>cl_http_req := h\<rparr>) cx s' cx' = destroys s cx s' cx'" "destroys (s\<lparr>cl_message_buf := m\<rparr>) cx s' cx' = destroys s cx s' cx'"
  by (simp_all add: destroys_def)

lemma associates_update [simp]:
  "associates inp (s\<lparr>cl_in_buf := ib, cl_socks5_req := q\<rparr>) cx s' cx' = associates inp s cx s' cx'"
  by (simp add: associates_def)

lemmas handler_defs = on_greeting_def on_write_auth_def on_read_line_def on_write_http_def cl_on_resolve_def
  cl_on_connect_def on_ssl_handshake_def on_ws_handshake_def on_write_vreq_def on_write_reply_def on_write_assoc_def
  on_read_control_def on_read_local_def on_read_server_def on_write_server_def on_write_local_def

lemmas starter_defs = write_sock5_hanshake_reply_def http_connect_handshake_def read_socks5_request_def
  write_http_connect_response_def cl_do_resolve_def cl_do_connect_def do_ssl_handshake_def tls_perform_ssl_handshake_def
  ws_perform_ssl_handshake_def after_ssl_handshake_def tls_after_ssl_handshake_def ws_after_ssl_handshake_def
  do_ws_handshake_def do_sent_v_req_def write_socks5_response_def read_packet_def write_packet_def do_read_control_def

lemma face_starters [simp]:
  "face (http_connect_handshake i s) = face s" "face (read_socks5_request s) = face s" "face (write_http_connect_response s) = face s"
  "face (cl_do_resolve s) = face s" "face (cl_do_connect ep s) = face s" "face (do_ssl_handshake s) = face s"
  "face (after_ssl_handshake s) = face s" "face (do_sent_v_req s) = face s" "face (read_packet n s) = face s"
  "face (write_packet n l s) = face s" "face (do_read_control s) = face s"
  by (simp_all add: starter_defs Let_def split: session_kind.splits)

lemma face_socks5_response: "write_socks5_response s = Inr s' \<Longrightarrow> face s' = face s"
  by (auto simp: write_socks5_response_def Let_def split: option.splits if_splits)

lemma assoc_effect:
  assumes "do_handle_socks5_udp_associate inp (s, cx) = Inr (s', cx')"
  shows "destroys s cx s' cx' \<or> associates inp s cx s' cx'"
proof (cases "has_dtls (cx_server cx)")
  case True
  then show ?thesis
    using assms
    by (auto simp: do_handle_socks5_udp_associate_def allocate_session_id_def rl_start_def rl_new_def Let_def
        associates_def register_relay_def face_def cl_start_op_def)
next
  case False
  then show ?thesis
    using assms by (auto simp: do_handle_socks5_udp_associate_def assoc_refused_def Let_def split: if_splits dest!: destroysI)
qed

lemma read_request_effect:
  assumes "on_read_request ts ue inp c (s, cx) = Inr (s', cx')"
  shows "quiet s cx s' cx' \<or> destroys s cx s' cx' \<or> associates inp s cx s' cx'"
proof (cases c)
  case (Data d)
  then show ?thesis
    using assms
    by (auto simp: on_read_request_def rbind_def Let_def assoc_refused_def split: sum.splits if_splits
        dest!: destroysI assoc_effect)
qed (use assms in \<open>auto simp: on_read_request_def dest!: destroysI\<close>)

lemma write_reply_effect:
  "write_sock5_hanshake_reply req (s, cx) = (s', cx') \<Longrightarrow> quiet s cx s' cx' \<or> destroys s cx s' cx'"
  by (auto simp: write_sock5_hanshake_reply_def Let_def split: if_splits dest!: destroysI)

lemma complete_effect:
  assumes "cl_complete env inp p c (s, cx) = Inr (s', cx')"
  shows "quiet s cx s' cx' \<or> destroys s cx s' cx' \<or> p = Cl_read_request \<and> associates inp s cx s' cx'"
proof -
  have stats: "sessionCount (addUpstreamDelta n st) = sessionCount st" "sessionCount (addDownstreamDelta n st) = sessionCount st" for n st
    by (simp_all add: sessionCount_def addUpstreamDelta_def addDownstreamDelta_def)
  have "quiet s cx s' cx' \<or> destroys s cx s' cx'" if "p \<noteq> Cl_read_request"
    using assms that
    by (cases p)
      (auto simp: handler_defs rbind_def Let_def quiet_def stats face_socks5_response
        split: completion.splits sum.splits if_splits list.splits dest!: destroysI write_reply_effect)
  then show ?thesis
    using assms read_request_effect [of "env_to_string env" "env_udp_enabled env" inp c s cx s' cx']
    by (cases "p = Cl_read_request") auto
qed


subsection \<open>An association is made at most once\<close>

text \<open>Until the request is read, the session has no id and no relay, and nothing else is outstanding.\<close>

definition early_ok :: "client_session \<Rightarrow> bool" where
  "early_ok s \<longleftrightarrow> (\<forall>p \<in> set (cl_pending s). early_op p \<longrightarrow>
     cl_pending s = [p] \<and> cl_session_id s = 0 \<and> cl_udp_relay s = None \<and> \<not> cl_destroyed s)"

definition late_ops :: "client_session \<Rightarrow> bool" where
  "late_ops s \<longleftrightarrow> (\<forall>p \<in> set (cl_pending s). \<not> early_op p)"

lemma late_destroy [simp]: "late_ops (fst (cl_destroy (s, cx))) = late_ops s"
  by (simp add: late_ops_def)

lemma late_destroyD: "cl_destroy (s, cx) = (s', cx') \<Longrightarrow> late_ops s' = late_ops s"
  using late_destroy [of s cx] by simp

lemma late_update [simp]:
  "late_ops (s\<lparr>cl_message_buf := m\<rparr>) = late_ops s" "late_ops (s\<lparr>cl_socks5_req := q\<rparr>) = late_ops s" "late_ops (s\<lparr>cl_http_req := h\<rparr>) = late_ops s"
  "late_ops (s\<lparr>cl_state := st\<rparr>) = late_ops s" "late_ops (s\<lparr>cl_peer := pe\<rparr>) = late_ops s" "late_ops (s\<lparr>cl_response_sent := b\<rparr>) = late_ops s"
  "late_ops (s\<lparr>cl_out_open := b\<rparr>) = late_ops s" "late_ops (s\<lparr>cl_in_buf := ib\<rparr>) = late_ops s" "late_ops (s\<lparr>cl_out_buf := ob\<rparr>) = late_ops s"
  "late_ops (s\<lparr>cl_session_id := i, cl_udp_relay := r\<rparr>) = late_ops s"
  "late_ops (cl_start_op p s) \<longleftrightarrow> late_ops s \<and> \<not> early_op p"
  by (auto simp: late_ops_def cl_start_op_def)

lemma late_starters [simp]:
  "late_ops (write_http_connect_response s) = late_ops s" "late_ops (cl_do_resolve s) = late_ops s"
  "late_ops (cl_do_connect ep s) = late_ops s" "late_ops (do_ssl_handshake s) = late_ops s"
  "late_ops (after_ssl_handshake s) = late_ops s" "late_ops (do_sent_v_req s) = late_ops s" "late_ops (read_packet n s) = late_ops s"
  "late_ops (write_packet n l s) = late_ops s" "late_ops (do_read_control s) = late_ops s"
  by (simp_all add: starter_defs Let_def split: session_kind.splits)

lemma late_socks5_response: "write_socks5_response s = Inr s' \<Longrightarrow> late_ops s' = late_ops s"
  by (auto simp: write_socks5_response_def Let_def split: option.splits if_splits)

lemma late_complete:
  assumes "cl_complete env inp p c (s, cx) = Inr (s', cx')" and "\<not> early_op p" and "late_ops s"
  shows "late_ops s'"
  using assms
  by (cases p)
    (auto simp: handler_defs rbind_def Let_def late_socks5_response split: completion.splits sum.splits if_splits list.splits dest!: late_destroyD)

lemma late_associate:
  assumes "do_handle_socks5_udp_associate inp (s, cx) = Inr (s', cx')" and "late_ops s"
  shows "late_ops s'"
  using assms
  by (auto simp: do_handle_socks5_udp_associate_def assoc_refused_def Let_def split: if_splits prod.splits dest!: late_destroyD)

lemma late_request:
  assumes "on_read_request ts ue inp c (s, cx) = Inr (s', cx')" and "late_ops s"
  shows "late_ops s'"
  using assms
  by (auto simp: on_read_request_def rbind_def Let_def assoc_refused_def
      split: completion.splits sum.splits if_splits dest!: late_destroyD late_associate)

lemma early_ok_step:
  assumes ok: "early_ok s" and p: "p \<in> set (cl_pending s)" and step: "cl_complete env inp p c (cl_finish p s, cx) = Inr (s', cx')"
  shows "early_ok s'"
proof (cases "early_op p")
  case False
  have "\<not> early_op q" if "q \<in> set (cl_pending s)" for q
  proof
    assume "early_op q"
    then have "cl_pending s = [q]"
      using ok that unfolding early_ok_def by blast
    then show False
      using p False \<open>early_op q\<close> by simp
  qed
  then have "late_ops (cl_finish p s)"
    using set_remove1_subset [of p "cl_pending s"] by (auto simp: late_ops_def)
  then show ?thesis
    using late_complete [OF step False] by (simp add: early_ok_def late_ops_def)
next
  case True
  then have s: "cl_pending (cl_finish p s) = []" "face (cl_finish p s) = (0, None, False)"
    using ok p by (auto simp: early_ok_def face_def cl_finish_def)
  have late: "early_ok u" if "late_ops u" for u
    using that by (auto simp: early_ok_def late_ops_def)
  have empty: "late_ops u" if "cl_pending u = []" for u
    using that by (simp add: late_ops_def)
  have single: "early_ok (cl_start_op q u)" if "cl_pending u = []" "face u = (0, None, False)" for q u
    using that by (auto simp: early_ok_def face_def cl_start_op_def)
  have destroy: "early_ok s'" if "cl_destroy (u, cx) = (s', cx')" "cl_pending u = []" for u
    using late_destroyD [OF that(1)] empty [OF that(2)] late by simp
  have auth: "early_ok s'" if "write_sock5_hanshake_reply r (u, cx) = (s', cx')" "cl_pending u = []" "face u = (0, None, False)" for r u
    using that destroy single by (auto simp: write_sock5_hanshake_reply_def Let_def split: if_splits)
  have line: "early_ok s'" if "on_read_line b c (cl_finish p s, cx) = Inr (s', cx')" for b
    using that destroy empty [OF s(1)] late s(1)
    by (auto simp: on_read_line_def rbind_def Let_def split: completion.splits sum.splits if_splits)
  have greeting: "early_ok s'" if "on_greeting c (cl_finish p s, cx) = Inr (s', cx')"
    using that destroy auth single s
    by (auto simp: on_greeting_def http_connect_handshake_def rbind_def Let_def split: completion.splits sum.splits if_splits)
  have written: "early_ok s'" if "on_write_auth c (cl_finish p s, cx) = (s', cx')"
    using that destroy single s by (auto simp: on_write_auth_def read_socks5_request_def split: completion.splits if_splits)
  show ?thesis
    using True step line greeting written late late_request empty [OF s(1)] by (cases p) auto
qed


subsection \<open>Invariant of the client\<close>

text \<open>The ids of the sessions that ever had an association, as long as no id is 0. They are those handed out, once
  each.\<close>

definition ids :: "client_session list \<Rightarrow> u16 list" where
  "ids ss = filter (\<lambda>i. i \<noteq> 0) (map cl_session_id ss)"

definition ids_ok :: "client_server \<Rightarrow> client_session list \<Rightarrow> bool" where
  "ids_ok cs ss \<longleftrightarrow> cs_next_session_id cs = of_nat (Suc (length (ids ss))) \<and> distinct (ids ss) \<and>
     (\<forall>i \<in> set (ids ss). unat i \<le> length (ids ss))"

text \<open>The table maps an id to the relay of the live session with that id, and nothing else.\<close>

definition table_ok :: "client_server \<Rightarrow> client_session list \<Rightarrow> bool" where
  "table_ok cs ss \<longleftrightarrow> (\<forall>i a. cs_relays cs i = Some a \<longleftrightarrow> (\<exists>s \<in> set ss. cl_session_id s = i \<and> cl_udp_relay s = Some a))"

text \<open>A session's relay is alive and knows the session's id.\<close>

definition relay_at :: "relay_heap \<Rightarrow> nat \<Rightarrow> u16 \<Rightarrow> bool" where
  "relay_at h a i \<longleftrightarrow> (\<exists>cell. h a = Some cell \<and> rc_owned cell \<and> rl_running (rc_relay cell) \<and> rl_session_id (rc_relay cell) = i)"

definition heap_ok :: "relay_heap \<Rightarrow> client_session list \<Rightarrow> bool" where
  "heap_ok h ss \<longleftrightarrow> (\<forall>s \<in> set ss. \<forall>a. cl_udp_relay s = Some a \<longrightarrow>
     cl_session_id s \<noteq> 0 \<and> \<not> cl_destroyed s \<and> relay_at h a (cl_session_id s))"

definition world_ok :: "client_server \<Rightarrow> relay_heap \<Rightarrow> client_session list \<Rightarrow> bool" where
  "world_ok cs h ss \<longleftrightarrow> ids_ok cs ss \<and> table_ok cs ss \<and> heap_ok h ss"

lemma world_ok_server:
  assumes "world_ok cs h ss" and "cs_relays cs' = cs_relays cs" and "cs_next_session_id cs' = cs_next_session_id cs"
  shows "world_ok cs' h ss"
  using assms by (simp add: world_ok_def ids_ok_def table_ok_def)

lemma world_ok_heap:
  assumes "world_ok cs h ss" and "\<And>a i. relay_at h a i \<Longrightarrow> relay_at h' a i"
  shows "world_ok cs h' ss"
  using assms by (auto simp: world_ok_def heap_ok_def)

lemma ids_simps [simp]:
  "ids [] = []" "ids (xs @ ys) = ids xs @ ids ys"
  "ids (s # ss) = (if cl_session_id s \<noteq> 0 then [cl_session_id s] else []) @ ids ss"
  by (simp_all add: ids_def)

lemma length_ids: "length (ids ss) \<le> length ss"
  unfolding ids_def by (rule order_trans [OF length_filter_le]) simp

lemma ids_mem: "s \<in> set ss \<Longrightarrow> cl_session_id s \<noteq> 0 \<Longrightarrow> cl_session_id s \<in> set (ids ss)"
  by (simp add: ids_def)

lemma world_ok_cong:
  assumes "world_ok cs h (xs @ s # ys)" and "face s' = face s"
  shows "world_ok cs h (xs @ s' # ys)"
proof -
  have f: "cl_session_id s' = cl_session_id s" "cl_udp_relay s' = cl_udp_relay s" "cl_destroyed s' = cl_destroyed s"
    using assms(2) by (simp_all add: face_def)
  have "ids (xs @ s' # ys) = ids (xs @ s # ys)"
    by (simp add: f)
  then have "ids_ok cs (xs @ s' # ys) = ids_ok cs (xs @ s # ys)"
    by (simp only: ids_ok_def)
  then have "ids_ok cs (xs @ s' # ys)"
    using assms(1) by (simp add: world_ok_def)
  moreover have "table_ok cs (xs @ s' # ys)" "heap_ok h (xs @ s' # ys)"
    using assms(1) by (simp_all add: world_ok_def table_ok_def heap_ok_def f)
  ultimately show ?thesis
    by (simp add: world_ok_def)
qed

text \<open>The other sessions have other ids.\<close>

lemma other_ids:
  assumes "ids_ok cs (xs @ s # ys)" and "t \<in> set xs \<union> set ys" and "cl_session_id t \<noteq> 0"
  shows "cl_session_id t \<noteq> cl_session_id s"
proof
  assume eq: "cl_session_id t = cl_session_id s"
  then have "distinct (ids xs @ [cl_session_id t] @ ids ys)"
    using assms(1,3) by (simp add: ids_ok_def)
  moreover have "cl_session_id t \<in> set (ids xs) \<union> set (ids ys)"
    using assms(2,3) ids_mem by blast
  ultimately show False
    by auto
qed

lemma store_relay_at:
  assumes "relay_at h b i" and "deref a h = Inr r" and "rl_running r' = rl_running r" and "rl_session_id r' = rl_session_id r"
  shows "relay_at (store a r' h) b i"
  using assms by (auto simp: relay_at_def store_def deref_def split: option.splits)

lemma reclaim_relay_at: "relay_at h b i \<Longrightarrow> relay_at (reclaim a h) b i"
  by (auto simp: relay_at_def reclaim_def split: option.splits)

lemma deref_relay_at: "relay_at h a i \<Longrightarrow> \<exists>r. deref a h = Inr r \<and> rl_running r \<and> rl_session_id r = i"
  by (auto simp: relay_at_def deref_def)

lemma rl_on_local_keeps:
  "rl_on_local ready ev r st = Inr (r', st', ps) \<Longrightarrow>
    rl_running r' = rl_running r \<and> rl_session_id r' = rl_session_id r \<and> sessionCount st' = sessionCount st"
  by (auto simp: rl_on_local_def rl_do_receive_local_def Let_def rbind_def addUpstreamDelta_def sessionCount_def
      split: local_recv.splits if_splits sum.splits)

lemma rl_on_dtls_data_keeps:
  "rl_on_dtls_data d r st = Inr (r', st', out) \<Longrightarrow>
    rl_running r' = rl_running r \<and> rl_session_id r' = rl_session_id r \<and> sessionCount st' = sessionCount st"
  by (auto simp: rl_on_dtls_data_def Let_def rbind_def addDownstreamDelta_def sessionCount_def
      split: if_splits sum.splits option.splits)

lemma relay_local_keeps:
  assumes "relay_local ready ev a h st = Inr (h', st', ps)"
  shows "relay_at h b i \<Longrightarrow> relay_at h' b i" "sessionCount st' = sessionCount st"
proof -
  obtain r r' st1 where r: "deref a h = Inr r" "rl_on_local ready ev (r\<lparr>rl_receiving := False\<rparr>) st = Inr (r', st', ps)"
    "h' = reclaim a (store a r' h)"
    using assms by (auto simp: relay_local_def rbind_def split: sum.splits)
  note keeps = rl_on_local_keeps [OF r(2)]
  show "sessionCount st' = sessionCount st"
    using keeps by simp
  show "relay_at h' b i" if "relay_at h b i"
    using store_relay_at [OF that r(1), of r'] keeps by (simp add: r(3) reclaim_relay_at)
qed

lemma on_dtls_data_keeps:
  assumes "cs_on_dtls_data d cs h st = Inr (h', st', out)"
  shows "relay_at h b i \<Longrightarrow> relay_at h' b i" "sessionCount st' = sessionCount st"
proof -
  have "h' = h \<and> st' = st \<or> (\<exists>a r r'. deref a h = Inr r \<and> rl_on_dtls_data (drop 2 d) r st = Inr (r', st', out) \<and> h' = store a r' h)"
    using assms by (auto simp: cs_on_dtls_data_def Let_def rbind_def split: if_splits option.splits sum.splits)
  then consider "h' = h" "st' = st" | a r r' where "deref a h = Inr r" "rl_on_dtls_data (drop 2 d) r st = Inr (r', st', out)" "h' = store a r' h"
    by blast
  note cases = this
  show "sessionCount st' = sessionCount st"
    using cases rl_on_dtls_data_keeps by cases auto
  show "relay_at h' b i" if "relay_at h b i"
    using cases
  proof cases
    case (2 a r r')
    then show ?thesis
      using store_relay_at [OF that 2(1), of r'] rl_on_dtls_data_keeps [OF 2(2)] by simp
  qed (use that in simp)
qed

lemma flush_relays_keeps:
  "flush_relays ready sids cs h = Inr (h', ps) \<Longrightarrow> relay_at h b i \<Longrightarrow> relay_at h' b i"
proof (induction sids arbitrary: h ps)
  case (Cons sid sids)
  obtain a r r' ps' where r: "deref a h = Inr r" "rl_flush_pending ready r = (r', ps')"
    "\<exists>qs. flush_relays ready sids cs (store a r' h) = Inr (h', qs)"
    using Cons.prems(1) by (auto simp: rbind_def Let_def split: option.splits sum.splits prod.splits)
  have "rl_running r' = rl_running r" "rl_session_id r' = rl_session_id r"
    using r(2) by (auto simp: rl_flush_pending_def split: if_splits)
  then show ?case
    using Cons.IH r(3) store_relay_at [OF Cons.prems(2) r(1), of r'] by blast
qed simp


subsection \<open>The invariant is kept\<close>

lemma release_other: "relay_at h b i \<Longrightarrow> b \<noteq> a \<Longrightarrow> relay_at (release_relay a h) b i"
  by (auto simp: relay_at_def release_relay_def reclaim_def split: option.splits)

lemma destroy_out_fields [simp]:
  "cl_session_id (destroy_out_socket s) = cl_session_id s" "cl_udp_relay (destroy_out_socket s) = cl_udp_relay s"
  "cl_destroyed (destroy_out_socket s) = cl_destroyed s"
  by (simp_all add: destroy_out_socket_def tls_destroy_out_socket_def ws_destroy_out_socket_def split: session_kind.splits)

lemma close_in_fields [simp]:
  fixes s :: client_session
  shows "cl_session_id (if b then s\<lparr>cl_in_open := False\<rparr> else s) = cl_session_id s"
    "cl_udp_relay (if b then s\<lparr>cl_in_open := False\<rparr> else s) = cl_udp_relay s"
    "cl_destroyed (if b then s\<lparr>cl_in_open := False\<rparr> else s) = cl_destroyed s"
  by simp_all

lemma cl_destroy_ctx:
  assumes "\<not> cl_destroyed u"
  shows "snd (cl_destroy (u, cx)) = cx\<lparr>cx_stats := sessionDestroyed (cx_stats cx),
      cx_server := if cl_session_id u \<noteq> 0 then unregister_relay (cl_session_id u) (cx_server cx) else cx_server cx,
      cx_heap := case cl_udp_relay u of Some a \<Rightarrow> release_relay a (cx_heap cx) | None \<Rightarrow> cx_heap cx\<rparr>"
  by (cases "cl_udp_relay u"; cases "cl_session_id u = 0") (simp_all add: cl_destroy_def Let_def assms)

lemma cl_destroy_face:
  assumes "\<not> cl_destroyed u"
  shows "face (fst (cl_destroy (u, cx))) = (cl_session_id u, None, True)"
  by (cases "cl_udp_relay u") (simp_all add: cl_destroy_def Let_def assms face_def)

lemma cl_destroy_effect:
  assumes "cl_destroy (u, cx) = (s', cx')" and "\<not> cl_destroyed u"
  shows "face s' = (cl_session_id u, None, True)"
    "cs_next_session_id (cx_server cx') = cs_next_session_id (cx_server cx)"
    "cs_relays (cx_server cx') = (if cl_session_id u \<noteq> 0 then (cs_relays (cx_server cx))(cl_session_id u := None) else cs_relays (cx_server cx))"
    "cx_heap cx' = (case cl_udp_relay u of Some a \<Rightarrow> release_relay a (cx_heap cx) | None \<Rightarrow> cx_heap cx)"
    "sessionCount (cx_stats cx') = sessionCount (cx_stats cx) - 1"
  using cl_destroy_face [OF assms(2), of cx] cl_destroy_ctx [OF assms(2), of cx]
  by (simp_all add: assms(1) unregister_relay_def sessionDestroyed_def sessionCount_def)

lemma destroy_world_ok:
  assumes ok: "world_ok (cx_server cx) (cx_heap cx) (xs @ u # ys)" and d: "cl_destroy (u, cx) = (s', cx')" and live: "\<not> cl_destroyed u"
  shows "world_ok (cx_server cx') (cx_heap cx') (xs @ s' # ys)"
proof -
  note eff = cl_destroy_effect [OF d live]
  let ?i = "cl_session_id u"
  have s': "cl_session_id s' = ?i" "cl_udp_relay s' = None"
    using eff(1) by (simp_all add: face_def)
  have ids: "ids_ok (cx_server cx) (xs @ u # ys)" and tab: "table_ok (cx_server cx) (xs @ u # ys)"
    and heap: "heap_ok (cx_heap cx) (xs @ u # ys)"
    using ok by (simp_all add: world_ok_def)
  have "ids (xs @ s' # ys) = ids (xs @ u # ys)"
    by (simp add: s')
  then have "ids_ok (cx_server cx') (xs @ s' # ys) = ids_ok (cx_server cx) (xs @ u # ys)"
    by (simp only: ids_ok_def eff(2))
  moreover have "table_ok (cx_server cx') (xs @ s' # ys)"
  proof -
    have u0: "cl_udp_relay u = None" if "?i = 0"
      using heap that by (cases "cl_udp_relay u") (auto simp: heap_ok_def)
    have "cs_relays (cx_server cx') i = Some a \<longleftrightarrow> (\<exists>s \<in> set (xs @ s' # ys). cl_session_id s = i \<and> cl_udp_relay s = Some a)" for i a
    proof (cases "i = ?i \<and> ?i \<noteq> 0")
      case True
      have "cl_session_id t \<noteq> i" if "t \<in> set xs \<union> set ys" for t
        using other_ids [OF ids that] True by (cases "cl_session_id t = 0") auto
      then show ?thesis
        using True eff(3) s'(2) by auto
    next
      case False
      then have "cs_relays (cx_server cx') i = cs_relays (cx_server cx) i"
        using eff(3) by auto
      moreover have "cl_udp_relay u \<noteq> Some a \<or> cl_session_id u \<noteq> i"
        using False u0 by auto
      ultimately show ?thesis
        using tab s' by (auto simp: table_ok_def)
    qed
    then show ?thesis
      unfolding table_ok_def by blast
  qed
  moreover have "heap_ok (cx_heap cx') (xs @ s' # ys)"
    unfolding heap_ok_def
  proof (intro ballI allI impI)
    fix t a
    assume t: "t \<in> set (xs @ s' # ys)" "cl_udp_relay t = Some a"
    then have mem: "t \<in> set xs \<union> set ys"
      using s'(2) by auto
    then have good: "cl_session_id t \<noteq> 0" "\<not> cl_destroyed t" "relay_at (cx_heap cx) a (cl_session_id t)"
      using heap t(2) by (auto simp: heap_ok_def)
    have "relay_at (cx_heap cx') a (cl_session_id t)"
    proof (cases "cl_udp_relay u")
      case (Some b)
      then have "relay_at (cx_heap cx) b ?i"
        using heap by (auto simp: heap_ok_def)
      then have "a \<noteq> b"
        using good(3) other_ids [OF ids mem good(1)] by (auto simp: relay_at_def)
      then show ?thesis
        using release_other [OF good(3)] eff(4) Some by simp
    qed (use good(3) eff(4) in simp)
    then show "cl_session_id t \<noteq> 0 \<and> \<not> cl_destroyed t \<and> relay_at (cx_heap cx') a (cl_session_id t)"
      using good by simp
  qed
  ultimately show ?thesis
    using ids by (simp add: world_ok_def)
qed

lemma assoc_world_ok:
  assumes ok: "world_ok (cx_server cx) (cx_heap cx) (xs @ s # ys)" and a: "associates inp s cx s' cx'"
    and fresh: "cx_heap cx (in_addr inp) = None" and early: "cl_session_id s = 0" "cl_udp_relay s = None" "\<not> cl_destroyed s"
    and bound: "length (xs @ s # ys) \<le> 65535"
  shows "world_ok (cx_server cx') (cx_heap cx') (xs @ s' # ys)"
proof -
  define i where "i = cs_next_session_id (cx_server cx)"
  have s': "cl_session_id s' = i" "cl_udp_relay s' = Some (in_addr inp)" "\<not> cl_destroyed s'"
    using a early(3) by (simp_all add: associates_def i_def face_def Let_def)
  have cx': "cs_next_session_id (cx_server cx') = i + 1" "cs_relays (cx_server cx') = (cs_relays (cx_server cx))(i \<mapsto> in_addr inp)"
    "cx_heap cx' = (cx_heap cx)(in_addr inp \<mapsto> \<lparr>rc_relay = snd (snd (rl_start i (rl_new (in_port inp)))), rc_owned = True\<rparr>)"
    using a by (simp_all add: associates_def i_def Let_def)
  let ?n = "length (ids (xs @ s # ys))"
  have n: "?n \<le> 65534" "?n = length (ids xs) + length (ids ys)"
    using bound early(1) length_ids [of xs] length_ids [of ys] by simp_all
  have ids: "ids_ok (cx_server cx) (xs @ s # ys)" and tab: "table_ok (cx_server cx) (xs @ s # ys)" and heap: "heap_ok (cx_heap cx) (xs @ s # ys)"
    using ok by (simp_all add: world_ok_def)
  have i: "i = of_nat (Suc ?n)"
    using ids by (simp add: ids_ok_def i_def)
  then have ui: "unat i = Suc ?n"
    using n(1) by (simp only: unat_of_nat) simp
  then have "i \<noteq> 0"
    by auto
  have new: "i \<notin> set (ids xs) \<union> set (ids ys)"
  proof
    assume "i \<in> set (ids xs) \<union> set (ids ys)"
    then have "i \<in> set (ids (xs @ s # ys))"
      by auto
    then have "unat i \<le> ?n"
      using ids unfolding ids_ok_def by blast
    then show False
      using ui by simp
  qed
  have old: "distinct (ids xs @ ids ys)" "\<forall>j \<in> set (ids xs) \<union> set (ids ys). unat j \<le> ?n"
    using ids early(1) by (simp_all add: ids_ok_def)
  have ids': "ids (xs @ s' # ys) = ids xs @ [i] @ ids ys"
    using \<open>i \<noteq> 0\<close> by (simp add: s')
  have "i + 1 = of_nat (Suc (Suc ?n))"
    by (simp add: i)
  moreover have "distinct (ids xs @ [i] @ ids ys)"
    using old(1) new by auto
  moreover have "\<forall>j \<in> set (ids xs @ [i] @ ids ys). unat j \<le> Suc ?n"
    using old(2) ui by (auto intro: le_SucI)
  ultimately have "ids_ok (cx_server cx') (xs @ s' # ys)"
    unfolding ids_ok_def ids' cx'(1) using n(2) by simp
  moreover have "table_ok (cx_server cx') (xs @ s' # ys)"
  proof -
    have none: "\<forall>t \<in> set xs \<union> set ys. cl_session_id t \<noteq> i"
      using new ids_mem \<open>i \<noteq> 0\<close> by blast
    show ?thesis
      using tab early(2) none by (auto simp: table_ok_def cx'(2) s')
  qed
  moreover have "heap_ok (cx_heap cx') (xs @ s' # ys)"
  proof -
    have "relay_at (cx_heap cx') (in_addr inp) i"
      by (simp add: relay_at_def cx'(3) rl_start_def rl_new_def rl_do_receive_local_def)
    moreover have "relay_at (cx_heap cx') b j" if "relay_at (cx_heap cx) b j" for b j
      using that fresh by (auto simp: relay_at_def cx'(3))
    ultimately show ?thesis
      using heap \<open>i \<noteq> 0\<close> by (auto simp: heap_ok_def s')
  qed
  ultimately show ?thesis
    by (simp add: world_ok_def)
qed

lemma session_world_ok:
  assumes ok: "world_ok (cx_server cx) (cx_heap cx) (xs @ s # ys)" and early: "early_ok s" and p: "p \<in> set (cl_pending s)"
    and fresh: "cx_heap cx (in_addr inp) = None" and step: "cl_complete env inp p c (cl_finish p s, cx) = Inr (s', cx')"
    and bound: "length (xs @ s # ys) \<le> 65535"
  shows "world_ok (cx_server cx') (cx_heap cx') (xs @ s' # ys)"
proof -
  let ?s = "cl_finish p s"
  have ok': "world_ok (cx_server cx) (cx_heap cx) (xs @ u # ys)" if "face u = face ?s" for u
    using world_ok_cong [OF ok, of u] that by simp
  from complete_effect [OF step] consider "quiet ?s cx s' cx'" | u where "face u = face ?s" "cl_destroy (u, cx) = (s', cx')"
    | "p = Cl_read_request" "associates inp ?s cx s' cx'"
    by (auto simp: destroys_def)
  then show ?thesis
  proof cases
    case 1
    then show ?thesis
      using ok' [of s'] by (simp add: quiet_def)
  next
    case (2 u)
    show ?thesis
    proof (cases "cl_destroyed u")
      case True
      then show ?thesis
        using 2(2) ok' [OF 2(1)] by (simp add: cl_destroy_def)
    qed (rule destroy_world_ok [OF ok' [OF 2(1)] 2(2)])
  next
    case 3
    have "face s = (0, None, False)"
      using early p 3(1) by (auto simp: early_ok_def face_def)
    then have "cl_session_id ?s = 0" "cl_udp_relay ?s = None" "\<not> cl_destroyed ?s"
      by (simp_all add: face_def cl_finish_def)
    then show ?thesis
      using assoc_world_ok [OF ok' [OF refl] 3(2) fresh] bound by simp
  qed
qed

lemma server_step_keeps:
  "server_step cs cs' \<Longrightarrow> cs_relays cs' = cs_relays cs \<and> cs_next_session_id cs' = cs_next_session_id cs"
  by (induction rule: server_step.induct)
    (auto simp: cs_start_accept_def cs_do_accept_def do_accept_ws_def do_accept_tls_def cs_stop_accept_def start_dtls_def
      rbind_def cs_stop_dtls_def cs_stop_def Let_def split: if_splits sum.splits option.splits)

lemma on_accept_keeps:
  assumes "cs_on_accept kind ec cs st = (cs', st', started)"
  shows "cs_relays cs' = cs_relays cs \<and> cs_next_session_id cs' = cs_next_session_id cs"
    "sessionCount st' = sessionCount st + (if started then 1 else 0)"
  using assms
  by (auto simp: cs_on_accept_def on_accept_tls_def on_accept_ws_def do_accept_tls_def do_accept_ws_def sessionCreated_def
      sessionCount_def Let_def split: session_kind.splits if_splits)

lemma new_session_face: "face (cl_start (cl_new kind cfg)) = (0, None, False)"
  by (simp add: cl_start_def cl_new_def face_def cl_start_op_def)

lemma new_session_world_ok:
  assumes "world_ok cs h ss" and "face s = (0, None, False)"
  shows "world_ok cs h (ss @ [s])"
  using assms by (auto simp: world_ok_def ids_ok_def table_ok_def heap_ok_def face_def)

lemma handshake_keeps:
  assumes "cs_on_handshake order ok cs h = Inr (cs', h', ps)"
  shows "cs_relays cs' = cs_relays cs \<and> cs_next_session_id cs' = cs_next_session_id cs" "relay_at h a i \<Longrightarrow> relay_at h' a i"
  using assms flush_relays_keeps
  by (auto simp: cs_on_handshake_def Let_def rbind_def split: if_splits sum.splits)

lemma world_early: "world_reach env cfg cx ss \<Longrightarrow> \<forall>s \<in> set ss. early_ok s"
proof (induction rule: world_reach.induct)
  case (Accept cx ss kind ec cs' st' started)
  then show ?case
    by (auto simp: early_ok_def cl_start_def cl_new_def cl_start_op_def)
next
  case (Session cx xs s ys p c inp s' cx')
  then show ?case
    using early_ok_step [OF _ Session.hyps(2,5)] by auto
qed simp_all

lemma world_reach_ok:
  "world_reach env cfg cx ss \<Longrightarrow> length ss \<le> 65535 \<Longrightarrow> world_ok (cx_server cx) (cx_heap cx) ss"
proof (induction rule: world_reach.induct)
  case (Init resolve address port cs)
  then show ?case
    by (auto simp: cs_new_def rbind_def world_ok_def ids_ok_def table_ok_def heap_ok_def split: sum.splits list.splits)
next
  case (Server cx ss cs')
  then show ?case
    using world_ok_server [OF Server.IH] server_step_keeps [OF Server.hyps(2)] by simp
next
  case (Accept cx ss kind ec cs' st' started)
  have "world_ok cs' (cx_heap cx) ss"
    using Accept.IH Accept.prems world_ok_server on_accept_keeps(1) [OF Accept.hyps(3)] by simp
  then show ?case
    using new_session_world_ok [OF _ new_session_face] by simp
next
  case (Session cx xs s ys p c inp s' cx')
  have "early_ok s"
    using world_early [OF Session.hyps(1)] by simp
  then show ?case
    using session_world_ok [OF _ _ Session.hyps(2,4,5)] Session.IH Session.prems by simp
next
  case (Local cx ss ready ev a h' st' ps)
  then show ?case
    using world_ok_heap [OF Local.IH] relay_local_keeps(1) [OF Local.hyps(2)] by simp
next
  case (Record cx ss d h' st' out)
  then show ?case
    using world_ok_heap [OF Record.IH] on_dtls_data_keeps(1) [OF Record.hyps(2)] by simp
next
  case (Ready cx ss order ok cs' h' ps)
  then show ?case
    using world_ok_server [OF world_ok_heap [OF Ready.IH]] handshake_keeps [OF Ready.hyps(2)] by simp
qed

lemma flush_relays_total:
  assumes "\<forall>i \<in> set order. \<exists>a. cs_relays cs i = Some a \<and> relay_at h a i"
  shows "\<exists>h' ps. flush_relays ready order cs h = Inr (h', ps)"
  using assms
proof (induction order arbitrary: h)
  case (Cons i order)
  obtain a r where a: "cs_relays cs i = Some a" "deref a h = Inr r"
    using Cons.prems deref_relay_at by fastforce
  obtain r' ps where r': "rl_flush_pending ready r = (r', ps)"
    by (cases "rl_flush_pending ready r")
  then have "rl_running r' = rl_running r" "rl_session_id r' = rl_session_id r"
    by (auto simp: rl_flush_pending_def split: if_splits)
  then have "\<forall>j \<in> set order. \<exists>b. cs_relays cs j = Some b \<and> relay_at (store a r' h) b j"
    using Cons.prems store_relay_at [OF _ a(2), of _ _ r'] by fastforce
  from Cons.IH [OF this] show ?case
    using a r' by (auto simp: Let_def)
qed simp

lemma world_entry:
  assumes "world_ok cs h ss" and "cs_relays cs i = Some a"
  shows "\<exists>s \<in> set ss. cl_session_id s = i \<and> cl_udp_relay s = Some a \<and> i \<noteq> 0 \<and> \<not> cl_destroyed s \<and> relay_at h a i"
proof -
  have "\<exists>s \<in> set ss. cl_session_id s = i \<and> cl_udp_relay s = Some a"
    using assms by (simp add: world_ok_def table_ok_def)
  then obtain s where s: "s \<in> set ss" "cl_session_id s = i" "cl_udp_relay s = Some a"
    by (elim bexE conjE)
  moreover have "cl_session_id s \<noteq> 0 \<and> \<not> cl_destroyed s \<and> relay_at h a (cl_session_id s)"
    using assms(1) s(1,3) by (simp add: world_ok_def heap_ok_def)
  ultimately show ?thesis
    by (intro bexI [of _ s]) simp_all
qed

lemma live_append [simp]:
  "filter (\<lambda>s. \<not> cl_destroyed s) (xs @ s # ys) =
    filter (\<lambda>s. \<not> cl_destroyed s) xs @ (if cl_destroyed s then [] else [s]) @ filter (\<lambda>s. \<not> cl_destroyed s) ys"
  by simp

lemma session_live_count:
  assumes "cl_complete env inp p c (cl_finish p s, cx) = Inr (s', cx')"
  shows "sessionCount (cx_stats cx') + of_nat (if cl_destroyed s then 0 else 1) =
    sessionCount (cx_stats cx) + of_nat (if cl_destroyed s' then 0 else 1)"
proof -
  let ?s = "cl_finish p s"
  from complete_effect [OF assms] consider "quiet ?s cx s' cx'" | u where "face u = face ?s" "cl_destroy (u, cx) = (s', cx')"
    | "associates inp ?s cx s' cx'"
    by (auto simp: destroys_def)
  then show ?thesis
  proof cases
    case (2 u)
    then have u: "cl_destroyed u = cl_destroyed s"
      by (simp add: face_def cl_finish_def)
    show ?thesis
    proof (cases "cl_destroyed u")
      case True
      then show ?thesis
        using 2(2) u by (auto simp: cl_destroy_def)
    next
      case False
      then show ?thesis
        using cl_destroy_effect(1,5) [OF 2(2)] u by (auto simp: face_def)
    qed
  qed (auto simp: quiet_def associates_def face_def cl_finish_def Let_def)
qed

subsection \<open>Properties\<close>


text \<open>C36: the session count shown to the user is right: in every reachable state it is the number of accepted
  sessions that were not destroyed yet, so no session is ever counted out twice or forgotten.\<close>

theorem live_sessions_counted:
  assumes "world_reach env cfg cx ss"
  shows "sessionCount (cx_stats cx) = of_nat (length (filter (\<lambda>s. \<not> cl_destroyed s) ss))"
  using assms
proof (induction rule: world_reach.induct)
  case (Init resolve address port cs)
  then show ?case
    by (simp add: sessionCount_def new_proxy_stats_def)
next
  case (Accept cx ss kind ec cs' st' started)
  have "\<not> cl_destroyed (cl_start (cl_new kind cfg))"
    using new_session_face [of kind cfg] by (simp add: face_def)
  then show ?case
    using Accept.IH on_accept_keeps(2) [OF Accept.hyps(3)] by simp
next
  case (Session cx xs s ys p c inp s' cx')
  then show ?case
    using session_live_count [OF Session.hyps(5)] by (simp split: if_splits)
next
  case (Local cx ss ready ev a h' st' ps)
  then show ?case
    using relay_local_keeps(2) [OF Local.hyps(2)] by simp
next
  case (Record cx ss d h' st' out)
  then show ?case
    using on_dtls_data_keeps(2) [OF Record.hyps(2)] by simp
qed simp_all

text \<open>C37: with the 65536th association the table is no longer safe. After 65535 ids were handed out the next one is
  0, which \<open>destroy\<close> takes for "no association": the relay is stopped and freed but its entry stays, and the next record
  for id 0 is given to the freed object.\<close>

theorem wrapped_id_dangles:
  assumes "cs_next_session_id cs = 1" and "has_dtls cs" and "cx_server cx = snd (allocate_many 65535 cs)"
    and "\<not> cl_destroyed s" and "cx_heap cx (in_addr inp) = None"
  shows "\<exists>s1 cx1 s2 cx2 h st ps. do_handle_socks5_udp_associate inp (s, cx) = Inr (s1, cx1) \<and> cl_session_id s1 = 0 \<and>
    cl_destroy (s1, cx1) = (s2, cx2) \<and> relay_local ready Local_error (in_addr inp) (cx_heap cx2) (cx_stats cx2) = Inr (h, st, ps) \<and>
    cs_on_dtls_data ([0, 0] @ d) (cx_server cx2) h st = Inl Dangling"
proof -
  let ?a = "in_addr inp"
  have next0: "cs_next_session_id (cx_server cx) = 0" and dtls: "has_dtls (cx_server cx)"
    using assms(1-3) by (simp_all add: allocate_many_eq has_dtls_def)
  obtain s1 cx1 where 1: "do_handle_socks5_udp_associate inp (s, cx) = Inr (s1, cx1)"
    using dtls by (simp add: do_handle_socks5_udp_associate_def allocate_session_id_def rl_start_def Let_def)
  have "cl_session_id s1 = 0" "cl_udp_relay s1 = Some ?a" "\<not> cl_destroyed s1" "cs_relays (cx_server cx1) 0 = Some ?a"
    "cx_heap cx1 ?a = Some \<lparr>rc_relay = snd (snd (rl_start 0 (rl_new (in_port inp)))), rc_owned = True\<rparr>"
    using 1 dtls next0 assms(4)
    by (auto simp: do_handle_socks5_udp_associate_def allocate_session_id_def rl_start_def rl_new_def Let_def register_relay_def cl_start_op_def)
  note s1 = this
  obtain s2 cx2 where 2: "cl_destroy (s1, cx1) = (s2, cx2)"
    by (cases "cl_destroy (s1, cx1)")
  note eff = cl_destroy_effect(3,4) [OF 2 s1(3)]
  have 3: "cs_relays (cx_server cx2) 0 = Some ?a" "cx_heap cx2 = release_relay ?a (cx_heap cx1)"
    using eff s1 by simp_all
  have "relay_local ready Local_error ?a (cx_heap cx2) (cx_stats cx2) =
      Inr ((cx_heap cx2)(?a := None), cx_stats cx2, [])"
    unfolding 3(2) using s1(5)
    by (simp add: relay_local_def release_relay_def reclaim_def deref_def store_def rl_start_def rl_new_def rl_do_receive_local_def
        rl_stop_def rl_on_local_def)
  moreover have "cs_on_dtls_data ([0, 0] @ d) (cx_server cx2) ((cx_heap cx2)(?a := None)) (cx_stats cx2) = Inl Dangling"
    using 3(1) by (simp add: cs_on_dtls_data_def be16_def deref_def Let_def)
  ultimately show ?thesis
    using 1 2 s1(1) by blast
qed

subsection \<open>Witnesses\<close>

text \<open>A client with DTLS and one session, which has set up a UDP association.\<close>

definition ex_udp_config :: client_config where
  "ex_udp_config = ex_client_config\<lparr>cc_udp_enabled := True, cc_dtls_port := to_dec 443\<rparr>"

definition ex_assoc_input :: client_input where
  "ex_assoc_input = \<lparr>in_write_ok = True, in_addr = 0, in_port = 40000\<rparr>"

lemma ex_world_session:
  "\<exists>cx. world_reach ex_env ex_udp_config cx [cl_start (cl_new Tls ex_udp_config)] \<and> has_dtls (cx_server cx) \<and>
    cx_heap cx = Map.empty \<and> cs_next_session_id (cx_server cx) = 1"
proof -
  obtain cs where cs: "cs_new (\<lambda>_ _. Inr [ex_ep]) ex_udp_config [] [] = Inr cs" "cs_useWebSocket cs = False" "cs_next_session_id cs = 1"
    by (simp add: cs_new_def ex_udp_config_def ex_client_config_def)
  let ?cx = "\<lparr>cx_server = cs, cx_heap = Map.empty, cx_stats = new_proxy_stats\<rparr>"
  have 0: "world_reach ex_env ex_udp_config ?cx []"
    by (rule world_reach.Init [OF cs(1)])
  obtain c where "start_dtls (\<lambda>_. Some (Ip4 1 1 1 1)) True True ex_udp_config cs = Inr (cs\<lparr>cs_dtls := Some c\<rparr>)"
    using stoi_to_dec [of 443 "[]"] by (simp add: start_dtls_def ch_new_def ex_udp_config_def)
  then have 1: "world_reach ex_env ex_udp_config (?cx\<lparr>cx_server := cs\<lparr>cs_dtls := Some c\<rparr>\<rparr>) []"
    by (intro world_reach.Server [OF 0] server_step.Start_dtls) simp
  let ?cs = "cs\<lparr>cs_dtls := Some c, cs_acceptor_open := True, cs_accepting := Some Tls\<rparr>"
  have "server_step (cs\<lparr>cs_dtls := Some c\<rparr>) ?cs"
    by (rule server_step.Start_accept [of True]) (simp add: cs_start_accept_def cs_do_accept_def do_accept_tls_def cs(2) Let_def)
  then have 2: "world_reach ex_env ex_udp_config (?cx\<lparr>cx_server := ?cs\<rparr>) []"
    using world_reach.Server [OF 1, of ?cs] by simp
  have "cs_on_accept Tls None ?cs new_proxy_stats = (?cs, sessionCreated new_proxy_stats, True)"
    by (simp add: cs_on_accept_def on_accept_tls_def do_accept_tls_def Let_def)
  then have "world_reach ex_env ex_udp_config (?cx\<lparr>cx_server := ?cs, cx_stats := sessionCreated new_proxy_stats\<rparr>) [cl_start (cl_new Tls ex_udp_config)]"
    using world_reach.Accept [OF 2, of Tls None ?cs "sessionCreated new_proxy_stats" True] by simp
  then show ?thesis
    using cs(3) by (intro exI conjI) (assumption, simp_all add: has_dtls_def)
qed

lemma world_next:
  assumes "world_reach env cfg cx [s]" and "cl_pending s = [p]" and "cl_fits p c" and "cx_heap cx (in_addr inp) = None"
    and "cl_complete env inp p c (cl_finish p s, cx) = Inr (s', cx')"
  shows "world_reach env cfg cx' [s']"
  using world_reach.Session [of env cfg cx "[]" s "[]" p c inp s' cx'] assms by simp

definition ex_negotiating :: "client_op \<Rightarrow> client_session \<Rightarrow> bool" where
  "ex_negotiating p s \<longleftrightarrow> cl_pending s = [p] \<and> length (cl_in_buf s) = CLIENT_BUFF_SIZE \<and> cl_in_buf s ! 1 \<noteq> 0xFF"

lemma ex_world_assoc:
  "\<exists>cx s. world_reach ex_env ex_udp_config cx [s] \<and> cs_relays (cx_server cx) 1 = Some 0"
proof -
  let ?s0 = "cl_start (cl_new Tls ex_udp_config)"
  obtain cx where cx: "world_reach ex_env ex_udp_config cx [?s0]" "has_dtls (cx_server cx)" "cx_heap cx = Map.empty"
    "cs_next_session_id (cx_server cx) = 1"
    using ex_world_session by blast
  note fresh = cx(3) [THEN fun_cong, of "in_addr ex_assoc_input"]
  let ?buf = "fill (replicate CLIENT_BUFF_SIZE 0) [5, 1, 0]"
  have buf: "?buf = [5, 1, 0] @ replicate 65533 0"
    by (simp add: fill_def CLIENT_BUFF_SIZE_def)
  have "auth_unstream new_auth_req ?buf = Inr (True, \<lparr>aq_version = 5, aq_nmethod = 1, aq_methods = [NO_AUTHENTICATION]\<rparr>)"
    unfolding buf by (simp add: auth_unstream_def DecodeFixed8_def new_auth_req_def auth_loop.simps method_of_oct_def Let_def)
  moreover have "?buf ! 0 = 5" "?buf ! 1 \<noteq> 0xFF" "length ?buf = CLIENT_BUFF_SIZE"
    unfolding buf by (simp_all add: CLIENT_BUFF_SIZE_def)
  ultimately obtain s1 where s1: "cl_complete ex_env ex_assoc_input Cl_greeting (Data [5, 1, 0]) (cl_finish Cl_greeting ?s0, cx) = Inr (s1, cx)"
    "ex_negotiating (Cl_write_auth [5, 0]) s1"
    by (simp add: on_greeting_def write_sock5_hanshake_reply_def cl_start_def cl_new_def cl_start_op_def cl_finish_def Let_def
        auth_res_stream_def EncodeFixed8_def ex_negotiating_def)
  have 1: "world_reach ex_env ex_udp_config cx [s1]"
    using fresh by (intro world_next [OF cx(1) _ _ _ s1(1)]) (simp_all add: cl_start_def cl_new_def cl_start_op_def CLIENT_BUFF_SIZE_def)
  obtain s2 where s2: "cl_complete ex_env ex_assoc_input (Cl_write_auth [5, 0]) (Sent 2) (cl_finish (Cl_write_auth [5, 0]) s1, cx) = Inr (s2, cx)"
    "ex_negotiating Cl_read_request s2"
    using s1(2) by (simp add: on_write_auth_def read_socks5_request_def cl_start_op_def cl_finish_def ex_negotiating_def)
  have 2: "world_reach ex_env ex_udp_config cx [s2]"
    using fresh s1(2) by (intro world_next [OF 1 _ _ _ s2(1)]) (simp_all add: ex_negotiating_def)
  let ?d = "sreq_v4_wire 3 (Ip4 0 0 0 0) 0"
  have len: "length ?d = 10"
    by (simp add: sreq_v4_wire_def)
  obtain s3 cx3 where s3: "cl_complete ex_env ex_assoc_input Cl_read_request (Data ?d) (cl_finish Cl_read_request s2, cx) = Inr (s3, cx3)"
    "cs_relays (cx_server cx3) 1 = Some 0"
    using sreq_parse_v4 [of "Ip4 0 0 0 0" "env_to_string ex_env" "cl_socks5_req s2" 3 0 "drop 10 (cl_in_buf s2)"] cx(2,4) len
    by (simp add: on_read_request_def fill_def cl_finish_def CMD_UDP_ASSOCIATE_def ex_env_def do_handle_socks5_udp_associate_def
        allocate_session_id_def rl_start_def register_relay_def ex_assoc_input_def Let_def)
  have "world_reach ex_env ex_udp_config cx3 [s3]"
    using fresh s2(2) len by (intro world_next [OF 2 _ _ _ s3(1)]) (simp_all add: ex_negotiating_def CLIENT_BUFF_SIZE_def)
  then show ?thesis
    using s3(2) by blast
qed


theorem live_sessions_counted_witness:
  "\<exists>cx. world_reach ex_env ex_udp_config cx [cl_start (cl_new Tls ex_udp_config)] \<and> sessionCount (cx_stats cx) = 1"
proof -
  obtain cx where w: "world_reach ex_env ex_udp_config cx [cl_start (cl_new Tls ex_udp_config)]"
    using ex_world_session by blast
  then show ?thesis
    using live_sessions_counted [OF w] by (auto simp: cl_start_def cl_new_def cl_start_op_def)
qed

definition ex_server :: client_server where
  "ex_server = \<lparr>cs_local_endpoint = ex_ep, cs_acceptor_open = True, cs_accepting = Some Tls, cs_useWebSocket = False,
     cs_dtls = Some ex_channel, cs_next_session_id = 1, cs_relays = Map.empty, cs_dtls_ready = True, cs_stopped = False\<rparr>"

theorem wrapped_id_dangles_witness:
  "\<exists>s1 cx1 s2 cx2 h st ps. do_handle_socks5_udp_associate ex_assoc_input (cl_new Tls ex_udp_config,
      \<lparr>cx_server = snd (allocate_many 65535 ex_server), cx_heap = Map.empty, cx_stats = new_proxy_stats\<rparr>) = Inr (s1, cx1) \<and>
    cl_session_id s1 = 0 \<and> cl_destroy (s1, cx1) = (s2, cx2) \<and>
    relay_local True Local_error 0 (cx_heap cx2) (cx_stats cx2) = Inr (h, st, ps) \<and>
    cs_on_dtls_data ([0, 0] @ [7]) (cx_server cx2) h st = Inl Dangling"
  using wrapped_id_dangles [of ex_server
      "\<lparr>cx_server = snd (allocate_many 65535 ex_server), cx_heap = Map.empty, cx_stats = new_proxy_stats\<rparr>"
      "cl_new Tls ex_udp_config" ex_assoc_input True "[7]"]
  by (simp add: ex_server_def has_dtls_def cl_new_def ex_assoc_input_def del: allocate_many.simps)

end
