(* ===== verification/ClientProgress.thy ===== *)
theory ClientProgress
  imports ClientRelay
begin

text \<open>
  How a client session proceeds: the opening phase is over after at most nine completions, and which exceptions can
  leave a handler.
\<close>

subsection \<open>The operations a handler starts\<close>

text \<open>Every operation of the opening phase leads only to later ones.\<close>

fun rank :: "client_op \<Rightarrow> nat" where
  "rank Cl_greeting = 9"
| "rank (Cl_write_auth _) = 8"
| "rank (Cl_read_line _) = 8"
| "rank Cl_read_request = 7"
| "rank (Cl_write_http _) = 7"
| "rank (Cl_resolve _ _) = 6"
| "rank (Cl_connect _) = 5"
| "rank Cl_ssl_handshake = 4"
| "rank (Cl_ws_handshake _) = 3"
| "rank (Cl_write_vreq _) = 2"
| "rank (Cl_write_reply _) = 1"
| "rank _ = 0"

text \<open>The operations pending after a handler that started \<open>new\<close>; the connection's peer is known from the TLS
  handshake on.\<close>

definition starts :: "client_session \<Rightarrow> client_op \<Rightarrow> client_session \<Rightarrow> bool" where
  "starts s p s' \<longleftrightarrow> (\<exists>new. cl_pending s' = cl_pending s @ new \<and>
     (\<forall>q \<in> set new. rank q = 0 \<or> rank q < rank p) \<and> (\<forall>q \<in> set new. 0 < rank q \<longrightarrow> new = [q]))"

lemma starts_none [simp]: "cl_pending s' = cl_pending s \<Longrightarrow> starts s p s'"
  by (simp add: starts_def)

lemma starts_one [simp]:
  "cl_pending u = cl_pending s \<Longrightarrow> rank q = 0 \<or> rank q < rank p \<Longrightarrow> starts s p (cl_start_op q u)"
  by (auto simp: starts_def)

lemma starts_two [simp]:
  "cl_pending u = cl_pending s \<Longrightarrow> rank q = 0 \<Longrightarrow> rank r = 0 \<Longrightarrow> starts s p (cl_start_op r (cl_start_op q u))"
  by (auto simp: starts_def)

lemma destroy_pending: "cl_destroy (s, cx) = (s', cx') \<Longrightarrow> cl_pending s' = cl_pending s"
  using cl_destroy_fields(2) [of s cx] by simp

lemmas opening_defs = write_sock5_hanshake_reply_def http_connect_handshake_def read_socks5_request_def
  write_http_connect_response_def cl_do_resolve_def cl_do_connect_def do_ssl_handshake_def tls_perform_ssl_handshake_def
  ws_perform_ssl_handshake_def after_ssl_handshake_def tls_after_ssl_handshake_def ws_after_ssl_handshake_def
  do_ws_handshake_def do_sent_v_req_def write_socks5_response_def read_packet_def write_packet_def do_read_control_def

lemma greeting_starts: "on_greeting c (s, cx) = Inr (s', cx') \<Longrightarrow> starts s Cl_greeting s'"
  by (auto simp: on_greeting_def opening_defs rbind_def Let_def split: completion.splits sum.splits if_splits
      dest!: destroy_pending)

lemma request_starts: "on_read_request ts ue inp c (s, cx) = Inr (s', cx') \<Longrightarrow> starts s Cl_read_request s'"
  by (auto simp: on_read_request_def opening_defs do_handle_socks5_udp_associate_def assoc_refused_def rbind_def Let_def
      split: completion.splits sum.splits if_splits prod.splits dest!: destroy_pending)

lemma line_starts: "on_read_line b c (s, cx) = Inr (s', cx') \<Longrightarrow> starts s (Cl_read_line b) s'"
  by (auto simp: on_read_line_def opening_defs rbind_def Let_def split: completion.splits sum.splits if_splits
      dest!: destroy_pending)

lemma vreq_starts: "on_write_vreq c (s, cx) = Inr (s', cx') \<Longrightarrow> starts s (Cl_write_vreq b) s'"
  by (auto simp: on_write_vreq_def opening_defs rbind_def Let_def split: completion.splits sum.splits if_splits option.splits
      dest!: destroy_pending)

lemma complete_starts:
  assumes "cl_complete env inp p c (s, cx) = Inr (s', cx')"
  shows "starts s p s'"
  using assms greeting_starts request_starts line_starts vreq_starts
  by (cases p)
    (auto simp: on_write_auth_def on_write_http_def cl_on_resolve_def cl_on_connect_def on_ssl_handshake_def on_ws_handshake_def
      on_write_reply_def on_write_assoc_def on_read_control_def on_read_local_def on_read_server_def on_write_server_def
      on_write_local_def opening_defs Let_def split: completion.splits if_splits list.splits session_kind.splits
      dest!: destroy_pending)


definition progress_inv :: "client_session \<Rightarrow> client_trace \<Rightarrow> bool" where
  "progress_inv s tr \<longleftrightarrow> (\<forall>p \<in> set (cl_pending s). 0 < rank p \<longrightarrow> cl_pending s = [p] \<and> length tr + rank p \<le> 9)"

lemma progress_step:
  assumes inv: "progress_inv s tr" and p: "p \<in> set (cl_pending s)" and step: "cl_complete env inp p c (cl_finish p s, cx) = Inr (s', cx')"
  shows "progress_inv s' (tr @ [(p, c)])"
proof -
  obtain new where new: "cl_pending s' = remove1 p (cl_pending s) @ new" "\<forall>q \<in> set new. rank q = 0 \<or> rank q < rank p"
    "\<forall>q \<in> set new. 0 < rank q \<longrightarrow> new = [q]"
    using complete_starts [OF step] by (auto simp: starts_def)
  show ?thesis
  proof (cases "0 < rank p")
    case True
    then have "cl_pending s = [p]" "length tr + rank p \<le> 9"
      using inv p by (auto simp: progress_inv_def)
    then show ?thesis
      using new by (fastforce simp: progress_inv_def)
  next
    case False
    have "rank q = 0" if "q \<in> set (cl_pending s)" for q
      using inv p that False by (fastforce simp: progress_inv_def)
    then have "rank q = 0" if "q \<in> set (cl_pending s')" for q
      using that new(1,2) False set_remove1_subset [of p "cl_pending s"] by auto
    then show ?thesis
      by (simp add: progress_inv_def)
  qed
qed

lemma cl_reach_progress: "cl_reach env kind cfg s tr \<Longrightarrow> progress_inv s tr"
proof (induction rule: cl_reach.induct)
  case Init
  then show ?case
    by (simp add: progress_inv_def cl_start_def cl_new_def)
next
  case (Step s tr p c inp cx s' cx')
  then show ?case
    by (intro progress_step)
qed

subsection \<open>Exceptions\<close>

text \<open>From the TLS handshake on the peer of the connection is known.\<close>

definition peer_op :: "client_op \<Rightarrow> bool" where
  "peer_op p \<longleftrightarrow> 1 < rank p \<and> rank p < 5"

definition peer_inv :: "client_session \<Rightarrow> bool" where
  "peer_inv s \<longleftrightarrow> (\<forall>p \<in> set (cl_pending s). peer_op p \<longrightarrow> cl_peer s \<noteq> None)"


definition keeps_peer :: "client_session \<Rightarrow> client_op \<Rightarrow> client_session \<Rightarrow> bool" where
  "keeps_peer s p s' \<longleftrightarrow> (cl_peer s' = cl_peer s \<or> cl_peer s' \<noteq> None) \<and>
     (\<forall>q \<in> set (cl_pending s'). peer_op q \<longrightarrow> q \<in> set (cl_pending s) \<or> cl_peer s' \<noteq> None \<or> peer_op p)"

lemma keeps_peer_none [simp]: "cl_pending s' = cl_pending s \<Longrightarrow> cl_peer s' = cl_peer s \<Longrightarrow> keeps_peer s p s'"
  by (simp add: keeps_peer_def)

lemma keeps_peer_op [simp]: "keeps_peer s p u \<Longrightarrow> peer_op q \<longrightarrow> cl_peer u \<noteq> None \<or> peer_op p \<Longrightarrow> keeps_peer s p (cl_start_op q u)"
  by (auto simp: keeps_peer_def cl_start_op_def)

lemma destroy_peer: "cl_destroy (s, cx) = (s', cx') \<Longrightarrow> cl_pending s' = cl_pending s \<and> cl_peer s' = cl_peer s"
  by (auto simp: cl_destroy_def Let_def destroy_out_socket_def tls_destroy_out_socket_def ws_destroy_out_socket_def
      split: if_splits option.splits session_kind.splits)

lemma peer_op_simps [simp]: "rank p \<le> 1 \<Longrightarrow> \<not> peer_op p" "5 \<le> rank p \<Longrightarrow> \<not> peer_op p"
  by (simp_all add: peer_op_def)

lemma peer_ops [simp]: "peer_op Cl_ssl_handshake" "peer_op (Cl_ws_handshake h)" "peer_op (Cl_write_vreq b)"
  by (simp_all add: peer_op_def)

lemma keeps_peer_set [simp]: "keeps_peer s p (s\<lparr>cl_peer := Some ep\<rparr>)"
  by (simp add: keeps_peer_def)

lemma greeting_peer: "on_greeting c (s, cx) = Inr (s', cx') \<Longrightarrow> keeps_peer s Cl_greeting s'"
  by (auto simp: on_greeting_def opening_defs rbind_def Let_def split: completion.splits sum.splits if_splits dest!: destroy_peer)

lemma request_peer: "on_read_request ts ue inp c (s, cx) = Inr (s', cx') \<Longrightarrow> keeps_peer s Cl_read_request s'"
  by (auto simp: on_read_request_def opening_defs do_handle_socks5_udp_associate_def assoc_refused_def rbind_def Let_def
      split: completion.splits sum.splits if_splits prod.splits dest!: destroy_peer)

lemma line_peer: "on_read_line b c (s, cx) = Inr (s', cx') \<Longrightarrow> keeps_peer s (Cl_read_line b) s'"
  by (auto simp: on_read_line_def opening_defs rbind_def Let_def split: completion.splits sum.splits if_splits dest!: destroy_peer)

lemma vreq_peer: "on_write_vreq c (s, cx) = Inr (s', cx') \<Longrightarrow> keeps_peer s (Cl_write_vreq b) s'"
  by (auto simp: on_write_vreq_def opening_defs rbind_def Let_def split: completion.splits sum.splits if_splits option.splits
      dest!: destroy_peer)

lemma complete_peer:
  assumes "cl_complete env inp p c (s, cx) = Inr (s', cx')"
  shows "keeps_peer s p s'"
  using assms greeting_peer request_peer line_peer vreq_peer
  by (cases p)
    (auto simp: on_write_auth_def on_write_http_def cl_on_resolve_def cl_on_connect_def on_ssl_handshake_def on_ws_handshake_def
      on_write_reply_def on_write_assoc_def on_read_control_def on_read_local_def on_read_server_def on_write_server_def
      on_write_local_def opening_defs Let_def split: completion.splits if_splits list.splits session_kind.splits
      dest!: destroy_peer)

lemma cl_reach_peer: "cl_reach env kind cfg s tr \<Longrightarrow> peer_inv s"
proof (induction rule: cl_reach.induct)
  case Init
  then show ?case
    by (simp add: peer_inv_def cl_start_def cl_new_def peer_op_def)
next
  case (Step s tr p c inp cx s' cx')
  have "keeps_peer (cl_finish p s) p s'" "cl_peer (cl_finish p s) = cl_peer s"
    using complete_peer [OF Step.hyps(4)] by (simp_all add: cl_finish_def)
  then show ?case
    using Step.IH Step.hyps(2) set_remove1_subset [of p "cl_pending s"] unfolding peer_inv_def keeps_peer_def
    by (metis cl_finish_fields(2) subsetD)
qed


lemma stoi_faults: "stoi t = Inl e \<Longrightarrow> e = Invalid_argument \<or> e = Out_of_range"
  by (auto simp: stoi_def Let_def split: if_splits)

lemma hr_unstream_faults: "hr_unstream r b = Inl e \<Longrightarrow> e = Invalid_argument \<or> e = Out_of_range"
  by (auto simp: hr_unstream_def Let_def rbind_def substr_def substr_from_def split: option.splits sum.splits if_splits
      dest!: stoi_faults)

lemma greeting_no_fault:
  assumes "length (cl_in_buf s) = CLIENT_BUFF_SIZE" and "cl_fits Cl_greeting c"
  shows "no_fault (on_greeting c (s, cx))"
proof (cases c)
  case (Data d)
  let ?b = "fill (cl_in_buf s) d"
  have len: "length ?b = 65536"
    using assms Data by (simp add: CLIENT_BUFF_SIZE_def)
  show ?thesis
  proof (cases "?b ! 0 = 5")
    case True
    then show ?thesis
      using auth_unstream_methods [of ?b new_auth_req] len by (simp add: on_greeting_def Data Let_def)
  qed (simp add: on_greeting_def Data Let_def)
qed (simp_all add: on_greeting_def)

lemma request_faults:
  assumes "length (cl_in_buf s) = CLIENT_BUFF_SIZE" and "cl_fits Cl_read_request c"
    and "on_read_request ts ue inp c (s, cx) = Inl e"
  shows "e = Runtime_error \<and> \<not> in_write_ok inp"
proof (cases c)
  case (Data d)
  let ?b = "fill (cl_in_buf s) d"
  have "262 < length ?b"
    using assms(1,2) Data by (simp add: CLIENT_BUFF_SIZE_def)
  then obtain ok q where "sreq_unsteam ts (cl_socks5_req s) ?b (length d) = Inr (ok, q)"
    using sreq_no_fault [of ?b ts "cl_socks5_req s" "length d"] by (cases "sreq_unsteam ts (cl_socks5_req s) ?b (length d)") auto
  then show ?thesis
    using assms(3)
    by (auto simp: on_read_request_def Data Let_def do_handle_socks5_udp_associate_def assoc_refused_def rl_start_def
        split: if_splits prod.splits)
qed (use assms(3) in \<open>simp_all add: on_read_request_def\<close>)

subsection \<open>Properties\<close>





end
