(* ===== verification/Service.thy ===== *)
theory Service
  imports Asio Config DnsCache IoContextPool DtlsListener LogFile
begin

text \<open>
  \<^verbatim>\<open>Server/Service.{h,cpp}\<close>: the service owns the pool of contexts, the accept loop, the timer that cleans the
  resolver cache, the signal handler and the DTLS listener. A session is represented by its kind and the index of its
  context; \<open>sv_started\<close> lists those that were started. The socket options of an accepted connection are taken to be
  set without an error.
\<close>

subsection \<open>The service\<close>

record service =
  sv_pool :: io_pool
  sv_io_context :: nat
  sv_acceptor_open :: bool
  sv_new_connection :: "(session_kind \<times> nat) option"
  sv_accepting :: "session_kind option"
  sv_dns_timer :: bool
  sv_signals :: bool
  sv_dtls_listener :: "(nat \<times> dtls_listener) option"
  sv_stopped :: bool
  sv_started :: "(session_kind \<times> nat) list"

text \<open>What the system provides at start-up: the number of hardware threads, the resolver, and whether the certificate
  files load and the endpoint can be bound.\<close>

record service_env =
  se_hardware_concurrency :: nat
  se_resolve :: "bytes \<Rightarrow> bytes \<Rightarrow> endpoint list res"
  se_cert_ok :: bool
  se_key_ok :: bool
  se_bind_ok :: bool
  se_listener :: listener_input

definition get_thread_count :: "server_config \<Rightarrow> nat \<Rightarrow> nat" where
  "get_thread_count cfg hardware_concurrency =
     (if sc_thread_count cfg > 0 then unat (sc_thread_count cfg)
      else if hardware_concurrency > 0 then hardware_concurrency else 4)"

definition sv_do_accept :: "service \<Rightarrow> service" where
  "sv_do_accept sv =
     (let (ctx, pool) = get_io_context (sv_pool sv)
      in sv\<lparr>sv_pool := pool, sv_new_connection := Some (Tls, ctx), sv_accepting := Some Tls\<rparr>)"

definition sv_do_websocket_accept :: "service \<Rightarrow> service" where
  "sv_do_websocket_accept sv =
     (let (ctx, pool) = get_io_context (sv_pool sv)
      in sv\<lparr>sv_pool := pool, sv_new_connection := Some (Websocket, ctx), sv_accepting := Some Websocket\<rparr>)"

definition sv_start_session :: "service \<Rightarrow> service" where
  "sv_start_session sv = (case sv_new_connection sv of
     Some c \<Rightarrow> sv\<lparr>sv_started := sv_started sv @ [c]\<rparr> | None \<Rightarrow> sv)"

text \<open>The completions of the two accepts; \<open>remote_ok\<close> is whether \<open>remote_endpoint\<close> succeeds. Closing the socket of a
  connection that is not started has no part in the state.\<close>

definition sv_on_accept :: "errc option \<Rightarrow> bool \<Rightarrow> service \<Rightarrow> service" where
  "sv_on_accept ec remote_ok sv =
     (let sv = sv\<lparr>sv_accepting := None\<rparr> in
      if \<not> sv_acceptor_open sv then sv
      else if ec = Some Aborted then sv
      else
        let sv = (if ec = None then (if remote_ok then sv_start_session sv else sv) else sv)
        in sv_do_accept sv)"

definition sv_on_websocket_accept :: "errc option \<Rightarrow> bool \<Rightarrow> service \<Rightarrow> service" where
  "sv_on_websocket_accept ec remote_ok sv =
     (let sv = sv\<lparr>sv_accepting := None\<rparr>;
          sv = (if ec = None then (if remote_ok then sv_start_session sv else sv) else sv)
      in sv_do_websocket_accept sv)"

definition start_dns_cleanup_timer :: "service \<Rightarrow> service" where
  "start_dns_cleanup_timer sv = sv\<lparr>sv_dns_timer := True\<rparr>"

definition on_dns_timer :: "bool \<Rightarrow> int \<Rightarrow> service \<times> dns_cache \<Rightarrow> service \<times> dns_cache" where
  "on_dns_timer ec now = (\<lambda>(sv, dns).
     let sv = sv\<lparr>sv_dns_timer := False\<rparr> in
     if ec then (sv, dns) else (start_dns_cleanup_timer sv, cleanup_expired dns now))"

definition add_signals :: "service \<Rightarrow> service" where
  "add_signals sv = sv\<lparr>sv_signals := True\<rparr>"

definition on_signal :: "service \<Rightarrow> service" where
  "on_signal sv = sv\<lparr>sv_signals := False, sv_pool := pool_stop (sv_pool sv), sv_stopped := True\<rparr>"

text \<open>Both files are read by calls that throw when they fail.\<close>

definition load_server_certificate :: "service_env \<Rightarrow> service \<Rightarrow> service res" where
  "load_server_certificate env sv =
     (if \<not> se_cert_ok env then Inl Runtime_error
      else if \<not> se_key_ok env then Inl Runtime_error
      else Inr sv)"

definition start_dtls_listener :: "service_env \<Rightarrow> server_config \<Rightarrow> service \<Rightarrow> service res" where
  "start_dtls_listener env cfg sv =
     (if sc_dtls_port cfg = [] then Inr sv
      else
        let (ctx, pool) = get_io_context (sv_pool sv) in
        rbind (dl_new (se_listener env)) (\<lambda>l.
          Inr (sv\<lparr>sv_pool := pool, sv_dtls_listener := Some (ctx, dl_start l)\<rparr>)))"

definition service_new :: "service_env \<Rightarrow> server_config \<Rightarrow> service res" where
  "service_new env cfg =
     rbind (pool_new (get_thread_count cfg (se_hardware_concurrency env))) (\<lambda>pool.
       let (ctx, pool) = get_io_context pool;
           sv = \<lparr>sv_pool = pool, sv_io_context = ctx, sv_acceptor_open = False, sv_new_connection = None,
                 sv_accepting = None, sv_dns_timer = False, sv_signals = False, sv_dtls_listener = None,
                 sv_stopped = False, sv_started = []\<rparr>;
           sv = add_signals sv;
           sv = start_dns_cleanup_timer sv
       in rbind (se_resolve env (sc_local_addr cfg) (sc_local_port cfg)) (\<lambda>results.
          if results = [] then Inl Oob
          else rbind (load_server_certificate env sv) (\<lambda>sv.
            if \<not> se_bind_ok env then Inl Runtime_error
            else
              let sv = sv\<lparr>sv_acceptor_open := True\<rparr>;
                  sv = (if sc_websocketEnabled cfg then sv_do_websocket_accept sv else sv_do_accept sv)
              in if sc_dtls_enabled cfg then start_dtls_listener env cfg sv else Inr sv)))"

definition service_run :: "service \<Rightarrow> service" where
  "service_run sv = sv\<lparr>sv_pool := pool_run (sv_pool sv)\<rparr>"

subsection \<open>Reachable states\<close>

text \<open>The service as it runs. Asio reports \<open>operation_aborted\<close> only for operations that were cancelled, which happens
  to the accept and to the timer when the service is stopped.\<close>

inductive service_reach :: "service_env \<Rightarrow> server_config \<Rightarrow> service \<Rightarrow> dns_cache \<Rightarrow> bool" for env cfg where
  Init: "service_new env cfg = Inr sv \<Longrightarrow> service_reach env cfg (service_run sv) dns"
| Accepted: "service_reach env cfg sv dns \<Longrightarrow> sv_accepting sv = Some Tls \<Longrightarrow> ec = Some Aborted \<longrightarrow> sv_stopped sv \<Longrightarrow>
    service_reach env cfg (sv_on_accept ec remote_ok sv) dns"
| Ws_accepted: "service_reach env cfg sv dns \<Longrightarrow> sv_accepting sv = Some Websocket \<Longrightarrow>
    service_reach env cfg (sv_on_websocket_accept ec remote_ok sv) dns"
| Timer: "service_reach env cfg sv dns \<Longrightarrow> sv_dns_timer sv \<Longrightarrow> ec \<longrightarrow> sv_stopped sv \<Longrightarrow>
    on_dns_timer ec now (sv, dns) = (sv', dns') \<Longrightarrow> service_reach env cfg sv' dns'"
| Signal: "service_reach env cfg sv dns \<Longrightarrow> sv_signals sv \<Longrightarrow> service_reach env cfg (on_signal sv) dns"
| Dns: "service_reach env cfg sv dns \<Longrightarrow> service_reach env cfg sv dns'"

definition configured_kind :: "server_config \<Rightarrow> session_kind" where
  "configured_kind cfg = (if sc_websocketEnabled cfg then Websocket else Tls)"

definition service_ok :: "service_env \<Rightarrow> server_config \<Rightarrow> service \<Rightarrow> bool" where
  "service_ok env cfg sv \<longleftrightarrow>
     get_thread_count cfg (se_hardware_concurrency env) = ip_size (sv_pool sv) \<and> 0 < ip_size (sv_pool sv) \<and>
     length (ip_running (sv_pool sv)) = ip_size (sv_pool sv) \<and> sv_acceptor_open sv \<and>
     (\<exists>ctx < ip_size (sv_pool sv). sv_new_connection sv = Some (configured_kind cfg, ctx)) \<and>
     (\<forall>(k, ctx) \<in> set (sv_started sv). k = configured_kind cfg \<and> ctx < ip_size (sv_pool sv)) \<and>
     (\<forall>ctx l. sv_dtls_listener sv = Some (ctx, l) \<longrightarrow> ctx < ip_size (sv_pool sv) \<and> dl_receiving l) \<and>
     sv_accepting sv \<in> {None, Some (configured_kind cfg)} \<and>
     (\<not> sv_stopped sv \<longrightarrow> sv_accepting sv = Some (configured_kind cfg) \<and> sv_dns_timer sv \<and> sv_signals sv)"

lemma get_thread_count_pos: "0 < get_thread_count cfg n"
  by (simp add: get_thread_count_def unat_gt_0 word_neq_0_conv)

lemma get_io_context_simps [simp]:
  "ip_size (snd (get_io_context p)) = ip_size p" "ip_running (snd (get_io_context p)) = ip_running p"
  "0 < ip_size p \<Longrightarrow> fst (get_io_context p) < ip_size p"
  by (simp_all add: get_io_context_def)

lemma sv_do_accept_eq:
  "sv_do_accept sv = sv\<lparr>sv_pool := snd (get_io_context (sv_pool sv)),
     sv_new_connection := Some (Tls, fst (get_io_context (sv_pool sv))), sv_accepting := Some Tls\<rparr>"
  "sv_do_websocket_accept sv = sv\<lparr>sv_pool := snd (get_io_context (sv_pool sv)),
     sv_new_connection := Some (Websocket, fst (get_io_context (sv_pool sv))), sv_accepting := Some Websocket\<rparr>"
  by (simp_all add: sv_do_accept_def sv_do_websocket_accept_def case_prod_beta)

lemma start_session_ok: "service_ok env cfg sv \<Longrightarrow> service_ok env cfg (sv_start_session sv)"
  by (auto simp: service_ok_def sv_start_session_def)

lemma on_accept_ok:
  assumes "service_ok env cfg sv" and "sv_accepting sv = Some Tls" and "ec = Some Aborted \<longrightarrow> sv_stopped sv"
  shows "service_ok env cfg (sv_on_accept ec remote_ok sv)"
proof -
  have kind: "configured_kind cfg = Tls"
    using assms(1,2) by (auto simp: service_ok_def)
  have again: "service_ok env cfg (sv_do_accept (t\<lparr>sv_accepting := None\<rparr>))" if "service_ok env cfg t" for t
    using that kind by (auto simp: service_ok_def sv_do_accept_eq)
  have start: "sv_start_session (sv\<lparr>sv_accepting := None\<rparr>) = (sv_start_session sv)\<lparr>sv_accepting := None\<rparr>"
    by (simp add: sv_start_session_def split: option.splits)
  show ?thesis
  proof (cases "ec = Some Aborted")
    case True
    then show ?thesis
      using assms by (auto simp: sv_on_accept_def service_ok_def Let_def)
  next
    case False
    moreover have "sv_acceptor_open sv"
      using assms(1) by (simp add: service_ok_def)
    ultimately show ?thesis
      using again [OF assms(1)] again [OF start_session_ok [OF assms(1)]] start by (simp add: sv_on_accept_def Let_def)
  qed
qed

lemma on_websocket_accept_ok:
  assumes "service_ok env cfg sv" and "sv_accepting sv = Some Websocket"
  shows "service_ok env cfg (sv_on_websocket_accept ec remote_ok sv)"
proof -
  have kind: "configured_kind cfg = Websocket"
    using assms by (auto simp: service_ok_def)
  have again: "service_ok env cfg (sv_do_websocket_accept (t\<lparr>sv_accepting := None\<rparr>))" if "service_ok env cfg t" for t
    using that kind by (auto simp: service_ok_def sv_do_accept_eq)
  have "sv_start_session (sv\<lparr>sv_accepting := None\<rparr>) = (sv_start_session sv)\<lparr>sv_accepting := None\<rparr>"
    by (simp add: sv_start_session_def split: option.splits)
  then show ?thesis
    using again [OF assms(1)] again [OF start_session_ok [OF assms(1)]] by (simp add: sv_on_websocket_accept_def Let_def)
qed

lemma service_new_ok:
  assumes "service_new env cfg = Inr sv"
  shows "service_ok env cfg (service_run sv)"
proof -
  let ?n = "get_thread_count cfg (se_hardware_concurrency env)"
  define pool where "pool = \<lparr>ip_size = ?n, ip_running = replicate ?n False, ip_next = 0\<rparr>"
  have pool: "pool_new ?n = Inr pool" "?n = ip_size pool" "0 < ip_size pool"
    using get_thread_count_pos [of cfg "se_hardware_concurrency env"] by (simp_all add: pool_new_def pool_def)
  define sv0 where "sv0 = \<lparr>sv_pool = snd (get_io_context pool), sv_io_context = fst (get_io_context pool), sv_acceptor_open = True,
    sv_new_connection = None, sv_accepting = None, sv_dns_timer = True, sv_signals = True, sv_dtls_listener = None,
    sv_stopped = False, sv_started = []\<rparr>"
  define sv1 where "sv1 = (if sc_websocketEnabled cfg then sv_do_websocket_accept sv0 else sv_do_accept sv0)"
  have new: "(if sc_dtls_enabled cfg then start_dtls_listener env cfg sv1 else Inr sv1) = Inr sv"
    using assms pool(1)
    by (auto simp: service_new_def sv0_def sv1_def case_prod_beta add_signals_def start_dns_cleanup_timer_def load_server_certificate_def
        rbind_def Let_def split: sum.splits if_splits)
  have "service_ok env cfg sv1"
    using pool(2,3) get_io_context_simps(3) [of "snd (get_io_context pool)"]
    by (simp add: service_ok_def sv1_def sv0_def sv_do_accept_eq configured_kind_def pool_def)
  moreover have "service_ok env cfg (t\<lparr>sv_pool := snd (get_io_context (sv_pool t)), sv_dtls_listener := Some (fst (get_io_context (sv_pool t)), dl_start l)\<rparr>)"
    if "service_ok env cfg t" for t l
    using that by (auto simp: service_ok_def dl_start_def dl_do_receive_def)
  ultimately have "service_ok env cfg sv"
    using new by (auto simp: start_dtls_listener_def case_prod_beta rbind_def split: if_splits sum.splits)
  then show ?thesis
    by (simp add: service_ok_def service_run_def pool_run_def)
qed

lemma service_reach_ok: "service_reach env cfg sv dns \<Longrightarrow> service_ok env cfg sv"
proof (induction rule: service_reach.induct)
  case (Init sv dns)
  then show ?case
    by (rule service_new_ok)
next
  case (Accepted sv dns ec remote_ok)
  then show ?case
    by (intro on_accept_ok)
next
  case (Ws_accepted sv dns ec remote_ok)
  then show ?case
    by (intro on_websocket_accept_ok)
next
  case (Timer sv dns ec now sv' dns')
  then show ?case
    by (auto simp: on_dns_timer_def start_dns_cleanup_timer_def service_ok_def Let_def split: if_splits)
next
  case (Signal sv dns)
  then show ?case
    by (simp add: on_signal_def service_ok_def pool_stop_def)
qed

lemma service_reach_running: "service_reach env cfg sv dns \<Longrightarrow> set (ip_running (sv_pool sv)) \<subseteq> {\<not> sv_stopped sv}"
proof (induction rule: service_reach.induct)
  case (Init sv dns)
  then show ?case
    by (auto simp: service_run_def pool_run_def service_new_def start_dtls_listener_def case_prod_beta sv_do_accept_eq add_signals_def
        start_dns_cleanup_timer_def load_server_certificate_def rbind_def Let_def split: sum.splits if_splits)
next
  case (Timer sv dns ec now sv' dns')
  then show ?case
    by (auto simp: on_dns_timer_def start_dns_cleanup_timer_def Let_def split: if_splits)
qed (auto simp: sv_on_accept_def sv_on_websocket_accept_def sv_start_session_def sv_do_accept_eq on_signal_def pool_stop_def Let_def
      split: option.splits)


definition ex_service_env :: service_env where
  "ex_service_env = \<lparr>se_hardware_concurrency = 2, se_resolve = (\<lambda>_ _. Inr [default_endpoint]),
     se_cert_ok = True, se_key_ok = True, se_bind_ok = True,
     se_listener = \<lparr>li_ctx_ok = True, li_cert_ok = True, li_key_ok = True, li_check_ok = True,
       li_resolved = Inr [default_endpoint]\<rparr>\<rparr>"


end
