(* ===== verification/ServerMain.thy ===== *)
theory ServerMain
  imports Service
begin

text \<open>
  \<^verbatim>\<open>Server/main.cpp\<close>: reading the options, loading the configuration, setting up the log file and running the
  service. Boost's option parser is represented by its outcome, the JSON reader and SHA-224 are those of the
  configuration, and the statements that the service logs while it is constructed and runs are an input, each with the
  time at which it is made.
\<close>

subsection \<open>Model\<close>

text \<open>What log statements reach: the variable \<open>logfile_\<close> while it is in scope, the directory, the standard output and
  the clock.\<close>

record process =
  pr_logfile :: "log_file option"
  pr_dir :: directory
  pr_stdout :: bytes
  pr_clock :: int

definition OVERPLUS_VERSION_STR :: bytes where
  "OVERPLUS_VERSION_STR = ascii ''v2.0.1''"

datatype cmdline = Bad_args | Help | Version | Run bytes

record main_env =
  me_evp :: "bytes \<Rightarrow> bytes option"
  me_read_json :: "bytes \<Rightarrow> ptree res"
  me_desc :: bytes
  me_date_text :: "int \<Rightarrow> bytes"
  me_mktime :: "int \<Rightarrow> int \<Rightarrow> int \<Rightarrow> int"
  me_log_env :: log_env
  me_what :: bytes
  me_service :: service_env
  me_service_log :: "(int \<times> log_stmt) list"

definition cout_write :: "bytes \<Rightarrow> process res \<Rightarrow> process res" where
  "cout_write buf w = rbind w (\<lambda>w. Inr (w\<lparr>pr_stdout := pr_stdout w @ buf\<rparr>))"

definition tick :: "int \<Rightarrow> process res \<Rightarrow> process res" where
  "tick now w = rbind w (\<lambda>w. Inr (w\<lparr>pr_clock := now\<rparr>))"

text \<open>The two lambdas hold a reference to \<open>logfile_\<close>, which they use when they are called.\<close>

definition with_logfile :: "(int \<Rightarrow> log_file \<Rightarrow> directory \<Rightarrow> (log_file \<times> directory) res) \<Rightarrow> process res \<Rightarrow> process res" where
  "with_logfile f w = rbind w (\<lambda>w. case pr_logfile w of
     None \<Rightarrow> Inl Dangling
   | Some l \<Rightarrow> rbind (f (pr_clock w) l (pr_dir w)) (\<lambda>(l, dir). Inr (w\<lparr>pr_logfile := Some l, pr_dir := dir\<rparr>)))"

definition logfile_logger :: "main_env \<Rightarrow> process res logger \<Rightarrow> process res logger" where
  "logfile_logger env lg =
     (let lg = set_log_destination D_FILE lg;
          lg = setOutput (\<lambda>buf. with_logfile (\<lambda>now. lf_append (me_date_text env) now buf)) lg
      in setFlush (with_logfile (\<lambda>now. lf_flush)) lg)"

definition open_logfile :: "main_env \<Rightarrow> process \<Rightarrow> process" where
  "open_logfile env w =
     (let (l, dir) = lf_new (me_date_text env) (me_mktime env) (pr_clock w) (ascii ''server'') (10 * 1024 * 1024) 3 1024 30 (pr_dir w)
      in w\<lparr>pr_logfile := Some l, pr_dir := dir\<rparr>)"

text \<open>The end of the scope of \<open>logfile_\<close>, reached by leaving the block or by an exception; its destructor closes the
  stream.\<close>

definition end_of_scope :: "process res \<Rightarrow> process res" where
  "end_of_scope w = rbind w (\<lambda>w. Inr (case pr_logfile w of
     None \<Rightarrow> w
   | Some l \<Rightarrow> w\<lparr>pr_logfile := None,
       pr_dir := (case lf_file l of None \<Rightarrow> pr_dir w | Some f \<Rightarrow> af_close f (pr_dir w))\<rparr>))"

text \<open>The block after the options were read: whether it ended without an exception, the resolver cache, the logger and
  the process.\<close>

definition main_body ::
    "main_env \<Rightarrow> bytes \<Rightarrow> config_manage \<Rightarrow> dns_cache \<Rightarrow> process res logger \<Rightarrow> process \<Rightarrow>
     bool \<times> dns_cache \<times> process res logger \<times> process res" where
  "main_body env config_file m dns lg w =
     (case load_config (me_evp env) (me_read_json env) config_file Server_config m lg of
        Inl e \<Rightarrow> (False, dns, lg, Inr w)
      | Inr (m, lg) \<Rightarrow>
          let cfg = cm_server_cfg m;
              dns = set_default_ttl dns (sc_dns_cache_ttl cfg);
              lg = set_log_level (sc_log_level cfg) lg;
              (lg, w) = (if sc_log_dir cfg \<noteq> [] then (logfile_logger env lg, open_logfile env w) else (lg, w));
              w = NOTICE_LOG (me_log_env env) (ascii ''main.cpp'') 61
                    (ascii ''overplus '' @ OVERPLUS_VERSION_STR @ ascii '' will start...'' @ [10]) lg (Inr w);
              w = fold (\<lambda>(now, st) w. log_statement lg st (tick now w)) (me_service_log env) w
          in (case service_new (me_service env) cfg of Inl e \<Rightarrow> False | Inr sv \<Rightarrow> True, dns, lg, end_of_scope w))"

definition server_main :: "main_env \<Rightarrow> cmdline \<Rightarrow> config_manage \<Rightarrow> dns_cache \<Rightarrow> process \<Rightarrow> int \<times> process res" where
  "server_main env args m dns w =
     (if args = Help then (0, cout_write (me_desc env @ [10]) (Inr w))
      else if args = Version then (0, cout_write (OVERPLUS_VERSION_STR @ [10]) (Inr w))
      else
        let lg = new_logger cout_write (\<lambda>w. w);
            (ok, dns, lg, w) = (case args of Run config_file \<Rightarrow> main_body env config_file m dns lg w | _ \<Rightarrow> (False, dns, lg, Inr w));
            w = (if ok then w
                 else ERROR_LOG (me_log_env env) (ascii ''main.cpp'') 65 (ascii ''server exception, exiting: '' @ me_what env) lg w);
            w = NOTICE_LOG (me_log_env env) (ascii ''main.cpp'') 67 (ascii ''server stopped, exiting'') lg w
        in (0, w))"

subsection \<open>Lemmas\<close>

definition log_alive :: "process \<Rightarrow> bool" where
  "log_alive w \<longleftrightarrow> (\<exists>l. pr_logfile w = Some l \<and> lf_open l (pr_dir w))"

lemma logfile_logger_simps [simp]:
  "lg_log_level (logfile_logger env lg) = lg_log_level lg"
  "lg_output (logfile_logger env lg) = (\<lambda>buf. with_logfile (\<lambda>now. lf_append (me_date_text env) now buf))"
  "lg_flush (logfile_logger env lg) = with_logfile (\<lambda>now. lf_flush)"
  by (simp_all add: logfile_logger_def set_log_destination_def setOutput_def setFlush_def Let_def)

lemma with_logfile_alive:
  assumes "log_alive w" and "\<And>l. lf_open l (pr_dir w) \<Longrightarrow> \<exists>l' dir'. f (pr_clock w) l (pr_dir w) = Inr (l', dir') \<and> lf_open l' dir'"
  shows "\<exists>w'. with_logfile f (Inr w) = Inr w' \<and> log_alive w'"
  using assms by (fastforce simp: log_alive_def with_logfile_def)

lemma append_alive: "log_alive w \<Longrightarrow> \<exists>w'. with_logfile (\<lambda>now. lf_append date_text now buf) (Inr w) = Inr w' \<and> log_alive w'"
  by (erule with_logfile_alive) (metis lf_append_content)

lemma flush_alive: "log_alive w \<Longrightarrow> \<exists>w'. with_logfile (\<lambda>now. lf_flush) (Inr w) = Inr w' \<and> log_alive w'"
  by (erule with_logfile_alive) (metis lf_flush_open af_flush_keeps)

lemma statement_alive: "log_alive w \<Longrightarrow> \<exists>w'. log_statement (logfile_logger env lg) st (Inr w) = Inr w' \<and> log_alive w'"
  using append_alive [of w "me_date_text env" "log_line (logfile_logger env lg) st"] flush_alive
  by (fastforce simp: log_statement_cases)

lemma fold_statements_alive:
  "log_alive w \<Longrightarrow> \<exists>w'. fold (\<lambda>(now, st) w. log_statement (logfile_logger env lg) st (tick now w)) xs (Inr w) = Inr w' \<and> log_alive w'"
proof (induction xs arbitrary: w)
  case (Cons x xs)
  have "log_alive (w\<lparr>pr_clock := fst x\<rparr>)"
    using Cons.prems by (simp add: log_alive_def)
  then obtain w1 where "log_statement (logfile_logger env lg) (snd x) (tick (fst x) (Inr w)) = Inr w1" "log_alive w1"
    using statement_alive by (fastforce simp: tick_def)
  then show ?case
    using Cons.IH by (simp add: case_prod_beta)
qed auto

lemma statements_dead:
  assumes "pr_logfile w = None"
  shows "lg_output (logfile_logger env lg) buf (Inr w) = Inl Dangling" and "with_logfile f (Inl e) = Inl e"
  using assms by (simp_all add: with_logfile_def)

lemma end_of_scope_alive: "log_alive w \<Longrightarrow> \<exists>w'. end_of_scope (Inr w) = Inr w' \<and> pr_logfile w' = None"
  by (auto simp: log_alive_def end_of_scope_def)

lemma open_logfile_alive: "0 < pr_clock w \<Longrightarrow> log_alive (open_logfile env w)"
  by (auto simp: log_alive_def open_logfile_def split: prod.splits dest!: lf_new_open(1))

lemma NOTICE_LOG_cases:
  "NOTICE_LOG env file line msg lg w =
     (if lg_log_level lg = L_ERROR_EXIT then w else lg_output lg (impl_new env file line L_NOTICE lg @ msg @ [10]) w)"
  by (cases "lg_log_level lg") (simp_all add: NOTICE_LOG_def get_log_level_def logger_end_def ToUTF8_def)

lemma ERROR_LOG_eq:
  "ERROR_LOG env file line msg lg w = lg_flush lg (lg_output lg (impl_new env file line L_ERROR_EXIT lg @ msg @ [10]) w)"
  by (simp add: ERROR_LOG_def logger_end_def ToUTF8_def)

lemma notice_alive:
  assumes "log_alive w"
  shows "\<exists>w'. NOTICE_LOG e file line msg (logfile_logger env lg) (Inr w) = Inr w' \<and> log_alive w'"
  using assms append_alive [OF assms, of "me_date_text env"] by (simp add: NOTICE_LOG_cases)

subsection \<open>The last log statements\<close>

lemma main_body_logged:
  assumes "load_config (me_evp env) (me_read_json env) path Server_config m lg = Inr (m', lg')"
    and "sc_log_dir (cm_server_cfg m') \<noteq> []" and "0 < pr_clock w"
  shows "\<exists>w' dns' ok. main_body env path m dns lg w =
      (ok, dns', logfile_logger env (set_log_level (sc_log_level (cm_server_cfg m')) lg'), Inr w') \<and>
    pr_logfile w' = None \<and> (ok \<longleftrightarrow> (\<exists>sv. service_new (me_service env) (cm_server_cfg m') = Inr sv))"
proof -
  let ?lg = "logfile_logger env (set_log_level (sc_log_level (cm_server_cfg m')) lg')"
  let ?msg = "ascii ''overplus '' @ OVERPLUS_VERSION_STR @ ascii '' will start...'' @ [10]"
  obtain w1 where 1: "NOTICE_LOG (me_log_env env) (ascii ''main.cpp'') 61 ?msg ?lg (Inr (open_logfile env w)) = Inr w1" "log_alive w1"
    using notice_alive [OF open_logfile_alive [OF assms(3), of env]] by blast
  obtain w2 where 2: "fold (\<lambda>(now, st) w. log_statement ?lg st (tick now w)) (me_service_log env) (Inr w1) = Inr w2" "log_alive w2"
    using fold_statements_alive [OF 1(2)] by blast
  obtain w3 where "end_of_scope (Inr w2) = Inr w3" "pr_logfile w3 = None"
    using end_of_scope_alive [OF 2(2)] by blast
  then show ?thesis
    using assms(1,2) 1(1) 2(1) by (simp add: main_body_def Let_def split: sum.splits)
qed

text \<open>C38: with a log directory configured, the server's last statements use the log file after its scope has ended.
  The logger keeps the two lambdas, which refer to the local variable \<open>logfile_\<close>, and both \<open>ERROR_LOG\<close> of the
  handler and the final \<open>NOTICE_LOG\<close> run when that variable is gone. The run ends with such an access exactly if the
  service could not be constructed or notices are logged.\<close>

theorem main_log_dangles:
  assumes "load_config (me_evp env) (me_read_json env) path Server_config m (new_logger cout_write (\<lambda>w. w)) = Inr (m', lg')"
    and "sc_log_dir (cm_server_cfg m') \<noteq> []" and "0 < pr_clock w"
  shows "snd (server_main env (Run path) m dns w) = Inl Dangling \<longleftrightarrow>
    (\<exists>e. service_new (me_service env) (cm_server_cfg m') = Inl e) \<or> sc_log_level (cm_server_cfg m') \<noteq> L_ERROR_EXIT"
proof -
  let ?lg = "logfile_logger env (set_log_level (sc_log_level (cm_server_cfg m')) lg')"
  obtain w' dns' ok where body: "main_body env path m dns (new_logger cout_write (\<lambda>w. w)) w = (ok, dns', ?lg, Inr w')"
    "pr_logfile w' = None" "ok \<longleftrightarrow> (\<exists>sv. service_new (me_service env) (cm_server_cfg m') = Inr sv)"
    using main_body_logged [OF assms] by blast
  have failed: "\<not> ok \<longleftrightarrow> (\<exists>e. service_new (me_service env) (cm_server_cfg m') = Inl e)"
    by (cases "service_new (me_service env) (cm_server_cfg m')") (simp_all add: body(3))
  have level: "lg_log_level ?lg = sc_log_level (cm_server_cfg m')"
    by (simp add: set_log_level_def)
  show ?thesis
    by (cases ok)
       (use failed level body(1,2) in \<open>simp_all add: server_main_def NOTICE_LOG_cases ERROR_LOG_eq statements_dead [unfolded logfile_logger_simps] Let_def\<close>)
qed

definition ex_main_tree :: ptree where
  "ex_main_tree = \<lparr>pt_str = [ascii ''log_dir'' \<mapsto> ascii ''logs'', ascii ''log_level'' \<mapsto> ascii ''NOTICE''], pt_bool = Map.empty,
     pt_int = Map.empty, pt_children = Map.empty\<rparr>"

definition ex_main_env :: main_env where
  "ex_main_env = \<lparr>me_evp = Some, me_read_json = (\<lambda>_. Inr ex_main_tree), me_desc = [], me_date_text = (\<lambda>t. [46, 49]),
     me_mktime = (\<lambda>y m d. 0), me_log_env = \<lparr>le_time = [91, 93], le_thread = [49]\<rparr>, me_what = [], me_service = ex_service_env,
     me_service_log = []\<rparr>"

definition ex_process :: process where
  "ex_process = \<lparr>pr_logfile = None, pr_dir = Map.empty, pr_stdout = [], pr_clock = 86400\<rparr>"

theorem main_log_dangles_witness:
  "snd (server_main ex_main_env (Run (ascii ''server.json''))
     \<lparr>cm_client_cfg = ex_client_config, cm_server_cfg = ex_server_config, cm_loaded = False\<rparr> new_dns_cache ex_process) = Inl Dangling"
proof -
  let ?m = "\<lparr>cm_client_cfg = ex_client_config, cm_server_cfg = ex_server_config, cm_loaded = False\<rparr>"
  obtain m' lg' where "load_config (me_evp ex_main_env) (me_read_json ex_main_env) (ascii ''server.json'') Server_config ?m
      (new_logger cout_write (\<lambda>w. w)) = Inr (m', lg')"
    "sc_log_dir (cm_server_cfg m') = ascii ''logs''" "sc_log_level (cm_server_cfg m') = L_NOTICE"
    by (simp add: ex_main_env_def ex_main_tree_def load_config_def server_populate_def get_or_def parse_level_def ascii_def)
  moreover have "ascii ''logs'' \<noteq> []" "0 < pr_clock ex_process"
    by (simp_all add: ascii_def ex_process_def)
  ultimately show ?thesis
    using main_log_dangles [of ex_main_env "ascii ''server.json''" ?m m' lg' ex_process new_dns_cache] by simp
qed

end
