(* ===== verification/ClientApp.thy ===== *)
theory ClientApp
  imports ClientServer LogFile
begin

text \<open>
  \<^verbatim>\<open>Client/mainwindow.cpp\<close>, \<^verbatim>\<open>Client/main.cpp\<close> and \<^verbatim>\<open>Client/CliMain.cpp\<close>: the window of the client, its main program
  with the Windows proxy settings, and the command line client. A widget is the value it shows; what the widgets are set
  to by the generated form is an input, as are what the registry calls return, the trimming of a \<open>QString\<close> and the text
  of a floating-point number. Colours, style sheets and log messages are left out.
\<close>

subsection \<open>Formats\<close>

text \<open>\<open>fmt n d p\<close> is the text of \<open>n / d\<close> with \<open>p\<close> decimals.\<close>

type_synonym real_text = "nat \<Rightarrow> nat \<Rightarrow> nat \<Rightarrow> bytes"

definition formatSpeed :: "real_text \<Rightarrow> u64 \<Rightarrow> bytes" where
  "formatSpeed fmt bytes_per_second =
     (let bits = bytes_per_second * 8 in
      if bits < 1000 then to_dec (unat bits) @ ascii '' bps''
      else if bits < 1000000 then fmt (unat bits) 1000 1 @ ascii '' Kbps''
      else fmt (unat bits) 1000000 2 @ ascii '' Mbps'')"

definition formatTotal :: "real_text \<Rightarrow> u64 \<Rightarrow> bytes" where
  "formatTotal fmt bytes =
     (if bytes < 1024 then to_dec (unat bytes) @ ascii '' B''
      else if bytes < 1024 * 1024 then fmt (unat bytes) 1024 1 @ ascii '' KB''
      else if bytes < 1024 * 1024 * 1024 then fmt (unat bytes) (1024 * 1024) 1 @ ascii '' MB''
      else fmt (unat bytes) (1024 * 1024 * 1024) 2 @ ascii '' GB'')"

text \<open>The seconds since the connection was made are not negative.\<close>

definition formatDuration :: "nat \<Rightarrow> bytes" where
  "formatDuration seconds =
     (if seconds < 60 then to_dec seconds @ ascii ''s''
      else if seconds < 3600 then to_dec (seconds div 60) @ ascii ''m '' @ to_dec (seconds mod 60) @ ascii ''s''
      else if seconds < 86400 then to_dec (seconds div 3600) @ ascii ''h '' @ to_dec (seconds mod 3600 div 60) @ ascii ''m''
      else to_dec (seconds div 86400) @ ascii ''d '' @ to_dec (seconds mod 86400 div 3600) @ ascii ''h'')"

subsection \<open>The window\<close>

record window =
  w_HOST_NAME :: bytes
  w_HOST_PORT :: bytes
  w_HOST_PASSWD :: bytes
  w_LOCAL_PORT :: bytes
  w_DTLS_PORT :: bytes
  w_dtls_port_enabled :: bool
  w_UDP_CHECKBOX :: bool
  w_WS_CHECKBOX :: bool
  w_PWD_TOGGLE :: bool
  w_password_shown :: bool
  w_connect_enabled :: bool
  w_disconnect_enabled :: bool
  w_ping_enabled :: bool
  w_CONNECTION_STATUS :: bytes
  w_UDP_STATUS :: bytes
  w_DURATION_LABEL :: bytes
  w_SPEED_LABEL :: bytes
  w_TOTAL_LABEL :: bytes
  w_SESSIONS_LABEL :: bytes
  w_LATENCY_LABEL :: bytes
  w_LOG_VIEW :: "bytes list"
  w_log_visible :: bool
  w_visible :: bool
  w_tray_visible :: bool
  w_connectTime :: nat

text \<open>The constructor, from the form \<open>ui\<close>.\<close>

definition show_config :: "client_config \<Rightarrow> window \<Rightarrow> window" where
  "show_config config w =
     w\<lparr>w_HOST_NAME := cc_remote_addr config, w_HOST_PORT := cc_remote_port config,
       w_HOST_PASSWD := cc_text_password config,
       w_LOCAL_PORT := (if cc_local_port config = [] then ascii ''1080'' else cc_local_port config),
       w_DTLS_PORT := (if cc_dtls_port config = [] then ascii ''8443'' else cc_dtls_port config),
       w_UDP_CHECKBOX := cc_udp_enabled config, w_dtls_port_enabled := cc_udp_enabled config,
       w_WS_CHECKBOX := cc_useWebSocket config\<rparr>"

definition mw_new :: "window \<Rightarrow> config_manage \<Rightarrow> window" where
  "mw_new ui m =
     (let w = ui\<lparr>w_disconnect_enabled := False, w_tray_visible := True\<rparr>
      in if cm_loaded m then show_config (cm_client_cfg m) w else w)"

definition on_udp_checkbox :: "bool \<Rightarrow> window \<Rightarrow> window" where
  "on_udp_checkbox on w = w\<lparr>w_dtls_port_enabled := on\<rparr>"

definition appendLog :: "bytes \<Rightarrow> window \<Rightarrow> window" where
  "appendLog line w = w\<lparr>w_LOG_VIEW := w_LOG_VIEW w @ [line]\<rparr>"

text \<open>The logger's output hook, with the queued call of \<open>appendLog\<close>; \<open>g_logfile\<close> may be null.\<close>

definition mw_output ::
    "(bytes \<Rightarrow> bytes) \<Rightarrow> (int \<Rightarrow> bytes) \<Rightarrow> int \<Rightarrow> bytes \<Rightarrow> window \<Rightarrow> log_file option \<Rightarrow> directory \<Rightarrow> (window \<times> log_file option \<times> directory) res" where
  "mw_output trimmed date_text now buf w g_logfile dir =
     (let line = trimmed buf in
      rbind (case g_logfile of
          None \<Rightarrow> Inr (None, dir)
        | Some l \<Rightarrow> rbind (lf_append date_text now buf l dir) (\<lambda>(l, dir). Inr (Some l, dir))) (\<lambda>(g_logfile, dir).
      Inr (if line \<noteq> [] then appendLog line w else w, g_logfile, dir)))"

definition updateDuration :: "nat \<Rightarrow> window \<Rightarrow> window" where
  "updateDuration now w = w\<lparr>w_DURATION_LABEL := formatDuration (now - w_connectTime w)\<rparr>"

definition ARROW_UP :: bytes where "ARROW_UP = [0xe2, 0x86, 0x91]"
definition ARROW_DOWN :: bytes where "ARROW_DOWN = [0xe2, 0x86, 0x93]"

definition updateStats :: "real_text \<Rightarrow> (u64 \<Rightarrow> u64 \<Rightarrow> u64) \<Rightarrow> nat \<Rightarrow> window \<Rightarrow> proxy_stats \<Rightarrow> window \<times> proxy_stats" where
  "updateStats fmt smooth now w st =
     (let ((up, down), st) = getAndResetDelta smooth st;
          w = w\<lparr>w_SPEED_LABEL := ARROW_UP @ ascii '' '' @ formatSpeed fmt up @ ascii ''  '' @ ARROW_DOWN @ ascii '' '' @ formatSpeed fmt down\<rparr>;
          (total_up, total_down) = getTotal st;
          w = w\<lparr>w_TOTAL_LABEL := ARROW_UP @ ascii '' '' @ formatTotal fmt total_up @ ascii ''  '' @ ARROW_DOWN @ ascii '' '' @ formatTotal fmt total_down\<rparr>;
          w = w\<lparr>w_SESSIONS_LABEL := to_dec (unat (sessionCount st))\<rparr>
      in (updateDuration now w, st))"

subsection \<open>Settings\<close>

text \<open>The values put into the property tree.\<close>

datatype put_value = Put_str bytes | Put_bool bool

definition autoSave :: "(bytes \<Rightarrow> bytes option) \<Rightarrow> window \<Rightarrow> client_config \<Rightarrow> (client_config \<times> (bytes \<times> put_value) list) res" where
  "autoSave evp w config =
     (let config = config\<lparr>cc_remote_addr := w_HOST_NAME w, cc_remote_port := w_HOST_PORT w\<rparr> in
      rbind (setPassword evp (w_HOST_PASSWD w) config) (\<lambda>config.
        let config = config\<lparr>cc_local_port := w_LOCAL_PORT w, cc_dtls_port := w_DTLS_PORT w,
                            cc_udp_enabled := w_UDP_CHECKBOX w, cc_useWebSocket := w_WS_CHECKBOX w\<rparr>
        in Inr (config,
             [(ascii ''run_type'', Put_str (ascii ''client'')), (ascii ''local_addr'', Put_str (cc_local_addr config)),
              (ascii ''local_port'', Put_str (cc_local_port config)), (ascii ''remote_addr'', Put_str (cc_remote_addr config)),
              (ascii ''remote_port'', Put_str (cc_remote_port config)), (ascii ''user_name'', Put_str (cc_user_name config)),
              (ascii ''password'', Put_str (cc_text_password config)), (ascii ''udp_enabled'', Put_bool (cc_udp_enabled config)),
              (ascii ''dtls_port'', Put_str (cc_dtls_port config)), (ascii ''useWebSocket'', Put_bool (cc_useWebSocket config))])))"

definition closeEvent :: "(bytes \<Rightarrow> bytes option) \<Rightarrow> window \<Rightarrow> client_config \<Rightarrow> (window \<times> client_config \<times> (bytes \<times> put_value) list) res" where
  "closeEvent evp w config =
     rbind (autoSave evp w config) (\<lambda>(config, tree). Inr (w\<lparr>w_visible := False\<rparr>, config, tree))"

subsection \<open>Connecting\<close>

text \<open>What \<open>start_dtls\<close> gets from outside.\<close>

record dtls_env =
  de_make_address :: "bytes \<Rightarrow> ip_addr option"
  de_ctx_ok :: bool
  de_ssl_ok :: bool

text \<open>The slots run on the thread of the window. \<open>start_dtls\<close> acts there and then; the other three calls post their
  bodies to the thread of the server, which runs them later in the order in which they were posted.\<close>

datatype posted = Post_start_accept | Post_stop_dtls | Post_stop_accept

fun run_posted :: "bool \<Rightarrow> posted \<Rightarrow> client_server \<Rightarrow> client_server res" where
  "run_posted bind_ok Post_start_accept cs = cs_start_accept bind_ok cs"
| "run_posted bind_ok Post_stop_dtls cs = Inr (cs_stop_dtls cs)"
| "run_posted bind_ok Post_stop_accept cs = Inr (cs_stop_accept cs)"

fun run_queue :: "bool \<Rightarrow> posted list \<Rightarrow> client_server \<Rightarrow> client_server res" where
  "run_queue bind_ok [] cs = Inr cs"
| "run_queue bind_ok (p # ps) cs = rbind (run_posted bind_ok p cs) (run_queue bind_ok ps)"

definition onConnect ::
    "(bytes \<Rightarrow> bytes option) \<Rightarrow> dtls_env \<Rightarrow> nat \<Rightarrow> window \<Rightarrow> client_config \<Rightarrow> client_server \<Rightarrow>
     (window \<times> client_config \<times> client_server \<times> posted list) res" where
  "onConnect evp env now w config cs =
     (let w = w\<lparr>w_connect_enabled := False, w_disconnect_enabled := True, w_CONNECTION_STATUS := ascii ''CONNECTED''\<rparr>;
          config = config\<lparr>cc_remote_addr := w_HOST_NAME w, cc_remote_port := w_HOST_PORT w, cc_local_port := w_LOCAL_PORT w,
                          cc_dtls_port := w_DTLS_PORT w, cc_udp_enabled := w_UDP_CHECKBOX w, cc_useWebSocket := w_WS_CHECKBOX w\<rparr>
      in rbind (setPassword evp (w_HOST_PASSWD w) config) (\<lambda>config.
         let w = w\<lparr>w_UDP_STATUS := (if cc_udp_enabled config then ascii ''Active'' else ascii ''Disabled'')\<rparr> in
         rbind (start_dtls (de_make_address env) (de_ctx_ok env) (de_ssl_ok env) config cs) (\<lambda>cs.
           Inr (w\<lparr>w_connectTime := now\<rparr>, config, cs, [Post_start_accept]))))"

definition onDisconnect :: "window \<Rightarrow> window \<times> posted list" where
  "onDisconnect w =
     (w\<lparr>w_connect_enabled := True, w_disconnect_enabled := False, w_CONNECTION_STATUS := ascii ''DISCONNECTED'',
        w_UDP_STATUS := ascii ''--'', w_DURATION_LABEL := ascii ''--''\<rparr>,
      [Post_stop_dtls, Post_stop_accept])"

subsection \<open>Other slots\<close>

definition onPing :: "window \<Rightarrow> window \<times> (bytes \<times> bytes) option" where
  "onPing w =
     (if w_HOST_NAME w = [] \<or> w_HOST_PORT w = [] then (w\<lparr>w_LATENCY_LABEL := ascii ''N/A''\<rparr>, None)
      else (w\<lparr>w_ping_enabled := False, w_LATENCY_LABEL := ascii ''Testing...''\<rparr>, Some (w_HOST_NAME w, w_HOST_PORT w)))"

text \<open>The two handlers of a ping: the first gives the endpoint to connect to, if any.\<close>

definition on_ping_resolve :: "endpoint list option \<Rightarrow> window \<Rightarrow> window \<times> endpoint option" where
  "on_ping_resolve results w = (case results of
     Some (ep # _) \<Rightarrow> (w, Some ep)
   | _ \<Rightarrow> (w\<lparr>w_LATENCY_LABEL := ascii ''Failed'', w_ping_enabled := True\<rparr>, None))"

definition on_ping_connect :: "bool \<Rightarrow> nat \<Rightarrow> window \<Rightarrow> window" where
  "on_ping_connect ec ms w =
     (if ec then w\<lparr>w_LATENCY_LABEL := ascii ''Timeout'', w_ping_enabled := True\<rparr>
      else w\<lparr>w_LATENCY_LABEL := to_dec ms @ ascii '' ms'', w_ping_enabled := True\<rparr>)"

definition onToggleLog :: "window \<Rightarrow> window" where
  "onToggleLog w = w\<lparr>w_log_visible := \<not> w_log_visible w\<rparr>"

definition onCheckBoxClick :: "window \<Rightarrow> window" where
  "onCheckBoxClick w = w\<lparr>w_password_shown := w_PWD_TOGGLE w\<rparr>"

definition onShowWindow :: "window \<Rightarrow> window" where
  "onShowWindow w = w\<lparr>w_visible := True\<rparr>"

definition onTrayActivated :: "bool \<Rightarrow> window \<Rightarrow> window" where
  "onTrayActivated double_click w = (if double_click then onShowWindow w else w)"

definition onQuit :: "window \<Rightarrow> window" where
  "onQuit w = w\<lparr>w_tray_visible := False\<rparr>"

subsection \<open>The main programs\<close>

record registry =
  rg_ProxyServer :: "bytes option"
  rg_ProxyEnable :: "nat option"

text \<open>Whether opening the key and setting its two values succeeds.\<close>

record reg_env =
  re_create_ok :: bool
  re_server_ok :: bool
  re_enable_ok :: bool

definition LOCAL_PROXY_ADDR :: bytes where "LOCAL_PROXY_ADDR = ascii ''127.0.0.1''"
definition LOCAL_PROXY_PORT :: bytes where "LOCAL_PROXY_PORT = ascii ''1080''"
definition LOCAL_PROXY_PROTOCOL :: bytes where "LOCAL_PROXY_PROTOCOL = ascii ''socks://127.0.0.1:1080''"

definition disable_system_socks_proxy :: "reg_env \<Rightarrow> registry \<Rightarrow> bool \<times> registry" where
  "disable_system_socks_proxy env reg =
     (if \<not> re_create_ok env then (False, reg)
      else if re_enable_ok env then (True, reg\<lparr>rg_ProxyEnable := Some 0\<rparr>)
      else (False, reg))"

definition enable_system_socks_proxy :: "reg_env \<Rightarrow> registry \<Rightarrow> bool \<times> registry" where
  "enable_system_socks_proxy env reg =
     (if \<not> re_create_ok env then (False, reg)
      else if \<not> re_server_ok env then (False, reg)
      else
        let reg = reg\<lparr>rg_ProxyServer := Some LOCAL_PROXY_PROTOCOL\<rparr> in
        if re_enable_ok env then (True, reg\<lparr>rg_ProxyEnable := Some 1\<rparr>) else (False, reg))"

text \<open>What the main programs get from outside.\<close>

record gui_env =
  ge_isFile :: bool
  ge_evp :: "bytes \<Rightarrow> bytes option"
  ge_read_json :: "bytes \<Rightarrow> ptree res"
  ge_date_text :: "int \<Rightarrow> bytes"
  ge_mktime :: "int \<Rightarrow> int \<Rightarrow> int \<Rightarrow> int"
  ge_now :: int
  ge_resolve :: "bytes \<Rightarrow> bytes \<Rightarrow> endpoint list res"
  ge_reg_start :: reg_env
  ge_reg_end :: reg_env
  ge_ui :: window
  ge_exec :: "window \<Rightarrow> client_server \<Rightarrow> int \<times> client_server"

definition initial_config :: "gui_env \<Rightarrow> config_manage \<Rightarrow> 'w logger \<Rightarrow> (config_manage \<times> 'w logger) res" where
  "initial_config env m lg =
     (if ge_isFile env then load_config (ge_evp env) (ge_read_json env) (ascii ''client.json'') Client_config m lg
      else Inr (m\<lparr>cm_client_cfg := (cm_client_cfg m)\<lparr>cc_local_addr := LOCAL_PROXY_ADDR, cc_local_port := LOCAL_PROXY_PORT,
                                                     cc_user_name := ascii ''test_usr''\<rparr>\<rparr>, lg))"

text \<open>The exit code, the registry and the log directory; \<open>ge_exec\<close> is what happens to the server until the event loop
  ends. An exception of \<open>load_config\<close> is not caught.\<close>

definition gui_main :: "gui_env \<Rightarrow> config_manage \<Rightarrow> 'w logger \<Rightarrow> registry \<Rightarrow> directory \<Rightarrow> (int \<times> registry \<times> directory) res" where
  "gui_main env m lg reg dir =
     rbind (initial_config env m lg) (\<lambda>(m, lg).
       let config = cm_client_cfg m;
           (l, dir) = lf_new (ge_date_text env) (ge_mktime env) (ge_now env) (ascii ''overplus'') (10 * 1024 * 1024) 3 1024 30 dir;
           lg = set_log_level L_NOTICE (set_log_destination D_FILE lg);
           (ok, reg) = enable_system_socks_proxy (ge_reg_start env) reg
       in if \<not> ok then Inr (1, reg, dir)
          else case cs_new (ge_resolve env) config (cc_local_addr config) (cc_local_port config) of
            Inl e \<Rightarrow> Inr (1, reg, dir)
          | Inr server \<Rightarrow>
              let w = onShowWindow (mw_new (ge_ui env) m);
                  (rc, server) = ge_exec env w server;
                  server = cs_stop server;
                  (_, reg) = disable_system_socks_proxy (ge_reg_end env) reg
              in Inr (rc, reg, dir))"

text \<open>The command line client up to \<open>run\<close>: nothing is caught. It opens a log file and removes old ones, but its output
  hook writes to the terminal, with a line feed.\<close>

definition cli_main ::
    "gui_env \<Rightarrow> dtls_env \<Rightarrow> bool \<Rightarrow> config_manage \<Rightarrow> bytes logger \<Rightarrow> directory \<Rightarrow>
     (config_manage \<times> bytes logger \<times> client_server \<times> directory) res" where
  "cli_main ge env bind_ok m lg dir =
     rbind (load_config (ge_evp ge) (ge_read_json ge) (ascii ''client.json'') Client_config m lg) (\<lambda>(m, lg).
       let config = cm_client_cfg m;
           (l, dir) = lf_new (ge_date_text ge) (ge_mktime ge) (ge_now ge) (ascii ''overplus'') (10 * 1024 * 1024) 3 1024 30 dir;
           lg = set_log_level L_NOTICE lg;
           lg = set_log_destination D_STDOUT lg;
           lg = setOutput (\<lambda>buf out. out @ buf @ [10]) lg
       in rbind (cs_new (ge_resolve ge) config (cc_local_addr config) (cc_local_port config)) (\<lambda>server.
          rbind (start_dtls (de_make_address env) (de_ctx_ok env) (de_ssl_ok env) config server) (\<lambda>server.
          rbind (cs_start_accept bind_ok server) (\<lambda>server.
            Inr (m, lg, server, dir)))))"

subsection \<open>Properties\<close>

text \<open>Boost's property tree gives back what was put into it and written to the file.\<close>

fun stored :: "ptree \<Rightarrow> bytes \<times> put_value \<Rightarrow> bool" where
  "stored tree (k, Put_str v) = (pt_str tree k = Some v)"
| "stored tree (k, Put_bool b) = (pt_bool tree k = Some b)"

lemma client_populate_all:
  assumes "evp p = Some d" and "pt_str tree (ascii ''password'') = Some p"
  shows "client_populate evp tree c = Inr
    \<lparr>cc_local_addr = get_or (pt_str tree (ascii ''local_addr'')) [], cc_local_port = get_or (pt_str tree (ascii ''local_port'')) [],
     cc_remote_addr = get_or (pt_str tree (ascii ''remote_addr'')) [], cc_remote_port = get_or (pt_str tree (ascii ''remote_port'')) [],
     cc_password = hex_digest d, cc_user_name = get_or (pt_str tree (ascii ''user_name'')) [], cc_text_password = p,
     cc_udp_enabled = get_or (pt_bool tree (ascii ''udp_enabled'')) False, cc_dtls_port = get_or (pt_str tree (ascii ''dtls_port'')) [],
     cc_useWebSocket = get_or (pt_bool tree (ascii ''useWebSocket'')) False\<rparr>"
  using assms by (simp add: client_populate_def SHA224_def get_or_def)

text \<open>What is saved from a window: the configuration it describes, whose fields are all stored.\<close>

definition saved_config :: "bytes \<Rightarrow> window \<Rightarrow> client_config \<Rightarrow> client_config" where
  "saved_config hash w config =
     \<lparr>cc_local_addr = cc_local_addr config, cc_local_port = w_LOCAL_PORT w, cc_remote_addr = w_HOST_NAME w,
      cc_remote_port = w_HOST_PORT w, cc_password = hash, cc_user_name = cc_user_name config,
      cc_text_password = w_HOST_PASSWD w, cc_udp_enabled = w_UDP_CHECKBOX w, cc_dtls_port = w_DTLS_PORT w,
      cc_useWebSocket = w_WS_CHECKBOX w\<rparr>"

lemma closeEvent_saves:
  assumes "evp (w_HOST_PASSWD w) = Some d" and "closeEvent evp w config = Inr (w', config', es)"
  shows "config' = saved_config (hex_digest d) w config \<and>
    es = [(ascii ''run_type'', Put_str (ascii ''client'')), (ascii ''local_addr'', Put_str (cc_local_addr config')),
      (ascii ''local_port'', Put_str (cc_local_port config')), (ascii ''remote_addr'', Put_str (cc_remote_addr config')),
      (ascii ''remote_port'', Put_str (cc_remote_port config')), (ascii ''user_name'', Put_str (cc_user_name config')),
      (ascii ''password'', Put_str (cc_text_password config')), (ascii ''udp_enabled'', Put_bool (cc_udp_enabled config')),
      (ascii ''dtls_port'', Put_str (cc_dtls_port config')), (ascii ''useWebSocket'', Put_bool (cc_useWebSocket config'))]"
proof -
  have "config' = saved_config (hex_digest d) w config"
    using assms by (auto simp: closeEvent_def autoSave_def setPassword_def SHA224_def saved_config_def Let_def)
  then show ?thesis
    using assms by (simp add: closeEvent_def autoSave_def setPassword_def SHA224_def saved_config_def Let_def)
qed

lemma populate_stored:
  assumes "evp (w_HOST_PASSWD w) = Some d" and "closeEvent evp w config = Inr (w', config', es)" and "list_all (stored tree) es"
  shows "client_populate evp tree c = Inr config'"
proof -
  note saved = closeEvent_saves [OF assms(1,2)]
  have keys: "pt_str tree (ascii ''local_addr'') = Some (cc_local_addr config')" "pt_str tree (ascii ''local_port'') = Some (cc_local_port config')"
    "pt_str tree (ascii ''remote_addr'') = Some (cc_remote_addr config')" "pt_str tree (ascii ''remote_port'') = Some (cc_remote_port config')"
    "pt_str tree (ascii ''user_name'') = Some (cc_user_name config')" "pt_str tree (ascii ''password'') = Some (w_HOST_PASSWD w)"
    "pt_bool tree (ascii ''udp_enabled'') = Some (cc_udp_enabled config')" "pt_str tree (ascii ''dtls_port'') = Some (cc_dtls_port config')"
    "pt_bool tree (ascii ''useWebSocket'') = Some (cc_useWebSocket config')"
    using assms(3) conjunct2 [OF saved] conjunct1 [OF saved] by (simp_all add: saved_config_def)
  show ?thesis
    using client_populate_all [of evp "w_HOST_PASSWD w" d tree c, OF assms(1) keys(6)] conjunct1 [OF saved] by (simp add: keys get_or_def saved_config_def)
qed

text \<open>C39: the settings survive a restart. When the window is closed and its settings were written, a client that reads
  this file starts with exactly the configuration that was in use, the password and its hash included, whatever was
  configured before; and its window shows the same settings in every field, as long as the two ports were not empty.\<close>

theorem settings_survive:
  assumes "evp (w_HOST_PASSWD w) = Some d" and "closeEvent evp w config = Inr (w', config', es)"
    and "ge_isFile env" and "ge_evp env = evp" and "ge_read_json env (ascii ''client.json'') = Inr tree" and "list_all (stored tree) es"
    and "w_LOCAL_PORT w \<noteq> []" and "w_DTLS_PORT w \<noteq> []"
  shows "\<exists>m' v. initial_config env m lg = Inr (m', lg) \<and> v = mw_new ui m' \<and> cm_client_cfg m' = config' \<and>
    cc_password config' = hex_digest d \<and>
    w_HOST_NAME v = w_HOST_NAME w \<and> w_HOST_PORT v = w_HOST_PORT w \<and> w_HOST_PASSWD v = w_HOST_PASSWD w \<and>
    w_LOCAL_PORT v = w_LOCAL_PORT w \<and> w_DTLS_PORT v = w_DTLS_PORT w \<and> w_UDP_CHECKBOX v = w_UDP_CHECKBOX w \<and>
    w_WS_CHECKBOX v = w_WS_CHECKBOX w"
proof -
  have "initial_config env m lg = Inr (m\<lparr>cm_client_cfg := config', cm_loaded := True\<rparr>, lg)"
    using populate_stored [OF assms(1,2,6), of "cm_client_cfg m"] assms(3-5) by (simp add: initial_config_def load_config_def)
  moreover have "config' = saved_config (hex_digest d) w config"
    using closeEvent_saves [OF assms(1,2)] by simp
  ultimately show ?thesis
    using assms(7,8) by (simp add: mw_new_def show_config_def saved_config_def)
qed

text \<open>C40: clicking Disconnect and then Connect loses the UDP channel when the thread of the server is slower than the
  user. The old channel is stopped by a posted body while the new one is created at once: once the thread has run what
  was posted, in order, the client accepts connections with the new configuration, the window reports UDP as active,
  and there is no channel, so every UDP association is refused.\<close>

theorem reconnect_loses_channel:
  assumes "onConnect evp env now (fst (onDisconnect w)) config cs = Inr (w', config', cs', ps)" and "w_UDP_CHECKBOX w"
    and "run_queue True (snd (onDisconnect w) @ ps) cs' = Inr cs''"
  shows "has_dtls cs' \<and> w_UDP_STATUS w' = ascii ''Active'' \<and> w_connect_enabled w' = False \<and>
    cs_acceptor_open cs'' \<and> cs_accepting cs'' = Some (if cs_useWebSocket cs then Websocket else Tls) \<and> \<not> has_dtls cs''"
proof -
  obtain config1 where 1: "start_dtls (de_make_address env) (de_ctx_ok env) (de_ssl_ok env) config1 cs = Inr cs'" "cc_udp_enabled config1"
    "ps = [Post_start_accept]" "w_UDP_STATUS w' = ascii ''Active''" "w_connect_enabled w' = False"
    using assms(1,2) by (auto simp: onConnect_def onDisconnect_def setPassword_def rbind_eq_Inr Let_def)
  obtain c where c: "cs' = cs\<lparr>cs_dtls := Some c\<rparr>"
    using 1(1,2) by (auto simp: start_dtls_def rbind_eq_Inr)
  show ?thesis
    using assms(3) 1(3-5)
    by (auto simp: c onDisconnect_def cs_start_accept_def cs_do_accept_def do_accept_ws_def do_accept_tls_def cs_stop_dtls_def
        cs_stop_accept_def has_dtls_def Let_def)
qed

text \<open>The client can leave the system without a network. With a registry that can be written, a run of the client
  whose configuration loads ends with the system's proxy setting pointing at port 1080, whatever local port is
  configured; the setting is switched off again at the end exactly if the local server could be constructed, and
  otherwise stays switched on although nothing listens there.\<close>

theorem system_proxy_left_on:
  assumes "initial_config env m lg = Inr (m', lg')"
    and "ge_reg_start env = \<lparr>re_create_ok = True, re_server_ok = True, re_enable_ok = True\<rparr>"
    and "re_create_ok (ge_reg_end env)" and "re_enable_ok (ge_reg_end env)"
  shows "\<exists>rc reg' dir'. gui_main env m lg reg dir = Inr (rc, reg', dir') \<and> rg_ProxyServer reg' = Some (ascii ''socks://127.0.0.1:1080'') \<and>
    rg_ProxyEnable reg' =
      Some (case cs_new (ge_resolve env) (cm_client_cfg m') (cc_local_addr (cm_client_cfg m')) (cc_local_port (cm_client_cfg m')) of
        Inr _ \<Rightarrow> 0 | Inl _ \<Rightarrow> 1)"
  using assms
  by (simp add: gui_main_def enable_system_socks_proxy_def disable_system_socks_proxy_def LOCAL_PROXY_PROTOCOL_def Let_def
      case_prod_beta split: sum.split)

subsection \<open>Witnesses\<close>

definition ex_window :: window where
  "ex_window =
     \<lparr>w_HOST_NAME = [104], w_HOST_PORT = [52], w_HOST_PASSWD = [112], w_LOCAL_PORT = [49], w_DTLS_PORT = [56], w_dtls_port_enabled = True,
      w_UDP_CHECKBOX = True, w_WS_CHECKBOX = False, w_PWD_TOGGLE = False, w_password_shown = False, w_connect_enabled = False,
      w_disconnect_enabled = True, w_ping_enabled = True, w_CONNECTION_STATUS = [], w_UDP_STATUS = [], w_DURATION_LABEL = [],
      w_SPEED_LABEL = [], w_TOTAL_LABEL = [], w_SESSIONS_LABEL = [], w_LATENCY_LABEL = [], w_LOG_VIEW = [], w_log_visible = True,
      w_visible = True, w_tray_visible = True, w_connectTime = 0\<rparr>"

definition ex_saved :: client_config where
  "ex_saved = saved_config (hex_digest [112]) ex_window ex_client_config"

definition ex_saved_tree :: ptree where
  "ex_saved_tree =
     \<lparr>pt_str = [ascii ''run_type'' \<mapsto> ascii ''client'', ascii ''local_addr'' \<mapsto> [], ascii ''local_port'' \<mapsto> [49],
        ascii ''remote_addr'' \<mapsto> [104], ascii ''remote_port'' \<mapsto> [52], ascii ''user_name'' \<mapsto> [], ascii ''password'' \<mapsto> [112],
        ascii ''dtls_port'' \<mapsto> [56]],
      pt_bool = [ascii ''udp_enabled'' \<mapsto> True, ascii ''useWebSocket'' \<mapsto> False], pt_int = Map.empty, pt_children = Map.empty\<rparr>"

definition ex_reg_env :: reg_env where
  "ex_reg_env = \<lparr>re_create_ok = True, re_server_ok = True, re_enable_ok = True\<rparr>"

definition ex_gui_env :: gui_env where
  "ex_gui_env = \<lparr>ge_isFile = True, ge_evp = Some, ge_read_json = (\<lambda>_. Inr ex_saved_tree), ge_date_text = (\<lambda>t. [46, 49]),
     ge_mktime = (\<lambda>y m d. 0), ge_now = 86400, ge_resolve = (\<lambda>_ _. Inl Runtime_error), ge_reg_start = ex_reg_env,
     ge_reg_end = ex_reg_env, ge_ui = ex_window, ge_exec = (\<lambda>w cs. (0, cs))\<rparr>"

definition ex_manage :: config_manage where
  "ex_manage = \<lparr>cm_client_cfg = ex_client_config, cm_server_cfg = ex_server_config, cm_loaded = False\<rparr>"

lemma ex_close: "\<exists>w' es. closeEvent Some ex_window ex_client_config = Inr (w', ex_saved, es) \<and> list_all (stored ex_saved_tree) es"
  by (simp add: closeEvent_def autoSave_def setPassword_def SHA224_def ex_saved_def saved_config_def ex_client_config_def ex_window_def
      ex_saved_tree_def ascii_def)

theorem settings_survive_witness:
  "\<exists>m'. initial_config ex_gui_env ex_manage (new_logger (\<lambda>b w. w :: unit) (\<lambda>w. w)) = Inr (m', new_logger (\<lambda>b w. w) (\<lambda>w. w)) \<and>
     cm_client_cfg m' = ex_saved \<and> w_HOST_PASSWD (mw_new ex_window m') = [112]"
proof -
  obtain w' es where close: "closeEvent Some ex_window ex_client_config = Inr (w', ex_saved, es)" "list_all (stored ex_saved_tree) es"
    using ex_close by blast
  have "w_LOCAL_PORT ex_window \<noteq> []" "w_DTLS_PORT ex_window \<noteq> []" "w_HOST_PASSWD ex_window = [112]"
    by (simp_all add: ex_window_def)
  then show ?thesis
    using settings_survive [of Some ex_window "[112]" ex_client_config w' ex_saved es ex_gui_env ex_saved_tree ex_manage
        "new_logger (\<lambda>b w. w :: unit) (\<lambda>w. w)" ex_window] close
    by (auto simp: ex_gui_env_def)
qed

definition ex_local :: client_server where
  "ex_local = \<lparr>cs_local_endpoint = default_endpoint, cs_acceptor_open = True, cs_accepting = Some Tls, cs_useWebSocket = False,
     cs_dtls = None, cs_next_session_id = 1, cs_relays = Map.empty, cs_dtls_ready = False, cs_stopped = False\<rparr>"

theorem reconnect_loses_channel_witness:
  "\<exists>w' config' cs' ps cs''.
     onConnect Some \<lparr>de_make_address = (\<lambda>_. Some (Ip4 10 0 0 1)), de_ctx_ok = True, de_ssl_ok = True\<rparr> 5 (fst (onDisconnect ex_window))
       ex_client_config ex_local = Inr (w', config', cs', ps) \<and>
     run_queue True (snd (onDisconnect ex_window) @ ps) cs' = Inr cs'' \<and> has_dtls cs' \<and> \<not> has_dtls cs''"
proof -
  let ?env = "\<lparr>de_make_address = (\<lambda>_. Some (Ip4 10 0 0 1)), de_ctx_ok = True, de_ssl_ok = True\<rparr>"
  have port: "stoi [56] = Inr 8"
    by (simp add: stoi_def is_digit_def is_space_def digits_value_def Let_def)
  obtain w' config' cs' ps where 1: "onConnect Some ?env 5 (fst (onDisconnect ex_window)) ex_client_config ex_local = Inr (w', config', cs', ps)"
    "ps = [Post_start_accept]"
    using port by (simp add: onConnect_def onDisconnect_def setPassword_def SHA224_def start_dtls_def ch_new_def ex_window_def Let_def)
  obtain cs'' where 2: "run_queue True (snd (onDisconnect ex_window) @ ps) cs' = Inr cs''"
    using 1(2) by (simp add: onDisconnect_def cs_start_accept_def Let_def)
  show ?thesis
    using reconnect_loses_channel [OF 1(1) _ 2] 1(1) 2 by (fastforce simp: ex_window_def)
qed

theorem system_proxy_left_on_witness:
  "\<exists>rc reg' dir'. gui_main ex_gui_env ex_manage (new_logger (\<lambda>b w. w :: unit) (\<lambda>w. w)) \<lparr>rg_ProxyServer = None, rg_ProxyEnable = None\<rparr> Map.empty =
     Inr (rc, reg', dir') \<and> rg_ProxyEnable reg' = Some 1"
proof -
  obtain m' lg' where "initial_config ex_gui_env ex_manage (new_logger (\<lambda>b w. w :: unit) (\<lambda>w. w)) = Inr (m', lg')"
    by (simp add: initial_config_def ex_gui_env_def load_config_def client_populate_def SHA224_def Let_def)
  from system_proxy_left_on [OF this, of "\<lparr>rg_ProxyServer = None, rg_ProxyEnable = None\<rparr>" Map.empty] show ?thesis
    by (auto simp: ex_gui_env_def ex_reg_env_def cs_new_def)
qed

end
