(* ===== verification/MemBio.thy ===== *)
theory MemBio
  imports Prelude
begin

text \<open>
  \<^verbatim>\<open>DtlsServerSession::drain_wbio\<close> and \<^verbatim>\<open>DtlsChannel::drain_write_bio\<close>: the loops that move cipher text from OpenSSL to a
  UDP socket. What the successive calls of \<open>BIO_read\<close> put into the buffer is an input; a call that returns nothing, and
  the end of the list, end the loop. The server sends each datagram before it reads the next one; the channel starts
  asynchronous sends that all refer to one buffer.
\<close>

fun drain_wbio :: "bytes list \<Rightarrow> bytes list" where
  "drain_wbio [] = []"
| "drain_wbio (d # reads) = (if d = [] then [] else d # drain_wbio reads)"

text \<open>The channel: the buffer after the loop and the sizes of the sends that were started. A send that runs when the loop
  is over transmits what the buffer holds then.\<close>

fun drain_write_bio :: "bytes \<Rightarrow> bytes list \<Rightarrow> bytes \<times> nat list" where
  "drain_write_bio buf [] = (buf, [])"
| "drain_write_bio buf (d # reads) =
     (if d = [] then (buf, [])
      else let (buf', ns) = drain_write_bio (d @ drop (length d) buf) reads in (buf', length d # ns))"

definition late_sends :: "bytes \<times> nat list \<Rightarrow> bytes list" where
  "late_sends = (\<lambda>(buf, ns). map (\<lambda>n. take n buf) ns)"

subsection \<open>What is sent\<close>

lemma late_sizes: "snd (drain_write_bio buf reads) = map length (drain_wbio reads)"
  by (induction buf reads rule: drain_write_bio.induct) (auto split: prod.splits)

text \<open>The buffer ends up with the last datagram in front.\<close>

lemma late_buffer:
  "drain_wbio reads \<noteq> [] \<Longrightarrow>
   take (length (last (drain_wbio reads))) (fst (drain_write_bio buf reads)) = last (drain_wbio reads)"
proof (induction buf reads rule: drain_write_bio.induct)
  case (2 buf d reads)
  show ?case
  proof (cases "drain_wbio reads = []")
    case True
    then have "drain_write_bio b reads = (b, [])" for b
      by (cases reads) (auto split: if_splits)
    then show ?thesis using 2(2) True by (simp split: if_splits)
  next
    case False
    then show ?thesis using 2 by (simp add: case_prod_beta split: if_splits)
  qed
qed simp

text \<open>The channel sends what the server's loop would have sent as long as there is one datagram. With more, if the sends
  run after the loop, every datagram begins with the bytes of the last one.\<close>

lemma drain_write_bio_single: "d \<noteq> [] \<Longrightarrow> late_sends (drain_write_bio buf [d]) = drain_wbio [d]"
  by (simp add: late_sends_def)

lemma drain_write_bio_overwrites:
  assumes "d \<in> set (late_sends (drain_write_bio buf reads))"
  shows "take (length (last (drain_wbio reads))) d = take (length d) (last (drain_wbio reads))"
proof -
  let ?b = "fst (drain_write_bio buf reads)" and ?l = "length (last (drain_wbio reads))"
  obtain n where d: "d = take n ?b" and n: "n \<in> set (snd (drain_write_bio buf reads))"
    using assms by (cases "drain_write_bio buf reads") (auto simp: late_sends_def)
  have ne: "drain_wbio reads \<noteq> []"
    using n by (auto simp: late_sizes)
  have "take (length d) (last (drain_wbio reads)) = take (length d) (take ?l ?b)"
    by (simp only: late_buffer [OF ne])
  also have "\<dots> = take ?l (take (length d) ?b)"
    by (simp only: take_take min.commute)
  also have "take (length d) ?b = d"
    by (simp add: d min_def)
  finally show ?thesis by simp
qed

end
