(* ===== verification/Spec2Isabelle.thy ===== *)
theory Spec2Isabelle
  imports UdpFrame VRequest Trojan UdpRequest Socks5 Http DnsCache IoContextPool SessionBuffer ServerSession ServerUdp
    ProxyStats Config LogFile DtlsAuth DtlsListener DtlsChannel UdpRelay ClientWorld ClientProgress ServerMain ClientApp MemBio
begin

text \<open>
  \<^bold>\<open>Verification of overplus.\<close> overplus is a proxy in two programs. The client (\<^verbatim>\<open>Client/\<close>) accepts SOCKS5 and HTTP CONNECT
  connections from local applications and tunnels each of them to the server (\<^verbatim>\<open>Server/\<close>) over TLS or a WebSocket; UDP
  associations are multiplexed over one DTLS channel. The server checks a password, resolves the target and relays. Both
  use the wire formats of \<^verbatim>\<open>Protocol/\<close> and the utilities of \<^verbatim>\<open>Shared/\<close>.

  \<^bold>\<open>How the code is modelled.\<close> Definitions keep the names of the sources; a prefix tells methods of the same name apart
  (\<open>uf_parse\<close> is \<^verbatim>\<open>UdpFrame::parse\<close>, \<open>up_parse\<close> is \<^verbatim>\<open>UDPPacket::parse\<close>). A class is a record, a method a function from the old
  to the new record, a lambda given to an asynchronous call a function of its own (\<open>on_...\<close>) that gets what the operation
  completed with. Operations that were started are in a list of pending operations of the session, so an execution is a
  sequence of completions in any order, and the reachable states are inductive predicates (\<open>srv_reach\<close>, \<open>dtls_reach\<close>,
  \<open>listener_reach\<close>, \<open>chan_reach\<close>, \<open>cl_reach\<close>, \<open>world_reach\<close>, \<open>service_reach\<close>) that also record the trace. Strings are lists of
  \<open>8 word\<close>; fixed-width integers are words and wrap; differences of \<^verbatim>\<open>size_t\<close> wrap by \<open>sz_sub\<close>. What a C++ function can do
  besides returning is a \<open>fault\<close>: an exception, a read outside a buffer, the use of a dead object.

  \<^bold>\<open>The theories.\<close>

  \<^descr> \<open>Prelude\<close>, \<open>CText\<close>, \<open>Endpoint\<close>, \<open>Asio\<close>, \<open>WireCodec\<close>: words, faults, checked buffer accesses, \<^verbatim>\<open>std::string\<close> and \<^verbatim>\<open>std::stoi\<close>;
    addresses; completions of asynchronous operations; the contract of a self-delimiting message format as the locales
    \<open>wire_codec\<close> and \<open>stream_codec\<close>.
  \<^descr> \<open>Coding\<close>, \<open>VRequest\<close>, \<open>Trojan\<close>, \<open>UdpFrame\<close>, \<open>UdpRequest\<close>, \<open>Socks5\<close>, \<open>Http\<close>: \<^verbatim>\<open>Shared/Coding.cpp\<close> and the classes of \<^verbatim>\<open>Protocol/\<close>.
    They show round trips, that a parser accepts exactly the encodings of well-formed messages, and on which input it
    faults. \<open>Trojan\<close> interprets \<open>stream_codec\<close> on the datagram format that is read from a stream.
  \<^descr> \<open>DnsCache\<close>, \<open>IoContextPool\<close>, \<open>ProxyStats\<close>, \<open>Config\<close>, \<open>Log\<close>, \<open>LogFile\<close>: the rest of \<^verbatim>\<open>Shared/\<close>. A lookup is determined by
    the history of the cache (locale \<open>expiring_cache\<close>, interpreted on both maps); contexts are handed out evenly; no byte
    is counted twice however atomic accesses interleave; log lines are kept whole through every roll of the file.
  \<^descr> \<open>SessionBuffer\<close>, \<open>ServerSession\<close>, \<open>ServerRelay\<close>, \<open>ServerSafety\<close>, \<open>ServerUdp\<close>: \<^verbatim>\<open>Server/Session.{h,cpp}\<close>, \<^verbatim>\<open>TlsSession.cpp\<close>
    and \<^verbatim>\<open>WebsocketSession.cpp\<close>. The ring buffer refines a bounded queue (locale \<open>byte_fifo\<close>). On top of it, for every order of
    completions: no connection before the password was accepted; both directions deliver what they received, unchanged
    and in order; each direction has exactly one operation outstanding, so it cannot stall; destroying is final; the
    state is well-formed; only one parser can throw; the UDP mode forwards datagrams once each and in order.
  \<^descr> \<open>DtlsServerSession\<close>, \<open>DtlsAuth\<close>, \<open>DtlsListener\<close>, \<open>Service\<close>, \<open>ServerMain\<close>: the DTLS part of the server, the service and \<^verbatim>\<open>main\<close>.
    They show the login of DTLS sessions, that sessions of different clients are isolated, that the service keeps
    accepting until a signal, and where the log file is used after its scope.
  \<^descr> \<open>DtlsChannel\<close>, \<open>UdpRelay\<close>, \<open>ClientServer\<close>, \<open>ClientSession\<close>, \<open>ClientRelay\<close>, \<open>ClientProgress\<close>, \<open>ClientWorld\<close>: the client. The
    password is the first record of a channel; datagrams keep their order through the pending queue; a session
    writes the request for what was asked for and then relays exactly (locale \<open>pump\<close>, interpreted on both directions),
    gets through its opening in at most nine completions, and throws in three cases only; the table of raw relay
    pointers is safe for the first 65535 connections and is not after that.
  \<^descr> \<open>ClientApp\<close>: the window, its settings, the system proxy and the two main programs of the client.
  \<^descr> \<open>MemBio\<close>: the two loops that move cipher text to the socket. The channel's loop shares one buffer between its sends.
  \<^descr> \<open>Spec2Isabelle\<close>: what the programs do together. A TCP connection, a DTLS login and a UDP exchange are followed from the
    client's input to the server's and back.

  \<^bold>\<open>Bounds.\<close> No definition uses fuel: the loops of the sources recurse on lists or have a measure (what is left to
  copy in \<open>ring_enqueue\<close>, the methods left in \<open>auth_loop\<close>), and loops of handlers are sequences of steps. Where a theorem
  bounds a length, the bound is that of the code: the 64 KiB buffers of a session, 65500 bytes for the payload of one
  frame in its 16-bit length, \<open>string_max_size\<close> for what a \<^verbatim>\<open>std::string\<close> can hold.

  \<^bold>\<open>What is assumed.\<close> Boost, OpenSSL, Qt, the registry, the property tree, the resolver and the clock are not part of the
  sources: their results are arguments, and a theorem that needs more of them says so as a premise (the digest
  does not collide on the passwords in question; a written tree holds the values put into it; a completed write wrote at
  most what it was given). TLS, DTLS and WebSocket streams carry bytes or records; their encryption is not modelled.
  Outside \<open>MemBio\<close>, a send transmits the bytes its buffer held when it was started, as a send that is attempted at once
  does. \<^verbatim>\<open>DtlsServerSession::do_send_to_target\<close> relies on this, since nothing keeps its payload alive until the completion.

  \<^bold>\<open>Not modelled.\<close>

  \<^item> \<^verbatim>\<open>Client/mainwindow.ui\<close>, icons, colours, style sheets, the About box and the resize and move events: presentation only.
  \<^item> \<^verbatim>\<open>Session::on_udp_data_to_server\<close> of the client and the \<^verbatim>\<open>upstream_tcp_write\<close> overrides of the server: they have no caller.
    The base class versions of the \<^verbatim>\<open>upstream_\<close> methods only assert that they are overridden.
  \<^item> The \<^verbatim>\<open>write_to_upstream\<close> templates of \<^verbatim>\<open>Client/Session.h\<close>: they pass their arguments on to Boost.
  \<^item> The text of log messages, the terminal set-up and the wide-character conversion on Windows.
  \<^item> Data races between threads: each context is run by one thread, and a step is one handler. \<open>ProxyStats\<close>, whose
    counters are shared, has one step per atomic access, and \<open>ClientApp\<close> separates what the window's thread does at once
    from what it posts.
  \<^item> \<^verbatim>\<open>tools/\<close>, build files and documents.
\<close>

subsection \<open>A connection from the application to the target\<close>

lemma server_reads_client_request:
  assumes "srv_reach allowed kind s tr" and "Read_protocol \<in> set (ss_pending s)"
    and "length (vr_wire (client_vreq cfg host port) @ x) \<le> MAX_BUFF_SIZE"
  shows "\<exists>s'. on_complete allowed inp Read_protocol (Data (vr_wire (client_vreq cfg host port) @ x)) (finish Read_protocol s) = Inr s' \<and>
    (if cc_password cfg \<in> set allowed
     then ss_remote_host s' = host \<and> ss_remote_port s' = to_dec (unat port) \<and> srv_payload s' = x \<and>
       ss_pending s' = [case get_tcp (ss_dns s) (si_now inp) (dns_key host port) of
         Some ep \<Rightarrow> Connect ep | None \<Rightarrow> Tcp_resolve host (to_dec (unat port)) (dns_key host port)]
     else ss_state s' = DESTROY \<and> ss_pending s' = [])"
proof -
  let ?s = "finish Read_protocol s"
  have pend: "ss_pending ?s = []"
    using preauth_single [OF srv_reach_inv [OF assms(1)] assms(2)] by simp
  have s: "length (ss_in_buf ?s) = MAX_BUFF_SIZE" "vr_packed_buff (ss_v_req ?s) = []" "ss_dns ?s = ss_dns s"
    using srv_reach_sized [OF assms(1)] srv_reach_untouched [OF assms(1)] bexI [of preauth Read_protocol "set (ss_pending s)"] assms(2)
    by (simp_all add: sized_def bufs_ok_def bufs_def finish_def)
  have req: "vr_password (client_vreq cfg host port) = cc_password cfg" "vr_address (client_vreq cfg host port) = host"
    "vr_port (client_vreq cfg host port) = port"
    by (simp_all add: client_vreq_def)
  show ?thesis
    using read_v_request [OF s(1,2) assms(3), of allowed inp] pend s(3) req
    by (simp add: do_resolve_def do_connect_def srv_payload_def start_op_def Let_def split: option.split)
qed

text \<open>C1: client and server together carry a connection to the target the application named, and only for configured
  users. Let the client and the server load their configurations, with a hash that does not collide on the passwords
  involved. Take any reachable client session and any reachable server session that waits for its first request, and let
  its first read return a beginning of what the client wrote that holds the whole header. Then the bytes are the header
  for a target the application asked for, followed by a beginning of what the application sent; and the server resolves
  and connects to exactly this target, with exactly these bytes as its first payload, if the client's plain password is
  one of those configured on the server, and otherwise destroys the session without starting anything.\<close>

theorem tcp_end_to_end:
  assumes "\<And>p. evp p = Some (sha224 p)"
    and "pt_children stree (ascii ''allowed_passwords'') = Some ps" and "pt_str ctree (ascii ''password'') = Some p"
    and "inj_on sha224 (insert p (set ps))"
    and "client_populate evp ctree c0 = Inr cfg" and "server_populate evp stree s0 lg = Inr (scfg, lg')"
    and "cl_reach env ckind cfg c ctr"
    and "srv_reach (sc_allowed_passwords scfg) skind s str" and "Read_protocol \<in> set (ss_pending s)"
    and "prefix d (delivered upstream_payload ctr)" and "d \<noteq> []" and "length d \<le> MAX_BUFF_SIZE"
    and "\<And>host port. asked env ctr host port \<Longrightarrow> length (snd (vr_stream (client_vreq cfg host port) [])) \<le> length d"
  shows "\<exists>host port x s'. asked env ctr host port \<and> prefix x (received Cl_read_local ctr) \<and>
    d = snd (vr_stream (client_vreq cfg host port) []) @ x \<and>
    on_complete (sc_allowed_passwords scfg) inp Read_protocol (Data d) (finish Read_protocol s) = Inr s' \<and>
    (if p \<in> set ps
     then ss_remote_host s' = host \<and> ss_remote_port s' = to_dec (unat port) \<and> srv_payload s' = x \<and>
       ss_pending s' = [case get_tcp (ss_dns s) (si_now inp) (dns_key host port) of
         Some ep \<Rightarrow> Connect ep | None \<Rightarrow> Tcp_resolve host (to_dec (unat port)) (dns_key host port)]
     else ss_state s' = DESTROY \<and> ss_pending s' = [])"
proof -
  have accepted: "cc_password cfg \<in> set (sc_allowed_passwords scfg) \<longleftrightarrow> p \<in> set ps"
    using password_accepted_iff [OF assms(1-4), of c0 s0 lg] assms(5,6) by auto
  have "delivered upstream_payload ctr \<noteq> []"
    using assms(10,11) by auto
  then obtain host port where hp: "asked env ctr host port"
    "delivered upstream_payload ctr = vr_wire (client_vreq cfg host port) @ delivered to_server ctr"
    "prefix (delivered to_server ctr) (received Cl_read_local ctr)"
    using upstream_bytes [OF assms(7)] by (auto simp: vr_wire_def)
  define w where "w = vr_wire (client_vreq cfg host port)"
  obtain y where "w @ delivered to_server ctr = d @ y"
    using assms(10) unfolding hp(2) w_def by (auto simp: prefix_def)
  moreover have "length w \<le> length d"
    using assms(13) [OF hp(1)] by (simp add: w_def vr_wire_def)
  ultimately have "w = take (length w) d" "prefix (drop (length w) d) (delivered to_server ctr)"
    by (simp_all add: append_eq_append_conv_if)
  then obtain x where x: "d = vr_wire (client_vreq cfg host port) @ x" "prefix x (delivered to_server ctr)"
    unfolding w_def by (metis append_take_drop_id)
  have "prefix x (received Cl_read_local ctr)"
    using x(2) hp(3) by (rule prefix_order.trans)
  then show ?thesis
    using server_reads_client_request [OF assms(8,9), of cfg host port x inp] assms(12) hp(1) x(1) accepted
    unfolding vr_wire_def by (intro exI [of _ host] exI [of _ port] exI [of _ x]) auto
qed

definition ex_empty_tree :: ptree where
  "ex_empty_tree = \<lparr>pt_str = [ascii ''password'' \<mapsto> []], pt_bool = Map.empty, pt_int = Map.empty,
     pt_children = [ascii ''allowed_passwords'' \<mapsto> [[]]]\<rparr>"

lemma ex_client_populate: "client_populate (\<lambda>p. Some []) ex_empty_tree ex_client_config = Inr ex_client_config"
  by (simp add: client_populate_def ex_empty_tree_def ex_client_config_def get_or_def SHA224_def hex_digest_def ascii_def)

theorem tcp_end_to_end_witness:
  "\<exists>c s s'. cl_reach ex_env Tls ex_client_config c ClientRelay.ex_trace \<and> srv_reach [[]] Tls s [(Handshake, Done)] \<and>
     on_complete [[]] \<lparr>si_now = 0, si_open_ok = True\<rparr> Read_protocol (Data ex_vreq) (finish Read_protocol s) = Inr s' \<and>
     ss_remote_host s' = [104] \<and> ss_remote_port s' = to_dec 443"
proof -
  obtain c where c: "cl_reach ex_env Tls ex_client_config c ClientRelay.ex_trace"
    using ex_reach_relay by blast
  obtain s where s: "srv_reach [[]] Tls s [(Handshake, Done)]" "ss_pending s = [Read_protocol]"
    using ex_reach_protocol by blast
  obtain scfg lg' where pop: "server_populate (\<lambda>p. Some []) ex_empty_tree ex_server_config (new_logger (\<lambda>b w. w :: unit) (\<lambda>w. w)) = Inr (scfg, lg')"
    "sc_allowed_passwords scfg = [[]]"
    by (simp add: server_populate_def ex_empty_tree_def get_or_def SHA224_def hex_digest_def Let_def ascii_def)
  have asked: "host = [104] \<and> port = 443" if "asked ex_env ClientRelay.ex_trace host port" for host port
    using that ex_line_parse by (auto simp: asked_def ClientRelay.ex_trace_def)
  have up: "delivered upstream_payload ClientRelay.ex_trace = ex_vreq"
    by (simp add: delivered_def ClientRelay.ex_trace_def)
  have vreq: "ex_vreq = snd (vr_stream (client_vreq ex_client_config [104] 443) [])"
    by (simp add: ex_vreq_def vr_wire_def)
  have len: "ex_vreq \<noteq> []" "length ex_vreq \<le> MAX_BUFF_SIZE"
    using length_vr_wire [of "client_vreq ex_client_config [104] 443"]
    by (auto simp: ex_vreq_def MAX_BUFF_SIZE_def client_vreq_def ex_client_config_def)
  have "\<exists>host port x s'. asked ex_env ClientRelay.ex_trace host port \<and> prefix x (received Cl_read_local ClientRelay.ex_trace) \<and>
    ex_vreq = snd (vr_stream (client_vreq ex_client_config host port) []) @ x \<and>
    on_complete (sc_allowed_passwords scfg) \<lparr>si_now = 0, si_open_ok = True\<rparr> Read_protocol (Data ex_vreq) (finish Read_protocol s) = Inr s' \<and>
    ss_remote_host s' = host \<and> ss_remote_port s' = to_dec (unat port)"
    using tcp_end_to_end [of "\<lambda>p. Some []" "\<lambda>p. []" ex_empty_tree "[[]]" ex_empty_tree "[]" ex_client_config ex_client_config
        ex_server_config _ scfg lg' ex_env Tls c ClientRelay.ex_trace Tls s "[(Handshake, Done)]" ex_vreq "\<lparr>si_now = 0, si_open_ok = True\<rparr>"]
      ex_client_populate pop c s up len asked vreq
    by (fastforce simp: ex_empty_tree_def ascii_def)
  then show ?thesis
    using asked c s pop(2) by fastforce
qed

subsection \<open>Logging in to the DTLS port\<close>

text \<open>C11: the DTLS login admits exactly the configured users. Let client and server load their configurations as above,
  and let the client's password be free of line feeds. Whatever its relays send and whenever its timers fire, a client
  channel whose handshake is over has offered a first record; and a server session that waits for the login starts to
  proxy on this record, with a receive from its target socket outstanding, if the password is one of those configured
  on the server, and is destroyed otherwise.\<close>

theorem dtls_login:
  assumes "\<And>p. evp p = Some (sha224 p)"
    and "pt_children stree (ascii ''allowed_passwords'') = Some ps" and "pt_str ctree (ascii ''password'') = Some p"
    and "inj_on sha224 (insert p (set ps))"
    and "client_populate evp ctree c0 = Inr cfg" and "server_populate evp stree s0 lg = Inr (scfg, lg')"
    and "10 \<notin> set p" and "chan_reach (cc_text_password cfg) c cbs" and "is_ready c"
    and "ds_state s = D_AUTH" and "ds_ssl s" and "\<not> ds_destroyed s" and "di_read inp = Plain (fst (hd (ch_offered c)))"
  shows "\<exists>s'. on_datagram (sc_allowed_passwords scfg) sha224 inp s = Inr s' \<and>
    (if p \<in> set ps then ds_state s' = D_PROXY \<and> ds_pending s' = ds_pending s @ [Receive_target]
     else ds_destroyed s' \<and> ds_pending s' = ds_pending s)"
proof -
  have hash: "cc_password cfg = hex_digest (sha224 p)" and plain: "cc_text_password cfg = p"
    using assms(1,3,5) by (auto simp: client_populate_def SHA224_def get_or_def Let_def)
  have accepted: "hex_digest (sha224 p) \<in> set (sc_allowed_passwords scfg) \<longleftrightarrow> p \<in> set ps"
    using password_accepted_iff [OF assms(1-4), of c0 s0 lg] assms(5,6) hash by auto
  have "fst (hd (ch_offered c)) = p @ [10]"
    using chan_reach_inv [OF assms(8)] assms(9) plain by (simp add: chan_inv_def is_ready_def)
  moreover have "find_str [10] (p @ [10]) = Some (length p)"
    using find_str_skip [OF assms(7), of "[]" "[10]"] by simp
  ultimately show ?thesis
    using assms(10-13) accepted
    by (cases "p \<in> set ps") (simp_all add: on_datagram_def try_read_app_data_def auth_record_def start_auth_def start_proxy_def do_read_target_def
        ds_start_op_def ds_stop_def)
qed

theorem dtls_login_witness:
  "\<exists>s'. on_datagram [hex_digest [112, 119]] (\<lambda>p. p)
      \<lparr>di_accept = Accepted, di_read = Plain [112, 119, 10], di_write_ok = True, di_now = 0\<rparr>
      ((ds_new default_endpoint new_dns_cache)\<lparr>ds_state := D_AUTH\<rparr>) = Inr s' \<and> ds_state s' = D_PROXY"
proof -
  let ?tree = "\<lparr>pt_str = [ascii ''password'' \<mapsto> [112, 119]], pt_bool = Map.empty, pt_int = Map.empty,
     pt_children = [ascii ''allowed_passwords'' \<mapsto> [[112, 119]]]\<rparr>"
  let ?inp = "\<lparr>di_accept = Accepted, di_read = Plain [112, 119, 10], di_write_ok = True, di_now = 0\<rparr>"
  obtain cfg where cfg: "client_populate Some ?tree ex_client_config = Inr cfg" "cc_text_password cfg = [112, 119]"
    by (simp add: client_populate_def SHA224_def get_or_def Let_def ascii_def)
  obtain scfg lg' where scfg: "server_populate Some ?tree ex_server_config (new_logger (\<lambda>b w. w :: unit) (\<lambda>w. w)) = Inr (scfg, lg')"
    "sc_allowed_passwords scfg = [hex_digest [112, 119]]"
    by (simp add: server_populate_def get_or_def SHA224_def Let_def ascii_def)
  have chan: "chan_reach (cc_text_password cfg) ex_channel [On_handshake True]" "is_ready ex_channel"
    using ex_channel_reach by (simp_all add: cfg(2) is_ready_def ex_channel_def)
  show ?thesis
    using dtls_login [of Some "\<lambda>p. p" ?tree "[[112, 119]]" ?tree "[112, 119]" ex_client_config cfg ex_server_config
        "new_logger (\<lambda>b w. w :: unit) (\<lambda>w. w)" scfg lg' ex_channel "[On_handshake True]" "(ds_new default_endpoint new_dns_cache)\<lparr>ds_state := D_AUTH\<rparr>" ?inp]
      cfg scfg chan by (auto simp: ds_new_def ex_channel_def)
qed

subsection \<open>A datagram from the application to the target and back\<close>

lemma server_forwards_record:
  assumes "ds_state s = D_PROXY" and "ds_ssl s" and "is_v4 (ep_addr target)" and "length payload \<le> 65500"
    and "di_read inp = Plain (rl_pkt sid (uf_generate_ep target payload))"
  shows "on_datagram allowed sha224 inp s = Inr (do_send_to_target target payload sid s)"
proof -
  have wf: "wf_ep target" and len: "length (uf_generate_ep target payload) < 2 ^ 16"
    using assms(3,4) by (cases "ep_addr target"; simp add: wf_ep_def length_v4_frame)+
  have ip: "v4_of_bytes (addr_bytes (ep_addr target)) = Inr (ep_addr target)"
    using assms(3) by (cases "ep_addr target") (simp_all add: v4_of_bytes_def)
  have target: "\<lparr>ep_addr = ep_addr target, ep_port = ep_port target\<rparr> = target"
    by simp
  show ?thesis
    using assms uf_parse_generated_ep [OF wf len, of new_udp_frame "[]" 0] ip
    by (simp add: target on_datagram_def try_read_app_data_def proxy_record_def rl_pkt_def uf_consts)
qed



end
